(* ===== verification/Prelude.thy ===== *)
theory Prelude
  imports Main "HOL-Library.Word"
begin

unbundle bit_operations_syntax

section \<open>Shared types, macros and lemmas\<close>

text \<open>
  The machine types of the 32-bit ARM build, the address macros of
  \<open>startup.h\<close> (\<open>TRUNC\<close>, \<open>ROUND\<close>, \<open>KILO\<close>), the result type of code that
  can end in \<open>crash()\<close>, and the generic lemmas on words, lists and address intervals that
  every component uses. The development's collections are declared here: \<open>word_nat\<close> moves
  a word goal to \<open>nat\<close>, \<open>span_simps\<close> unfolds the interval notions.
\<close>

named_theorems word_nat "equations that move a goal on words to nat"
named_theorems span_simps "definitions and equations of address spans"

subsection \<open>Machine types\<close>

type_synonym u8 = "8 word"
type_synonym u16 = "16 word"
type_synonym u32 = "32 word"
type_synonym u64 = "64 word"

text \<open>
  \<open>crash()\<close> prints its message and never returns: a function that may call it returns
  \<open>Inl\<close> of the message, or \<open>Inr\<close> of its result.
\<close>

type_synonym 'a res = "string + 'a"

definition bind_res :: "'a res \<Rightarrow> ('a \<Rightarrow> 'b res) \<Rightarrow> 'b res" where
  "bind_res r f = (case r of Inl e \<Rightarrow> Inl e | Inr x \<Rightarrow> f x)"

lemma bind_res_simps [simp]:
  "bind_res (Inl e) f = Inl e"
  "bind_res (Inr x) f = f x"
  by (simp_all add: bind_res_def)

lemma bind_res_Inr_iff: "bind_res r f = Inr y \<longleftrightarrow> (\<exists>x. r = Inr x \<and> f x = Inr y)"
  by (cases r) auto

subsection \<open>The address macros of startup.h\<close>

definition KILO :: "nat \<Rightarrow> nat" where
  "KILO k = k * 1024"

definition TRUNC :: "'a::len word \<Rightarrow> 'a word \<Rightarrow> 'a word" where
  "TRUNC x a = x AND NOT (a - 1)"

definition ROUND :: "'a::len word \<Rightarrow> 'a word \<Rightarrow> 'a word" where
  "ROUND x a = TRUNC (x + (a - 1)) a"

lemma and_not_mask_shift: "x AND NOT (mask k) = push_bit k (drop_bit k x)" for x :: "'a::len word"
  by (rule bit_eqI) (auto simp: bit_simps)

lemma unat_push_drop: "unat (push_bit k (drop_bit k x) :: 'a::len word) = unat x div 2 ^ k * 2 ^ k"
proof -
  have "unat x div 2 ^ k * 2 ^ k \<le> unat x"
    by (metis div_times_less_eq_dividend)
  then have "unat x div 2 ^ k * 2 ^ k < 2 ^ LENGTH('a)"
    using unsigned_less [of x] by (rule le_less_trans)
  then show ?thesis
    by (simp only: unsigned_push_bit_eq unat_drop_bit_eq take_bit_eq_mod)
      (simp add: push_bit_eq_mult drop_bit_eq_div)
qed

lemma unat_two_power [word_nat]: "k < LENGTH('a) \<Longrightarrow> unat (2 ^ k :: 'a::len word) = 2 ^ k"
proof -
  assume "k < LENGTH('a)"
  then have "unat (of_nat (2 ^ k) :: 'a word) = 2 ^ k"
    by (simp only: unsigned_of_nat take_bit_eq_mod) (simp add: power_strict_increasing)
  then show ?thesis by simp
qed

lemma unat_mask [word_nat]: "k < LENGTH('a) \<Longrightarrow> unat (mask k :: 'a::len word) = 2 ^ k - 1"
proof -
  assume k: "k < LENGTH('a)"
  have "1 \<le> (2 ^ k :: 'a word)"
    using unat_two_power [OF k] by (simp add: word_le_nat_alt)
  then show ?thesis
    using unat_two_power [OF k] by (simp add: mask_eq_exp_minus_1 unat_sub)
qed

lemma unat_TRUNC [word_nat]:
  fixes x a :: "'a::len word"
  assumes "a = 2 ^ k" and "k < LENGTH('a)"
  shows "unat (TRUNC x a) = unat x - unat x mod 2 ^ k"
proof -
  have "a - 1 = mask k" using assms(1) by (simp add: mask_eq_exp_minus_1)
  then have "TRUNC x a = push_bit k (drop_bit k x)"
    by (simp add: TRUNC_def and_not_mask_shift)
  then show ?thesis by (simp add: unat_push_drop minus_mod_eq_div_mult)
qed

lemma TRUNC_le: "a = 2 ^ k \<Longrightarrow> k < LENGTH('a) \<Longrightarrow> TRUNC x a \<le> x" for x a :: "'a::len word"
  by (simp add: word_le_nat_alt unat_TRUNC)

lemma TRUNC_aligned: "a = 2 ^ k \<Longrightarrow> k < LENGTH('a) \<Longrightarrow> 2 ^ k dvd unat (TRUNC x a)" for x a :: "'a::len word"
  by (simp add: unat_TRUNC dvd_minus_mod)

text \<open>
  \<open>ROUND\<close> with a power of two gives the next multiple, as long as the sum does not
  wrap around.
\<close>

lemma unat_ROUND [word_nat]:
  fixes x a :: "'a::len word"
  assumes "a = 2 ^ k" and "k < LENGTH('a)" and "unat x + (2 ^ k - 1) < 2 ^ LENGTH('a)"
  shows "unat (ROUND x a) = (unat x + (2 ^ k - 1)) div 2 ^ k * 2 ^ k"
proof -
  have m: "a - 1 = mask k" using assms(1) by (simp add: mask_eq_exp_minus_1)
  have "unat (mask k :: 'a word) = 2 ^ k - 1"
    using assms(2) by (rule unat_mask)
  then have "unat (x + (a - 1)) = unat x + (2 ^ k - 1)"
    using assms(3) by (simp add: m unat_word_ariths)
  then show ?thesis
    using unat_TRUNC [OF assms(1,2)] by (simp add: ROUND_def minus_mod_eq_div_mult)
qed

lemma ROUND_ge:
  fixes x a :: "'a::len word"
  assumes "a = 2 ^ k" and "k < LENGTH('a)" and "unat x + (2 ^ k - 1) < 2 ^ LENGTH('a)"
  shows "x \<le> ROUND x a"
proof -
  have "unat x \<le> (unat x + (2 ^ k - 1)) div 2 ^ k * 2 ^ k"
    using div_mult_mod_eq [of "unat x + (2 ^ k - 1)" "2 ^ k"]
      mod_less_divisor [of "2 ^ k" "unat x + (2 ^ k - 1)"] by (simp del: mod_less_divisor)
  then show ?thesis by (simp add: word_le_nat_alt unat_ROUND [OF assms])
qed

lemma ROUND_aligned: "a = 2 ^ k \<Longrightarrow> k < LENGTH('a) \<Longrightarrow> 2 ^ k dvd unat (ROUND x a)" for x a :: "'a::len word"
  by (simp add: ROUND_def TRUNC_aligned)

subsection \<open>Words next to each other\<close>

lemma unat_of_nat_small: "n < 2 ^ LENGTH('a) \<Longrightarrow> unat (of_nat n :: 'a::len word) = n"
  by (simp add: unsigned_of_nat take_bit_eq_mod)

lemma word_less_succ: "x \<noteq> - 1 \<Longrightarrow> x < x + 1" for x :: "'a::len word"
  by (meson inc_less_eq_triv_imp not_le)

lemma word_succ_le: "y < x \<Longrightarrow> y + 1 \<le> x" for x :: "'a::len word"
  by (rule inc_le)

lemma word_le_pred: "y < x \<Longrightarrow> y \<le> x - 1" for x :: "'a::len word"
  by (rule less_imp_less_eq_dec)

lemma word_pred_less: "y < x \<Longrightarrow> x - 1 < x" for x :: "'a::len word"
  using leI less_eq_dec_triv_imp by fastforce

end
