(* ===== verification/Lsp.thy ===== *)
theory Lsp
  imports Prelude
begin

section \<open>The system page under construction\<close>

text \<open>
  The state shared by the startup library: \<open>struct local_syspage lsp\<close> of
  \<open>startup/lib/startup.h\<close>. Each section is kept as its contents; the flat memory the
  sections really live in, and the way \<open>grow_syspage_section\<close> moves them, is modelled in
  the theory \<open>Syspage\<close>. What is kept here of the memory is the budget
  (\<open>total_size\<close> against the maximum kept in \<open>size\<close>), because running out of it is the
  one way an operation on a section fails.
\<close>

subsection \<open>Address space entries\<close>

text \<open>
  \<open>struct asinfo_entry\<close>, \<open>AS_NULL_OFF\<close> and the attribute bits are declared in
  \<open><sys/syspage.h>\<close>, which is not part of the repository. The fields are those the
  sources of \<open>as_*.c\<close> read and write. An offset into the section is represented by the
  index of its entry (the offset divided by the entry size), and the null offset by
  \<open>None\<close>; the constants are a parameter of the operations (\<open>as_abi\<close>).
\<close>

record asinfo_entry =
  as_start :: u64
  as_end :: u64
  as_owner :: "nat option"
  as_name :: nat
  as_attr :: u32
  as_priority :: u32
  as_checker :: "nat option"

record as_abi =
  AS_ATTR_KIDS :: u32
  AS_ATTR_CONTINUED :: u32
  AS_OVERLAY_IO :: u32
  AS_ATTR_RAM :: u32
  AS_PRIORITY_DEFAULT :: u32
  sizeof_asinfo_entry :: u32

subsection \<open>The state\<close>

text \<open>
  The strings are the raw characters of their section, the address space section its entries, the
  hardware information section its raw bytes. \<open>hwi_offset\<close> and \<open>hwi_last_item\<close> are the
  file-level \<open>offset\<close> and \<open>last_item\<close> of \<open>hwi_alloc.c\<close>.
\<close>

record lsp =
  sp_total_size :: u32
  sp_max_size :: u32
  sp_strings :: string
  sp_asinfo :: "asinfo_entry list"
  sp_hwinfo :: "u8 list"
  hwi_offset :: u32
  hwi_last_item :: u32

text \<open>
  The budget side of \<open>grow_syspage_section\<close>: nothing happens for a growth of zero;
  otherwise the growth is rounded up to eight bytes and the code crashes if the new total size
  exceeds the maximum.
\<close>

definition grow_budget :: "u32 \<Rightarrow> lsp \<Rightarrow> lsp res" where
  "grow_budget add s =
     (if add = 0 then Inr s
      else let new_size = sp_total_size s + ROUND add 8
           in if new_size > sp_max_size s then Inl ''Syspage memory request exceeds maximum''
              else Inr (s\<lparr>sp_total_size := new_size\<rparr>))"

lemma grow_budget_frame:
  assumes "grow_budget n s = Inr s'"
  shows "sp_strings s' = sp_strings s" "sp_asinfo s' = sp_asinfo s"
    "sp_hwinfo s' = sp_hwinfo s"
    "hwi_offset s' = hwi_offset s" "hwi_last_item s' = hwi_last_item s"
    "sp_max_size s' = sp_max_size s"
  using assms by (auto simp: grow_budget_def Let_def split: if_splits)

lemma grow_budget_max: "grow_budget n s = Inr s' \<Longrightarrow> n \<noteq> 0 \<Longrightarrow> sp_total_size s' \<le> sp_max_size s'"
  by (auto simp: grow_budget_def Let_def split: if_splits)

end
