(* ===== verification/Strings.thy ===== *)
theory Strings
  imports Lsp
begin

section \<open>The string section\<close>

text \<open>
  \<open>startup/lib/strings.c\<close>: \<open>add_string\<close> enters a name into the section of
  NUL-terminated strings, once per distinct name, and returns its offset;
  \<open>__hwi_find_string\<close> (\<open>hwi_alloc.c\<close>) reads the string at an offset. A C string is a
  \<open>char list\<close> without NUL characters; the section is the raw characters, NULs included.
  The interface the other components rely on is the locale \<open>string_pool\<close>: a name that was
  entered is found at its offset, and stays there whatever is entered later.
\<close>

abbreviation NUL :: char where
  "NUL \<equiv> CHR 0x00"

subsection \<open>C strings\<close>

definition cstr :: "string \<Rightarrow> string" where
  "cstr d = takeWhile (\<lambda>c. c \<noteq> NUL) d"

definition is_cstr :: "string \<Rightarrow> bool" where
  "is_cstr s \<longleftrightarrow> NUL \<notin> set s"

lemma is_cstr_simps [simp]:
  "is_cstr []"
  "is_cstr (c # s) \<longleftrightarrow> c \<noteq> NUL \<and> is_cstr s"
  by (auto simp: is_cstr_def)

lemma cstr_append_NUL [simp]: "is_cstr s \<Longrightarrow> cstr (s @ NUL # t) = s"
  by (induction s) (auto simp: cstr_def)

lemma is_cstr_cstr [simp]: "is_cstr (cstr d)"
  by (auto simp: is_cstr_def cstr_def dest: set_takeWhileD)

lemma cstr_Nil_iff: "cstr (c # d) = [] \<longleftrightarrow> c = NUL"
  by (simp add: cstr_def)

subsection \<open>add_string\<close>

text \<open>
  The scan of \<open>add_string\<close>: \<open>Found\<close> of the offset of an equal string, \<open>End\<close> of the
  offset of the empty string that ends the list, or \<open>Overrun\<close> where the section has no
  terminator and the C code would read past its end.
\<close>

datatype scan_result = Found nat | End nat | Overrun

function add_string_scan :: "string \<Rightarrow> string \<Rightarrow> nat \<Rightarrow> scan_result" where
  "add_string_scan name p i =
     (if i \<ge> length p then Overrun
      else if p ! i = NUL then End i
      else if cstr (drop i p) = name then Found i
      else add_string_scan name p (i + length (cstr (drop i p)) + 1))"
  by pat_completeness auto
termination
  by (relation "measure (\<lambda>(name, p, i). length p - i)") auto

declare add_string_scan.simps [simp del]

text \<open>\<open>strcpy\<close> to offset \<open>i\<close>: the characters of the name and its NUL.\<close>

definition strcpy_at :: "nat \<Rightarrow> string \<Rightarrow> string \<Rightarrow> string" where
  "strcpy_at i name p = take i p @ name @ [NUL] @ drop (i + length name + 1) p"

definition add_string :: "string \<Rightarrow> lsp \<Rightarrow> (nat \<times> lsp) res" where
  "add_string name s =
     (case add_string_scan name (sp_strings s) 0 of
        Overrun \<Rightarrow> Inl ''string section not terminated''
      | Found i \<Rightarrow> Inr (i, s)
      | End i \<Rightarrow>
          (let len = length name + 2;
               spare = length (sp_strings s) - i;
               add = (if len > spare then len - spare else 0)
           in bind_res (grow_budget (of_nat add) s)
                (\<lambda>s1. Inr (i, s1\<lparr>sp_strings := strcpy_at i name
                     (sp_strings s1 @ replicate (unat (ROUND (of_nat add :: u32) 8)) NUL)\<rparr>))))"

definition hwi_find_string :: "lsp \<Rightarrow> nat \<Rightarrow> string" where
  "hwi_find_string s off = cstr (drop off (sp_strings s))"

subsection \<open>The shape of the section\<close>

text \<open>
  The section holds the distinct non-empty names entered so far, each with its NUL, followed by
  at least one NUL that ends the list.
\<close>

definition pool_text :: "string list \<Rightarrow> string" where
  "pool_text ns = concat (map (\<lambda>n. n @ [NUL]) ns)"

definition pool_names :: "string list \<Rightarrow> bool" where
  "pool_names ns \<longleftrightarrow> distinct ns \<and> (\<forall>n \<in> set ns. n \<noteq> [] \<and> is_cstr n)"

definition pool_inv :: "string list \<Rightarrow> lsp \<Rightarrow> bool" where
  "pool_inv ns s \<longleftrightarrow> pool_names ns \<and>
     (\<exists>k. 0 < k \<and> sp_strings s = pool_text ns @ replicate k NUL)"

text \<open>The offset of a name in the section, given the names before it.\<close>

definition pool_off :: "string list \<Rightarrow> string \<Rightarrow> nat" where
  "pool_off ns n = length (pool_text (takeWhile (\<lambda>m. m \<noteq> n) ns))"

lemma pool_text_simps [simp]:
  "pool_text [] = []"
  "pool_text (n # ns) = n @ NUL # pool_text ns"
  "pool_text (ns @ ms) = pool_text ns @ pool_text ms"
  by (simp_all add: pool_text_def)

lemma pool_names_Cons: "pool_names (n # ns) \<longleftrightarrow> n \<noteq> [] \<and> is_cstr n \<and> n \<notin> set ns \<and> pool_names ns"
  by (auto simp: pool_names_def)

lemma cstr_pool:
  assumes "n \<in> set ns" and "pool_names ns"
  shows "cstr (drop (pool_off ns n) (pool_text ns @ t)) = n"
  using assms
proof (induction ns)
  case Nil
  then show ?case by simp
next
  case (Cons m ns)
  then show ?case by (auto simp: pool_off_def pool_names_Cons)
qed

lemma nth_append_pre: "(pre @ xs) ! (length pre) = hd xs" if "xs \<noteq> []"
  using that by (simp add: nth_append hd_conv_nth)

lemma scan_pool:
  assumes "pool_names ns" and "0 < k"
  shows "add_string_scan name (pre @ pool_text ns @ replicate k NUL) (length pre) =
    (if name \<in> set ns then Found (length pre + pool_off ns name)
     else End (length pre + length (pool_text ns)))"
  using assms
proof (induction ns arbitrary: pre)
  case Nil
  then obtain j where "k = Suc j" by (cases k) auto
  then show ?case
    by (subst add_string_scan.simps) (simp add: nth_append)
next
  case (Cons n ns)
  from Cons.prems have n: "n \<noteq> []" "is_cstr n" "n \<notin> set ns" and ns: "pool_names ns"
    by (auto simp: pool_names_Cons)
  let ?rest = "pool_text ns @ replicate k NUL"
  have hd: "(pre @ n @ NUL # ?rest) ! length pre \<noteq> NUL"
    using n by (cases n) (auto simp: nth_append)
  have c: "cstr (drop (length pre) (pre @ n @ NUL # ?rest)) = n"
    using n by simp
  have IH: "add_string_scan name ((pre @ n @ [NUL]) @ ?rest) (length (pre @ n @ [NUL])) =
    (if name \<in> set ns then Found (length (pre @ n @ [NUL]) + pool_off ns name)
     else End (length (pre @ n @ [NUL]) + length (pool_text ns)))"
    by (rule Cons.IH [OF ns Cons.prems(2)])
  show ?case
    using hd c IH n
    by (subst add_string_scan.simps) (auto simp: pool_off_def)
qed

subsection \<open>Correctness of add_string\<close>

lemma strcpy_pool:
  assumes "length name + 2 \<le> k"
  shows "strcpy_at (length t) name (t @ replicate k NUL) =
    t @ name @ NUL # replicate (k - length name - 1) NUL"
  using assms by (simp add: strcpy_at_def drop_replicate)

lemma pool_names_snoc: "pool_names (ns @ [n]) \<longleftrightarrow> pool_names ns \<and> n \<notin> set ns \<and> n \<noteq> [] \<and> is_cstr n"
  by (auto simp: pool_names_def)

lemma pool_off_append [simp]: "m \<in> set ns \<Longrightarrow> pool_off (ns @ ms) m = pool_off ns m"
  by (simp add: pool_off_def takeWhile_append1)

lemma pool_off_snoc [simp]: "n \<notin> set ns \<Longrightarrow> pool_off (ns @ [n]) n = length (pool_text ns)"
  unfolding pool_off_def by (subst takeWhile_append2) auto

lemma scan_section:
  "pool_inv ns s \<Longrightarrow> add_string_scan name (sp_strings s) 0 =
    (if name \<in> set ns then Found (pool_off ns name) else End (length (pool_text ns)))"
  using scan_pool [of ns _ name "[]"] by (auto simp: pool_inv_def)

lemma unat_ROUND8_ge:
  assumes "n + 8 < 2 ^ 32"
  shows "n \<le> unat (ROUND (of_nat n :: u32) 8)"
proof -
  have n: "unat (of_nat n :: u32) = n"
    using assms by (simp add: unsigned_of_nat take_bit_eq_mod)
  have "(of_nat n :: u32) \<le> ROUND (of_nat n) 8"
    by (rule ROUND_ge [where k = 3]) (use assms n in auto)
  then show ?thesis by (simp add: word_le_nat_alt n)
qed

definition pool_add :: "string list \<Rightarrow> string \<Rightarrow> string list" where
  "pool_add ns n = (if n \<in> set ns then ns else ns @ [n])"

definition valid_name :: "string \<Rightarrow> bool" where
  "valid_name n \<longleftrightarrow> n \<noteq> [] \<and> is_cstr n \<and> length n < 2 ^ 31"

lemma add_string_pool:
  assumes inv: "pool_inv ns s" and v: "valid_name n" and r: "add_string n s = Inr (off, s')"
  shows "pool_inv (pool_add ns n) s' \<and> off = pool_off (pool_add ns n) n"
proof (cases "n \<in> set ns")
  case True
  then show ?thesis
    using r inv by (auto simp: add_string_def scan_section [OF inv] pool_add_def)
next
  case False
  obtain k where k: "0 < k" and sp: "sp_strings s = pool_text ns @ replicate k NUL"
    using inv by (auto simp: pool_inv_def)
  have spare: "length (sp_strings s) - length (pool_text ns) = k"
    by (simp add: sp)
  let ?add = "if length n + 2 > k then length n + 2 - k else 0"
  let ?g = "unat (ROUND (of_nat ?add :: u32) 8)"
  obtain s1 where g: "grow_budget (of_nat ?add) s = Inr s1" and off: "off = length (pool_text ns)"
    and s': "s' = s1\<lparr>sp_strings := strcpy_at off n (sp_strings s1 @ replicate ?g NUL)\<rparr>"
    using r False by (auto simp: add_string_def scan_section [OF inv] spare Let_def bind_res_Inr_iff
        simp del: add_2_eq_Suc add_2_eq_Suc')
  have s1: "sp_strings s1 = pool_text ns @ replicate k NUL"
    using grow_budget_frame(1) [OF g] sp by simp
  have "?add \<le> ?g"
    by (rule unat_ROUND8_ge) (use v k in \<open>auto simp: valid_name_def\<close>)
  then have "length n + 2 \<le> k + ?g" by (simp split: if_splits)
  then have "sp_strings s' = pool_text ns @ n @ NUL # replicate (k + ?g - length n - 1) NUL"
    using strcpy_pool [of n "k + ?g" "pool_text ns"] by (simp add: s' off s1 replicate_add)
  moreover have "0 < k + ?g - length n - 1"
    using \<open>length n + 2 \<le> k + ?g\<close> by simp
  ultimately show ?thesis
    using inv False v off
    by (auto simp: pool_inv_def pool_add_def pool_names_snoc valid_name_def intro: exI)
qed

lemma find_string_pool: "pool_inv ns s \<Longrightarrow> n \<in> set ns \<Longrightarrow> hwi_find_string s (pool_off ns n) = n"
  by (auto simp: pool_inv_def hwi_find_string_def cstr_pool simp del: drop_append)

lemma add_string_frame:
  assumes "add_string n s = Inr (off, s')"
  shows "sp_asinfo s' = sp_asinfo s" "sp_hwinfo s' = sp_hwinfo s"
    "hwi_offset s' = hwi_offset s" "hwi_last_item s' = hwi_last_item s"
  using assms
  by (auto simp: add_string_def Let_def bind_res_Inr_iff dest: grow_budget_frame
      split: scan_result.splits if_splits)

subsection \<open>The interface of a string pool\<close>

locale string_pool =
  fixes add :: "string \<Rightarrow> 's \<Rightarrow> (nat \<times> 's) res"
    and look :: "'s \<Rightarrow> nat \<Rightarrow> string"
    and inv :: "'s \<Rightarrow> bool"
    and held :: "'s \<Rightarrow> nat \<Rightarrow> bool"
    and valid :: "string \<Rightarrow> bool"
  assumes add_found: "inv s \<Longrightarrow> valid n \<Longrightarrow> add n s = Inr (off, s') \<Longrightarrow> inv s' \<and> held s' off \<and> look s' off = n"
    and add_keeps: "inv s \<Longrightarrow> valid n \<Longrightarrow> add n s = Inr (off, s') \<Longrightarrow> held s o' \<Longrightarrow> held s' o' \<and> look s' o' = look s o'"
    and add_again: "inv s \<Longrightarrow> held s off \<Longrightarrow> look s off = n \<Longrightarrow> add n s = Inr (off, s)"

text \<open>Entering several names in turn, as the callers of \<open>add_string\<close> do.\<close>

fun add_all :: "(string \<Rightarrow> 's \<Rightarrow> (nat \<times> 's) res) \<Rightarrow> string list \<Rightarrow> 's \<Rightarrow> (nat list \<times> 's) res" where
  "add_all add [] s = Inr ([], s)"
| "add_all add (n # ns) s =
     bind_res (add n s) (\<lambda>(off, s1). bind_res (add_all add ns s1) (\<lambda>(os, s2). Inr (off # os, s2)))"

context string_pool begin

lemma add_all_keeps:
  "inv s \<Longrightarrow> \<forall>n \<in> set ns. valid n \<Longrightarrow> add_all add ns s = Inr (os, s') \<Longrightarrow>
    inv s' \<and> (\<forall>p. held s p \<longrightarrow> held s' p \<and> look s' p = look s p)"
proof (induction ns arbitrary: s os)
  case Nil
  then show ?case by simp
next
  case (Cons n ns)
  then obtain off s1 os1 where 1: "add n s = Inr (off, s1)" "add_all add ns s1 = Inr (os1, s')"
    by (auto simp: bind_res_Inr_iff)
  have "inv s1" using add_found [OF Cons.prems(1) _ 1(1)] Cons.prems(2) by simp
  with Cons.IH [OF this _ 1(2)] Cons.prems add_keeps [OF Cons.prems(1) _ 1(1)]
  show ?case by auto
qed

lemma add_all_found:
  "inv s \<Longrightarrow> \<forall>n \<in> set ns. valid n \<Longrightarrow> add_all add ns s = Inr (os, s') \<Longrightarrow>
    map (look s') os = ns \<and> (\<forall>p \<in> set os. held s' p)"
proof (induction ns arbitrary: s os)
  case Nil
  then show ?case by simp
next
  case (Cons n ns)
  then obtain off s1 os1 where 1: "add n s = Inr (off, s1)" "add_all add ns s1 = Inr (os1, s')"
    and os: "os = off # os1"
    by (auto simp: bind_res_Inr_iff)
  have s1: "inv s1 \<and> held s1 off \<and> look s1 off = n"
    using add_found [OF Cons.prems(1) _ 1(1)] Cons.prems(2) by simp
  with Cons.IH [OF _ _ 1(2)] Cons.prems add_all_keeps [OF _ _ 1(2)] os
  show ?case by auto
qed

lemma add_idem: "inv s \<Longrightarrow> valid n \<Longrightarrow> add n s = Inr (off, s') \<Longrightarrow> add n s' = Inr (off, s')"
  using add_found add_again by blast

end

definition strings_ok :: "lsp \<Rightarrow> bool" where
  "strings_ok s \<longleftrightarrow> (\<exists>ns. pool_inv ns s)"

definition string_held :: "lsp \<Rightarrow> nat \<Rightarrow> bool" where
  "string_held s off \<longleftrightarrow> (\<exists>ns n. pool_inv ns s \<and> n \<in> set ns \<and> off = pool_off ns n)"

interpretation sp: string_pool add_string hwi_find_string strings_ok string_held valid_name
proof unfold_locales
  fix s n off s'
  assume a: "strings_ok s" "valid_name n" "add_string n s = Inr (off, s')"
  then obtain ns where "pool_inv ns s" by (auto simp: strings_ok_def)
  from add_string_pool [OF this a(2,3)]
  have 1: "pool_inv (pool_add ns n) s'" "off = pool_off (pool_add ns n) n" by auto
  moreover have "n \<in> set (pool_add ns n)" by (simp add: pool_add_def)
  ultimately show "strings_ok s' \<and> string_held s' off \<and> hwi_find_string s' off = n"
    by (auto simp: strings_ok_def string_held_def find_string_pool)
next
  fix s n off s' o'
  assume a: "valid_name n" "add_string n s = Inr (off, s')" "string_held s o'"
  then obtain ns m where m: "pool_inv ns s" "m \<in> set ns" "o' = pool_off ns m"
    by (auto simp: string_held_def)
  from add_string_pool [OF m(1) a(1,2)] have "pool_inv (pool_add ns n) s'" by simp
  moreover have "m \<in> set (pool_add ns n)" "o' = pool_off (pool_add ns n) m"
    using m by (auto simp: pool_add_def)
  ultimately have "string_held s' o'" "hwi_find_string s' o' = m"
    unfolding string_held_def using find_string_pool by blast+
  moreover have "hwi_find_string s o' = m" using m by (simp add: find_string_pool)
  ultimately show "string_held s' o' \<and> hwi_find_string s' o' = hwi_find_string s o'" by simp
next
  fix s off n
  assume "string_held s off" "hwi_find_string s off = n"
  then obtain ns m where m: "pool_inv ns s" "m \<in> set ns" "off = pool_off ns m" "n = m"
    by (auto simp: string_held_def find_string_pool)
  then show "add_string n s = Inr (off, s)"
    by (simp add: add_string_def scan_section)
qed

subsection \<open>Properties\<close>

text \<open>
  A concrete section to run the operations on: the names ``memory'' and ``ram'' and a free byte.
\<close>

definition ex_lsp :: lsp where
  "ex_lsp = \<lparr>sp_total_size = 64, sp_max_size = 1024, sp_strings = pool_text [''memory'', ''ram''] @ [NUL],
     sp_asinfo = [], sp_hwinfo = [], hwi_offset = 0, hwi_last_item = 0\<rparr>"

lemma ex_lsp_pool: "pool_inv [''memory'', ''ram''] ex_lsp"
  by (auto simp: pool_inv_def pool_names_def ex_lsp_def intro!: exI [of _ "1::nat"])

lemma ex_lsp_strings_ok: "strings_ok ex_lsp"
  using ex_lsp_pool by (auto simp: strings_ok_def)

text \<open>C10: \<open>add_string\<close> returns an offset at which the name is found, and every
  string that was in the section before is still found at its old offset, so offsets stored in
  tags and address space entries stay valid while the section grows.\<close>

theorem add_string_found_and_kept:
  assumes "strings_ok s" and "valid_name n" and "add_string n s = Inr (off, s')"
  shows "strings_ok s' \<and> hwi_find_string s' off = n \<and>
    (\<forall>p. string_held s p \<longrightarrow> hwi_find_string s' p = hwi_find_string s p)"
  using sp.add_found [OF assms] sp.add_keeps [OF assms] by blast

lemma add_string_found_and_kept_witness:
  "\<exists>off s'. add_string ''sysram'' ex_lsp = Inr (off, s') \<and> strings_ok s' \<and> hwi_find_string s' off = ''sysram''"
proof -
  have "case add_string ''sysram'' ex_lsp of Inl e \<Rightarrow> False | Inr (off, s') \<Rightarrow> True" by code_simp
  then obtain off s' where r: "add_string ''sysram'' ex_lsp = Inr (off, s')"
    by (auto split: sum.splits)
  have "valid_name ''sysram''" by (simp add: valid_name_def)
  from add_string_found_and_kept [OF ex_lsp_strings_ok this r] r show ?thesis by blast
qed

text \<open>C11: entering a name twice gives the same offset and the second call leaves the
  section as it is: names are stored once.\<close>

theorem add_string_idempotent:
  assumes "strings_ok s" and "valid_name n" and "add_string n s = Inr (off, s')"
  shows "add_string n s' = Inr (off, s')"
  using assms by (rule sp.add_idem)

lemma add_string_idempotent_witness:
  "\<exists>off s'. add_string ''io'' ex_lsp = Inr (off, s') \<and> add_string ''io'' s' = Inr (off, s')"
proof -
  have "case add_string ''io'' ex_lsp of Inl e \<Rightarrow> False | Inr (off, s') \<Rightarrow> True" by code_simp
  then obtain off s' where r: "add_string ''io'' ex_lsp = Inr (off, s')"
    by (auto split: sum.splits)
  have "valid_name ''io''" by (simp add: valid_name_def)
  from add_string_idempotent [OF ex_lsp_strings_ok this r] r show ?thesis by blast
qed

end
