(* ===== verification/AddrSpace.thy ===== *)
theory AddrSpace
  imports Strings
begin

section \<open>The address space section\<close>

text \<open>
  \<open>startup/lib/as_*.c\<close>: the section \<open>asinfo\<close> is an array of address ranges, each with a
  name and an owner (its parent range). \<open>as_add64\<close> appends an entry, \<open>as_find\<close> and
  \<open>as_find_containing\<close> search by name path and by overlap, \<open>as_add_containing\<close> adds a
  range under every entry of a given name that it overlaps, cut into one piece for each, and
  links the pieces with the \<open>CONTINUED\<close> attribute, which \<open>as_set_priority\<close> follows.
  Reading an entry outside the section is undefined in C and \<open>Inl\<close> here.
\<close>

definition undef :: "'a res" where
  "undef = Inl ''undefined''"

lemma undef_neq_Inr [simp]: "undef \<noteq> Inr x" "Inr x \<noteq> undef"
  by (simp_all add: undef_def)

subsection \<open>as_add64, as_add\<close>

definition set_kids :: "as_abi \<Rightarrow> nat option \<Rightarrow> asinfo_entry list \<Rightarrow> asinfo_entry list res" where
  "set_kids K owner l =
     (case owner of None \<Rightarrow> Inr l
      | Some w \<Rightarrow> if w < length l
          then Inr (l[w := (l ! w)\<lparr>as_attr := as_attr (l ! w) OR AS_ATTR_KIDS K\<rparr>]) else undef)"

lemma and_not_and [simp]: "(x AND NOT y) AND y = 0" for x y :: "'a::len word"
  by (rule bit_eqI) (auto simp: bit_simps)

function as_add64 :: "as_abi \<Rightarrow> u64 \<Rightarrow> u64 \<Rightarrow> u32 \<Rightarrow> string \<Rightarrow> nat option \<Rightarrow> lsp \<Rightarrow> (nat \<times> lsp) res" where
  "as_add64 K start end attr name owner s =
     bind_res (add_string name s) (\<lambda>(name_off, s1).
     bind_res (grow_budget (sizeof_asinfo_entry K) s1) (\<lambda>s2.
     let off = length (sp_asinfo s2);
         as = \<lparr>as_start = start, as_end = end, as_owner = owner, as_name = name_off,
               as_attr = attr AND 0xffff, as_priority = AS_PRIORITY_DEFAULT K, as_checker = None\<rparr>
     in bind_res (set_kids K owner (sp_asinfo s2 @ [as])) (\<lambda>l.
        let s3 = s2\<lparr>sp_asinfo := l\<rparr>
        in if attr AND AS_OVERLAY_IO K \<noteq> 0
           then bind_res (as_add64 K (ucast (ucast start :: u32)) (ucast (ucast end :: u32))
                  (attr AND NOT (AS_OVERLAY_IO K)) ''io'' (Some off) s3) (\<lambda>(_, s4). Inr (off, s4))
           else Inr (off, s3))))"
  by pat_completeness auto
termination
  by (relation "measure (\<lambda>(K, st, en, attr, nm, ow, s). if attr AND AS_OVERLAY_IO K \<noteq> 0 then 1 else 0)") auto

declare as_add64.simps [simp del]

definition as_add :: "as_abi \<Rightarrow> u32 \<Rightarrow> u32 \<Rightarrow> u32 \<Rightarrow> string \<Rightarrow> nat option \<Rightarrow> lsp \<Rightarrow> (nat \<times> lsp) res" where
  "as_add K start end attr name owner s = as_add64 K (ucast start) (ucast end) attr name owner s"

subsection \<open>as_off2info\<close>

definition as_off2info :: "nat \<Rightarrow> lsp \<Rightarrow> asinfo_entry res" where
  "as_off2info off s = (if off < length (sp_asinfo s) then Inr (sp_asinfo s ! off) else undef)"

definition as_update :: "nat \<Rightarrow> (asinfo_entry \<Rightarrow> asinfo_entry) \<Rightarrow> lsp \<Rightarrow> lsp" where
  "as_update off f s = s\<lparr>sp_asinfo := (sp_asinfo s)[off := f (sp_asinfo s ! off)]\<rparr>"

subsection \<open>as_find\<close>

text \<open>
  \<open>match_item\<close> compares a path of names, last name first, with an entry and its owners;
  \<open>as_find\<close> tries the entries after \<open>start\<close> in order.
\<close>

fun match_item :: "lsp \<Rightarrow> nat \<Rightarrow> string list \<Rightarrow> bool res" where
  "match_item s i [] = undef"
| "match_item s i (name # prev) =
     bind_res (as_off2info i s) (\<lambda>as.
       if hwi_find_string s (as_name as) \<noteq> name then Inr False
       else if prev = [] then Inr True
       else case as_owner as of None \<Rightarrow> Inr False | Some w \<Rightarrow> match_item s w prev)"

function as_find_from :: "lsp \<Rightarrow> string list \<Rightarrow> nat \<Rightarrow> nat option res" where
  "as_find_from s path i =
     (if i \<ge> length (sp_asinfo s) then Inr None
      else case match_item s i path of
             Inl e \<Rightarrow> Inl e
           | Inr m \<Rightarrow> if m then Inr (Some i) else as_find_from s path (Suc i))"
  by pat_completeness auto
termination
  by (relation "measure (\<lambda>(s, path, i). length (sp_asinfo s) - i)") auto

declare as_find_from.simps [simp del]

definition as_find :: "nat option \<Rightarrow> string list \<Rightarrow> lsp \<Rightarrow> nat option res" where
  "as_find start names s =
     (if names = [] then Inl ''NULL name argument''
      else as_find_from s (rev names) (case start of None \<Rightarrow> 0 | Some off \<Rightarrow> Suc off))"

subsection \<open>as_find_containing\<close>

text \<open>
  \<open>match_name\<close> looks for a name among an entry and all its owners. The C loop ends because
  owners precede their kids; here it has the number of entries as fuel, and
  \<open>match_name_total\<close> shows that this is enough.
\<close>

fun match_name :: "nat \<Rightarrow> lsp \<Rightarrow> nat \<Rightarrow> string \<Rightarrow> bool res" where
  "match_name 0 s i name = undef"
| "match_name (Suc fuel) s i name =
     bind_res (as_off2info i s) (\<lambda>as.
       if hwi_find_string s (as_name as) = name then Inr True
       else case as_owner as of None \<Rightarrow> Inr False | Some w \<Rightarrow> match_name fuel s w name)"

definition as_overlap :: "u32 \<Rightarrow> u32 \<Rightarrow> asinfo_entry \<Rightarrow> bool" where
  "as_overlap start end as \<longleftrightarrow>
     (ucast start \<ge> as_start as \<and> ucast start \<le> as_end as) \<or>
     (ucast end \<ge> as_start as \<and> ucast end \<le> as_end as) \<or>
     (ucast start \<le> as_start as \<and> ucast end \<ge> as_end as)"

function find_containing_from :: "lsp \<Rightarrow> u32 \<Rightarrow> u32 \<Rightarrow> string \<Rightarrow> nat \<Rightarrow> nat option res" where
  "find_containing_from s start end container i =
     (if i \<ge> length (sp_asinfo s) then Inr None
      else case match_name (length (sp_asinfo s)) s i container of
             Inl e \<Rightarrow> Inl e
           | Inr m \<Rightarrow> if m \<and> as_overlap start end (sp_asinfo s ! i) then Inr (Some i)
                      else find_containing_from s start end container (Suc i))"
  by pat_completeness auto
termination
  by (relation "measure (\<lambda>(s, st, en, c, i). length (sp_asinfo s) - i)") auto

declare find_containing_from.simps [simp del]

definition as_find_containing :: "nat option \<Rightarrow> u32 \<Rightarrow> u32 \<Rightarrow> string \<Rightarrow> lsp \<Rightarrow> nat option res" where
  "as_find_containing off start end container s =
     find_containing_from s start end container (case off of None \<Rightarrow> 0 | Some p \<Rightarrow> Suc p)"

subsection \<open>as_add_containing\<close>

record as_range =
  rg_start :: u32
  rg_end :: u32
  rg_owner :: nat

text \<open>One step of the inner loop: the new piece goes into the list of ranges so far.\<close>

fun insert_piece :: "as_range \<Rightarrow> as_range list \<Rightarrow> as_range list" where
  "insert_piece p [] = [p]"
| "insert_piece p (cur # rest) =
     (if rg_start cur \<le> rg_start p \<and> rg_end cur \<ge> rg_start p then
        if rg_start cur = rg_start p \<and> rg_end cur = rg_end p
        then cur\<lparr>rg_owner := rg_owner p\<rparr> # rest
        else if rg_start cur = rg_start p
        then p # cur\<lparr>rg_start := rg_end p + 1\<rparr> # rest
        else let old_end = rg_end cur;
                 cur1 = cur\<lparr>rg_end := rg_start p - 1\<rparr>
             in if old_end \<noteq> rg_end p
                then cur1 # p # \<lparr>rg_start = rg_end p + 1, rg_end = old_end, rg_owner = rg_owner cur\<rparr> # rest
                else cur1 # p # rest
      else cur # insert_piece p rest)"

definition as_piece :: "u32 \<Rightarrow> u32 \<Rightarrow> nat \<Rightarrow> asinfo_entry \<Rightarrow> as_range" where
  "as_piece start end owner as =
     \<lparr>rg_start = (if as_start as > ucast start then ucast (as_start as) else start),
      rg_end = (if as_end as < ucast end then ucast (as_end as) else end),
      rg_owner = owner\<rparr>"

lemma find_containing_from_ge:
  "find_containing_from s st en c i = Inr (Some j) \<Longrightarrow> i \<le> j \<and> j < length (sp_asinfo s)"
  by (induction s st en c i rule: find_containing_from.induct)
    (subst (asm) find_containing_from.simps, fastforce split: if_splits sum.splits)

function collect_pieces :: "lsp \<Rightarrow> u32 \<Rightarrow> u32 \<Rightarrow> string \<Rightarrow> nat option \<Rightarrow> as_range list \<Rightarrow> as_range list res" where
  "collect_pieces s start end container owner list =
     (case as_find_containing owner start end container s of
        Inl e \<Rightarrow> Inl e
      | Inr None \<Rightarrow> Inr list
      | Inr (Some w) \<Rightarrow>
          collect_pieces s start end container (Some w)
            (insert_piece (as_piece start end w (sp_asinfo s ! w)) list))"
  by pat_completeness auto
termination
  by (relation "measure (\<lambda>(s, st, en, c, ow, l).
        length (sp_asinfo s) - (case ow of None \<Rightarrow> 0 | Some p \<Rightarrow> Suc p))")
    (auto simp: as_find_containing_def split: option.splits dest!: find_containing_from_ge)

declare collect_pieces.simps [simp del]

text \<open>The second loop adds an entry for every range that is not empty.\<close>

fun add_pieces :: "as_abi \<Rightarrow> u32 \<Rightarrow> string \<Rightarrow> as_range list \<Rightarrow> nat \<Rightarrow> nat option \<Rightarrow> lsp \<Rightarrow> (nat \<times> nat option \<times> lsp) res" where
  "add_pieces K attr name [] off start_off s = Inr (off, start_off, s)"
| "add_pieces K attr name (p # ps) off start_off s =
     (if rg_start p \<le> rg_end p then
        bind_res (as_add K (rg_start p) (rg_end p) attr name (Some (rg_owner p)) s)
          (\<lambda>(off1, s1). add_pieces K attr name ps off1
             (case start_off of None \<Rightarrow> Some off1 | Some x \<Rightarrow> Some x) s1)
      else add_pieces K attr name ps off start_off s)"

text \<open>The loop that puts an I/O overlay under every piece of the chain.\<close>

fun overlay_chain :: "nat \<Rightarrow> as_abi \<Rightarrow> u32 \<Rightarrow> string \<Rightarrow> nat \<Rightarrow> lsp \<Rightarrow> (nat \<times> lsp) res" where
  "overlay_chain 0 K attr name off s = undef"
| "overlay_chain (Suc fuel) K attr name off s =
     bind_res (as_off2info off s) (\<lambda>as.
     bind_res (as_add K (ucast (as_start as)) (ucast (as_end as)) attr name (Some off) s) (\<lambda>(_, s1).
     bind_res (as_off2info off s1) (\<lambda>as1.
       if as_attr as1 AND AS_ATTR_CONTINUED K = 0 then Inr (off, s1)
       else overlay_chain fuel K attr name (Suc off) s1)))"

definition as_add_containing ::
  "as_abi \<Rightarrow> u32 \<Rightarrow> u32 \<Rightarrow> u32 \<Rightarrow> string \<Rightarrow> string \<Rightarrow> lsp \<Rightarrow> (nat option \<times> lsp) res" where
  "as_add_containing K start end attr name container s =
     bind_res (collect_pieces s start end container None []) (\<lambda>list.
     let piece_attr = (attr AND NOT (AS_OVERLAY_IO K)) OR AS_ATTR_CONTINUED K
     in bind_res (add_pieces K piece_attr name list 0 None s) (\<lambda>(off, start_off, s1).
        case start_off of
          None \<Rightarrow> Inr (None, s1)
        | Some first \<Rightarrow>
            bind_res (as_off2info off s1) (\<lambda>_.
            let s2 = as_update off (\<lambda>as. as\<lparr>as_attr := as_attr as AND NOT (AS_ATTR_CONTINUED K)\<rparr>) s1
            in if attr AND AS_OVERLAY_IO K \<noteq> 0
               then bind_res (overlay_chain (length (sp_asinfo s2)) K (attr AND NOT (AS_OVERLAY_IO K)) name first s2)
                      (\<lambda>(_, s3). Inr (Some first, s3))
               else Inr (Some first, s2))))"

subsection \<open>as_set_priority, as_set_checker\<close>



definition as_set_checker :: "nat \<Rightarrow> nat \<Rightarrow> lsp \<Rightarrow> lsp res" where
  "as_set_checker off rtn s =
     (if off < length (sp_asinfo s)
      then Inr (as_update off (\<lambda>as. as\<lparr>as_checker := Some rtn\<rparr>) s) else undef)"

subsection \<open>What adding an entry does\<close>

definition with_kids :: "as_abi \<Rightarrow> nat option \<Rightarrow> asinfo_entry list \<Rightarrow> asinfo_entry list" where
  "with_kids K owner l =
     (case owner of None \<Rightarrow> l | Some w \<Rightarrow> l[w := (l ! w)\<lparr>as_attr := as_attr (l ! w) OR AS_ATTR_KIDS K\<rparr>])"

lemma length_with_kids [simp]: "length (with_kids K owner l) = length l"
  by (simp add: with_kids_def split: option.split)

lemma with_kids_nth: "i < length l \<Longrightarrow> with_kids K owner l ! i =
    (if owner = Some i then (l ! i)\<lparr>as_attr := as_attr (l ! i) OR AS_ATTR_KIDS K\<rparr> else l ! i)"
  by (auto simp: with_kids_def split: option.split)

lemma with_kids_fields [simp]:
  assumes "i < length l"
  shows "as_owner (with_kids K owner l ! i) = as_owner (l ! i)"
    "as_start (with_kids K owner l ! i) = as_start (l ! i)"
    "as_end (with_kids K owner l ! i) = as_end (l ! i)"
    "as_name (with_kids K owner l ! i) = as_name (l ! i)"
  using assms by (simp_all add: with_kids_nth)

lemma set_kids_Inr: "set_kids K owner l = Inr l' \<longleftrightarrow>
    l' = with_kids K owner l \<and> (case owner of None \<Rightarrow> True | Some w \<Rightarrow> w < length l)"
  by (auto simp: set_kids_def with_kids_def split: option.splits if_splits)

text \<open>Without the I/O overlay flag exactly one entry is appended, and the owner is marked.\<close>

lemma as_add64_plain:
  assumes r: "as_add64 K st en attr name owner s = Inr (off, s')" and a: "attr AND AS_OVERLAY_IO K = 0"
    and ow: "case owner of None \<Rightarrow> True | Some w \<Rightarrow> w < length (sp_asinfo s)"
  shows "off = length (sp_asinfo s)"
    "\<exists>nm s1. add_string name s = Inr (nm, s1) \<and> sp_strings s' = sp_strings s1 \<and>
      sp_asinfo s' = with_kids K owner (sp_asinfo s) @
        [\<lparr>as_start = st, as_end = en, as_owner = owner, as_name = nm,
          as_attr = attr AND 0xffff, as_priority = AS_PRIORITY_DEFAULT K, as_checker = None\<rparr>]"
proof -
  obtain nm s1 s2 l where 1: "add_string name s = Inr (nm, s1)"
    and 2: "grow_budget (sizeof_asinfo_entry K) s1 = Inr s2"
    and 3: "set_kids K owner (sp_asinfo s2 @
        [\<lparr>as_start = st, as_end = en, as_owner = owner, as_name = nm,
          as_attr = attr AND 0xffff, as_priority = AS_PRIORITY_DEFAULT K, as_checker = None\<rparr>]) = Inr l"
    and 4: "off = length (sp_asinfo s2)" "s' = s2\<lparr>sp_asinfo := l\<rparr>"
    using r a by (subst (asm) as_add64.simps) (auto simp: bind_res_Inr_iff Let_def)
  have eq: "sp_asinfo s2 = sp_asinfo s" "sp_strings s2 = sp_strings s1"
    using add_string_frame(1) [OF 1] grow_budget_frame(1,2) [OF 2] by simp_all
  then show "off = length (sp_asinfo s)" using 4 by simp
  have "with_kids K owner (l @ [x]) = with_kids K owner l @ [x]"
    if "case owner of None \<Rightarrow> True | Some w \<Rightarrow> w < length l" for l x
    using that by (auto simp: with_kids_def list_update_append nth_append split: option.split)
  with 1 3 4 eq ow show "\<exists>nm s1. add_string name s = Inr (nm, s1) \<and> sp_strings s' = sp_strings s1 \<and>
      sp_asinfo s' = with_kids K owner (sp_asinfo s) @
        [\<lparr>as_start = st, as_end = en, as_owner = owner, as_name = nm,
          as_attr = attr AND 0xffff, as_priority = AS_PRIORITY_DEFAULT K, as_checker = None\<rparr>]"
    by (auto simp: set_kids_Inr)
qed

subsection \<open>The tree of owners\<close>

text \<open>
  Owners come before their kids and every entry is a range: the well-formedness of the section.
\<close>

definition as_tree_ok :: "lsp \<Rightarrow> bool" where
  "as_tree_ok s \<longleftrightarrow> (\<forall>i < length (sp_asinfo s). as_start (sp_asinfo s ! i) \<le> as_end (sp_asinfo s ! i) \<and>
     (case as_owner (sp_asinfo s ! i) of None \<Rightarrow> True | Some w \<Rightarrow> w < i))"

inductive as_under :: "lsp \<Rightarrow> nat \<Rightarrow> nat \<Rightarrow> bool" for s where
  self: "i < length (sp_asinfo s) \<Longrightarrow> as_under s i i"
| owner: "i < length (sp_asinfo s) \<Longrightarrow> as_owner (sp_asinfo s ! i) = Some w \<Longrightarrow> as_under s w a \<Longrightarrow> as_under s i a"

inductive_cases as_underE: "as_under s i a"

definition in_container :: "lsp \<Rightarrow> nat \<Rightarrow> string \<Rightarrow> bool" where
  "in_container s i name \<longleftrightarrow> (\<exists>a. as_under s i a \<and> hwi_find_string s (as_name (sp_asinfo s ! a)) = name)"

lemma in_container_unfold:
  assumes "i < length (sp_asinfo s)"
  shows "in_container s i name \<longleftrightarrow> hwi_find_string s (as_name (sp_asinfo s ! i)) = name \<or>
    (\<exists>w. as_owner (sp_asinfo s ! i) = Some w \<and> in_container s w name)"
  using assms by (auto simp: in_container_def elim: as_underE intro: as_under.intros)

lemma match_name_total:
  assumes "as_tree_ok s" and "i < length (sp_asinfo s)" and "i < fuel"
  shows "match_name fuel s i name = Inr (in_container s i name)"
  using assms(2,3)
proof (induction fuel arbitrary: i)
  case 0
  then show ?case by simp
next
  case (Suc fuel)
  show ?case
  proof (cases "as_owner (sp_asinfo s ! i)")
    case None
    with Suc.prems show ?thesis
      by (auto simp: as_off2info_def in_container_unfold)
  next
    case (Some w)
    with assms(1) Suc.prems have "w < i" by (auto simp: as_tree_ok_def)
    with Suc.IH [of w] Suc.prems Some show ?thesis
      by (simp add: as_off2info_def in_container_unfold [of i])
  qed
qed

lemma match_name_full:
  "as_tree_ok s \<Longrightarrow> i < length (sp_asinfo s) \<Longrightarrow>
    match_name (length (sp_asinfo s)) s i name = Inr (in_container s i name)"
  by (rule match_name_total)

lemma as_overlap_iff:
  assumes "st \<le> en" and "as_start as \<le> as_end as"
  shows "as_overlap st en as \<longleftrightarrow> ucast st \<le> as_end as \<and> as_start as \<le> ucast en"
proof -
  have "(ucast st :: u64) \<le> ucast en"
    using assms(1) by (simp add: word_le_nat_alt unsigned_ucast_eq take_bit_eq_mod
      less_le_trans [OF unsigned_less])
  then show ?thesis using assms(2) by (auto simp: as_overlap_def)
qed

text \<open>What a successful or failed search means.\<close>

definition as_hit :: "lsp \<Rightarrow> u32 \<Rightarrow> u32 \<Rightarrow> string \<Rightarrow> nat \<Rightarrow> bool" where
  "as_hit s st en c i \<longleftrightarrow> i < length (sp_asinfo s) \<and> in_container s i c \<and> as_overlap st en (sp_asinfo s ! i)"

lemma find_containing_from_spec:
  assumes "as_tree_ok s"
  shows "(\<exists>j. find_containing_from s st en c i = Inr (Some j) \<and> i \<le> j \<and> as_hit s st en c j \<and>
             (\<forall>k. i \<le> k \<and> k < j \<longrightarrow> \<not> as_hit s st en c k)) \<or>
         (find_containing_from s st en c i = Inr None \<and> (\<forall>k \<ge> i. \<not> as_hit s st en c k))"
  using assms
proof (induction s st en c i rule: find_containing_from.induct)
  case (1 s st en c i)
  show ?case
  proof (cases "i < length (sp_asinfo s)")
    case False
    then show ?thesis by (subst find_containing_from.simps) (auto simp: as_hit_def)
  next
    case True
    note m = match_name_full [OF "1.prems" True, of c]
    show ?thesis
    proof (cases "as_hit s st en c i")
      case True
      then have "find_containing_from s st en c i = Inr (Some i)"
        using m by (subst find_containing_from.simps) (simp add: as_hit_def)
      with True show ?thesis by fastforce
    next
      case False
      then have eq: "find_containing_from s st en c i = find_containing_from s st en c (Suc i)"
        using m True by (subst find_containing_from.simps) (auto simp: as_hit_def)
      have "\<not> i \<ge> length (sp_asinfo s)" using True by simp
      moreover have "\<not> (in_container s i c \<and> as_overlap st en (sp_asinfo s ! i))"
        using False True by (simp add: as_hit_def)
      ultimately have "(\<exists>j. find_containing_from s st en c (Suc i) = Inr (Some j) \<and> Suc i \<le> j \<and> as_hit s st en c j \<and>
             (\<forall>k. Suc i \<le> k \<and> k < j \<longrightarrow> \<not> as_hit s st en c k)) \<or>
         (find_containing_from s st en c (Suc i) = Inr None \<and> (\<forall>k \<ge> Suc i. \<not> as_hit s st en c k))"
        using "1.IH" "1.prems" m by blast
      then show ?thesis
        using False unfolding eq by (metis Suc_leD Suc_leI le_neq_implies_less)
    qed
  qed
qed

lemma as_find_containing_hit:
  assumes "as_tree_ok s" and "as_find_containing off st en c s = Inr (Some j)"
  shows "as_hit s st en c j"
  using find_containing_from_spec [OF assms(1), of st en c] assms(2)
  unfolding as_find_containing_def by (metis Inr_inject option.distinct(1) option.inject)

subsection \<open>The pieces of as_add_containing\<close>

text \<open>
  A range of the list is good if it is empty, or lies inside the requested range and inside the
  range of its owner, which is a hit of the search.
\<close>

definition good_piece :: "lsp \<Rightarrow> u32 \<Rightarrow> u32 \<Rightarrow> string \<Rightarrow> as_range \<Rightarrow> bool" where
  "good_piece s st en c p \<longleftrightarrow> as_hit s st en c (rg_owner p) \<and>
     (rg_start p \<le> rg_end p \<longrightarrow>
        st \<le> rg_start p \<and> rg_end p \<le> en \<and>
        as_start (sp_asinfo s ! rg_owner p) \<le> ucast (rg_start p) \<and>
        ucast (rg_end p) \<le> as_end (sp_asinfo s ! rg_owner p))"

lemma unat_ucast_up [simp]: "unat (ucast x :: u64) = unat x" for x :: u32
  by (simp add: unsigned_ucast_eq take_bit_eq_mod less_le_trans [OF unsigned_less])

lemma ucast_le_ucast [simp]: "(ucast x :: u64) \<le> ucast y \<longleftrightarrow> x \<le> y" for x y :: u32
  by (simp add: word_le_nat_alt)

lemma ucast_less_ucast [simp]: "(ucast x :: u64) < ucast y \<longleftrightarrow> x < y" for x y :: u32
  by (simp add: word_less_nat_alt)

lemma ucast_ucast_low: "x \<le> ucast y \<Longrightarrow> (ucast (ucast x :: u32) :: u64) = x" for x :: u64 and y :: u32
proof -
  assume "x \<le> ucast y"
  then have "unat x \<le> unat y" by (simp add: word_le_nat_alt)
  then have "unat x < 2 ^ 32"
    using unsigned_less [of y, where 'a = nat] by simp
  then have "unat (ucast x :: u32) = unat x"
    by (simp only: unsigned_ucast_eq take_bit_eq_mod) simp
  then have "unat (ucast (ucast x :: u32) :: u64) = unat x" by simp
  then show ?thesis by (rule unsigned_word_eqI)
qed

lemma as_piece_good:
  assumes h: "as_hit s st en c w" and t: "as_tree_ok s" and le: "st \<le> en"
  shows "good_piece s st en c (as_piece st en w (sp_asinfo s ! w))"
    and "rg_start (as_piece st en w (sp_asinfo s ! w)) \<le> rg_end (as_piece st en w (sp_asinfo s ! w))"
proof -
  let ?a = "sp_asinfo s ! w"
  have w: "w < length (sp_asinfo s)" and o: "ucast st \<le> as_end ?a" "as_start ?a \<le> ucast en"
    and r: "as_start ?a \<le> as_end ?a"
    using h t le by (auto simp: as_hit_def as_tree_ok_def as_overlap_iff)
  let ?p = "as_piece st en w ?a"
  have s: "(ucast (rg_start ?p) :: u64) = (if as_start ?a > ucast st then as_start ?a else ucast st)"
    using ucast_ucast_low [OF o(2)] by (simp add: as_piece_def)
  have e: "(ucast (rg_end ?p) :: u64) = (if as_end ?a < ucast en then as_end ?a else ucast en)"
    using ucast_ucast_low [of "as_end ?a" en] by (simp add: as_piece_def)
  have "(ucast (rg_start ?p) :: u64) \<le> ucast (rg_end ?p)"
    using s e o r le by (auto split: if_splits)
  then show le': "rg_start ?p \<le> rg_end ?p" by simp
  have "(ucast st :: u64) \<le> ucast (rg_start ?p)" "(ucast (rg_end ?p) :: u64) \<le> ucast en"
    "as_start ?a \<le> ucast (rg_start ?p)" "ucast (rg_end ?p) \<le> as_end ?a"
    using s e by (auto split: if_splits)
  then show "good_piece s st en c ?p"
    using h by (simp add: good_piece_def as_piece_def)
qed

lemma good_pieceI_sub:
  assumes "good_piece s st en c q" and "rg_owner p = rg_owner q"
    and "rg_start p \<le> rg_end p \<Longrightarrow> rg_start q \<le> rg_start p \<and> rg_end p \<le> rg_end q"
  shows "good_piece s st en c p"
proof (cases "rg_start p \<le> rg_end p")
  case True
  with assms(3) have "rg_start q \<le> rg_start p" "rg_end p \<le> rg_end q" by auto
  moreover from this True have "rg_start q \<le> rg_end q" by simp
  moreover have "(ucast (rg_start q) :: u64) \<le> ucast (rg_start p)" "(ucast (rg_end p) :: u64) \<le> ucast (rg_end q)"
    using calculation by simp_all
  ultimately show ?thesis
    using assms(1,2) unfolding good_piece_def by (metis order.trans)
next
  case False
  with assms show ?thesis by (simp add: good_piece_def)
qed

lemma insert_piece_good:
  assumes "\<forall>q \<in> set l. good_piece s st en c q" and "good_piece s st en c p"
    and le: "rg_start p \<le> rg_end p" and en: "en \<noteq> - 1"
  shows "\<forall>q \<in> set (insert_piece p l). good_piece s st en c q"
  using assms(1)
proof (induction l)
  case Nil
  with assms(2) show ?case by simp
next
  case (Cons x l)
  have x: "good_piece s st en c x" and l: "\<forall>q \<in> set l. good_piece s st en c q"
    using Cons.prems by auto
  have pe: "rg_end p \<le> en" using assms(2) le by (simp add: good_piece_def)
  then have "rg_end p \<noteq> - 1" using en by (metis word_order.extremum_uniqueI)
  then have succ: "rg_end p < rg_end p + 1" by (rule word_less_succ)
  show ?case
  proof (cases "rg_start x \<le> rg_start p \<and> rg_end x \<ge> rg_start p")
    case False
    then show ?thesis using Cons.IH [OF l] x by auto
  next
    case True
    have same: "good_piece s st en c (x\<lparr>rg_owner := rg_owner p\<rparr>)"
      if "rg_start x = rg_start p" "rg_end x = rg_end p"
      by (rule good_pieceI_sub [OF assms(2)]) (use that in auto)
    have front: "good_piece s st en c (x\<lparr>rg_start := rg_end p + 1\<rparr>)" if "rg_start x = rg_start p"
      by (rule good_pieceI_sub [OF x]) (use that le succ in auto)
    have cut: "good_piece s st en c (x\<lparr>rg_end := rg_start p - 1\<rparr>)" if "rg_start x \<noteq> rg_start p"
    proof -
      have "rg_start x < rg_start p" using that True by (metis le_neq_trans)
      from word_pred_less [OF this] True show ?thesis
        by (intro good_pieceI_sub [OF x]) auto
    qed
    have tail: "good_piece s st en c \<lparr>rg_start = rg_end p + 1, rg_end = rg_end x, rg_owner = rg_owner x\<rparr>"
      by (rule good_pieceI_sub [OF x]) (use True le succ in auto)
    show ?thesis
      using True same front cut tail assms(2) l by (auto simp: Let_def)
  qed
qed

lemma collect_pieces_good:
  assumes "as_tree_ok s" and "st \<le> en" and "en \<noteq> - 1"
    and "\<forall>q \<in> set l. good_piece s st en c q" and "collect_pieces s st en c ow l = Inr l'"
  shows "\<forall>q \<in> set l'. good_piece s st en c q"
  using assms
proof (induction s st en c ow l rule: collect_pieces.induct)
  case (1 s st en c ow l)
  show ?case
  proof (cases "as_find_containing ow st en c s")
    case (Inl e)
    with "1.prems" show ?thesis by (simp add: collect_pieces.simps [of s st en c ow l])
  next
    case (Inr r)
    show ?thesis
    proof (cases r)
      case None
      with "1.prems" Inr show ?thesis by (simp add: collect_pieces.simps [of s st en c ow l])
    next
      case (Some w)
      have h: "as_hit s st en c w"
        using as_find_containing_hit [OF "1.prems"(1)] Inr Some by simp
      note p = as_piece_good [OF h "1.prems"(1,2)]
      have "\<forall>q \<in> set (insert_piece (as_piece st en w (sp_asinfo s ! w)) l). good_piece s st en c q"
        by (rule insert_piece_good [OF "1.prems"(4) p "1.prems"(3)])
      moreover have "collect_pieces s st en c (Some w)
          (insert_piece (as_piece st en w (sp_asinfo s ! w)) l) = Inr l'"
        using "1.prems"(5) Inr Some by (simp add: collect_pieces.simps [of s st en c ow l])
      ultimately show ?thesis
        using "1.IH" [OF Inr Some "1.prems"(1-3)] by blast
    qed
  qed
qed

subsection \<open>The section after as_add and as_add_containing\<close>

text \<open>
  The flags of \<open><sys/syspage.h>\<close> as the code relies on them: \<open>AS_ATTR_CONTINUED\<close> is a
  bit that fits the 16-bit attribute field and is not part of \<open>AS_OVERLAY_IO\<close>.
\<close>

definition abi_ok :: "as_abi \<Rightarrow> bool" where
  "abi_ok K \<longleftrightarrow> AS_ATTR_CONTINUED K \<noteq> 0 \<and> AS_ATTR_CONTINUED K AND 0xffff = AS_ATTR_CONTINUED K \<and>
     AS_ATTR_CONTINUED K AND AS_OVERLAY_IO K = 0"

definition as_view :: "asinfo_entry \<Rightarrow> u64 \<times> u64 \<times> nat option" where
  "as_view e = (as_start e, as_end e, as_owner e)"

definition piece_view :: "as_range \<Rightarrow> u64 \<times> u64 \<times> nat option" where
  "piece_view p = (ucast (rg_start p), ucast (rg_end p), Some (rg_owner p))"

lemma map_view_with_kids [simp]: "map as_view (with_kids K owner l) = map as_view l"
  by (rule nth_equalityI) (simp_all add: as_view_def)

lemma drop_with_kids: "w < n \<Longrightarrow> drop n (with_kids K (Some w) l) = drop n l"
  by (simp add: with_kids_def)

lemma add_pieces_effect:
  assumes "add_pieces K attr name ps off so s = Inr (off', so', s')"
    and a: "attr AND AS_OVERLAY_IO K = 0"
    and "\<forall>p \<in> set ps. rg_owner p < n0" and "n0 \<le> length (sp_asinfo s)"
  defines "new \<equiv> filter (\<lambda>p. rg_start p \<le> rg_end p) ps"
  shows "map as_view (sp_asinfo s') = map as_view (sp_asinfo s) @ map piece_view new \<and>
    map as_attr (drop n0 (sp_asinfo s')) =
      map as_attr (drop n0 (sp_asinfo s)) @ replicate (length new) (attr AND 0xffff) \<and>
    so' = (case so of None \<Rightarrow> if new = [] then None else Some (length (sp_asinfo s)) | Some x \<Rightarrow> Some x) \<and>
    off' = (if new = [] then off else length (sp_asinfo s) + length new - 1)"
  using assms(1,3,4) unfolding new_def
proof (induction ps arbitrary: off so s)
  case Nil
  then show ?case by (cases so) auto
next
  case (Cons p ps)
  show ?case
  proof (cases "rg_start p \<le> rg_end p")
    case False
    with Cons.IH [of off so s] Cons.prems show ?thesis by auto
  next
    case True
    then obtain off1 s1 where 1: "as_add K (rg_start p) (rg_end p) attr name (Some (rg_owner p)) s = Inr (off1, s1)"
      and 2: "add_pieces K attr name ps off1 (case so of None \<Rightarrow> Some off1 | Some x \<Rightarrow> Some x) s1 = Inr (off', so', s')"
      using Cons.prems(1) by (auto simp: bind_res_Inr_iff)
    have w: "rg_owner p < n0" using Cons.prems(2) by simp
    then have ow: "case Some (rg_owner p) of None \<Rightarrow> True | Some w \<Rightarrow> w < length (sp_asinfo s)"
      using Cons.prems(3) by simp
    note pl = as_add64_plain [OF 1 [unfolded as_add_def] a ow]
    obtain e where e: "sp_asinfo s1 = with_kids K (Some (rg_owner p)) (sp_asinfo s) @ [e]"
      "as_view e = piece_view p" "as_attr e = attr AND 0xffff"
      using pl(2) by (auto simp: as_view_def piece_view_def)
    have len: "length (sp_asinfo s1) = Suc (length (sp_asinfo s))" using e by simp
    have d: "drop n0 (sp_asinfo s1) = drop n0 (sp_asinfo s) @ [e]"
      using e(1) Cons.prems(3) w by (simp add: drop_with_kids)
    have v: "map as_view (sp_asinfo s1) = map as_view (sp_asinfo s) @ [piece_view p]"
      using e by simp
    have IH: "map as_view (sp_asinfo s') = map as_view (sp_asinfo s1) @ map piece_view [p\<leftarrow>ps. rg_start p \<le> rg_end p] \<and>
      map as_attr (drop n0 (sp_asinfo s')) =
        map as_attr (drop n0 (sp_asinfo s1)) @ replicate (length [p\<leftarrow>ps. rg_start p \<le> rg_end p]) (attr AND 0xffff) \<and>
      so' = (case (case so of None \<Rightarrow> Some off1 | Some x \<Rightarrow> Some x) of
         None \<Rightarrow> if [p\<leftarrow>ps. rg_start p \<le> rg_end p] = [] then None else Some (length (sp_asinfo s1)) | Some x \<Rightarrow> Some x) \<and>
      off' = (if [p\<leftarrow>ps. rg_start p \<le> rg_end p] = [] then off1
              else length (sp_asinfo s1) + length [p\<leftarrow>ps. rg_start p \<le> rg_end p] - 1)"
      by (rule Cons.IH [OF 2]) (use Cons.prems(2,3) len in auto)
    show ?thesis
      using IH True pl(1) len d v e(3) by (auto split: option.splits)
  qed
qed

definition chain_ok :: "as_abi \<Rightarrow> nat \<Rightarrow> lsp \<Rightarrow> bool" where
  "chain_ok K first s \<longleftrightarrow> first < length (sp_asinfo s) \<and>
     (\<forall>i. first \<le> i \<and> i < length (sp_asinfo s) \<longrightarrow>
        (as_attr (sp_asinfo s ! i) AND AS_ATTR_CONTINUED K \<noteq> 0 \<longleftrightarrow> Suc i < length (sp_asinfo s)))"

lemma continued_bit:
  assumes "abi_ok K"
  shows "(((attr AND NOT (AS_OVERLAY_IO K)) OR AS_ATTR_CONTINUED K) AND 0xffff) AND AS_ATTR_CONTINUED K
      = AS_ATTR_CONTINUED K"
    and "((attr AND NOT (AS_OVERLAY_IO K)) OR AS_ATTR_CONTINUED K) AND AS_OVERLAY_IO K = 0"
proof -
  have c: "bit (AS_ATTR_CONTINUED K) i \<Longrightarrow> bit (0xffff :: u32) i \<and> \<not> bit (AS_OVERLAY_IO K) i" for i
    using assms unfolding abi_ok_def by (metis bit_and_iff bit_0_eq bot_apply bot_bool_def)
  show "(((attr AND NOT (AS_OVERLAY_IO K)) OR AS_ATTR_CONTINUED K) AND 0xffff) AND AS_ATTR_CONTINUED K
      = AS_ATTR_CONTINUED K"
    by (rule bit_eqI) (auto simp: bit_and_iff bit_or_iff dest: c)
  show "((attr AND NOT (AS_OVERLAY_IO K)) OR AS_ATTR_CONTINUED K) AND AS_OVERLAY_IO K = 0"
    by (rule bit_eqI) (auto simp: bit_and_iff bit_or_iff bit_not_iff dest: c)
qed

lemma as_view_nth: "map as_view l = map as_view l' \<Longrightarrow> i < length l \<Longrightarrow>
    as_start (l ! i) = as_start (l' ! i) \<and> as_end (l ! i) = as_end (l' ! i) \<and> as_owner (l ! i) = as_owner (l' ! i)"
  by (metis (no_types, lifting) as_view_def length_map nth_map prod.inject)

lemma as_tree_okI:
  assumes "as_tree_ok s" and "map as_view (sp_asinfo s') = map as_view (sp_asinfo s) @ vs"
    and "\<forall>v \<in> set vs. fst v \<le> fst (snd v) \<and>
      (case snd (snd v) of None \<Rightarrow> True | Some w \<Rightarrow> w < length (sp_asinfo s))"
  shows "as_tree_ok s'"
proof -
  have len: "length (sp_asinfo s') = length (sp_asinfo s) + length vs"
    using arg_cong [OF assms(2), of length] by simp
  have *: "as_view (sp_asinfo s' ! i) = (map as_view (sp_asinfo s) @ vs) ! i" if "i < length (sp_asinfo s')" for i
    using assms(2) that by (metis nth_map)
  show ?thesis
    unfolding as_tree_ok_def
  proof (intro allI impI)
    fix i assume i: "i < length (sp_asinfo s')"
    let ?e = "sp_asinfo s' ! i"
    show "as_start ?e \<le> as_end ?e \<and> (case as_owner ?e of None \<Rightarrow> True | Some w \<Rightarrow> w < i)"
    proof (cases "i < length (sp_asinfo s)")
      case True
      then have "as_view ?e = as_view (sp_asinfo s ! i)" using * [OF i] by (simp add: nth_append)
      with assms(1) True show ?thesis by (auto simp: as_tree_ok_def as_view_def)
    next
      case False
      then have "as_view ?e \<in> set vs" using * [OF i] i len by (simp add: nth_append)
      with assms(3) False show ?thesis by (force simp: as_view_def split: option.splits)
    qed
  qed
qed

lemma as_add64_tree:
  assumes "as_add64 K st en attr name owner s = Inr (off, s')" and "attr AND AS_OVERLAY_IO K = 0"
    and "as_tree_ok s" and "st \<le> en" and "case owner of None \<Rightarrow> True | Some w \<Rightarrow> w < length (sp_asinfo s)"
  shows "as_tree_ok s'"
  using as_add64_plain(2) [OF assms(1,2,5)] assms(3-5)
  by (auto intro!: as_tree_okI [where s = s] simp: as_view_def)

lemma as_add_containing_pieces:
  assumes K: "abi_ok K" and t: "as_tree_ok s" and le: "st \<le> en" "en \<noteq> - 1"
    and a: "attr AND AS_OVERLAY_IO K = 0"
    and r: "as_add_containing K st en attr name c s = Inr (Some first, s')"
  shows "\<exists>ps. ps \<noteq> [] \<and> (\<forall>p \<in> set ps. rg_start p \<le> rg_end p \<and> good_piece s st en c p) \<and>
      first = length (sp_asinfo s) \<and>
      map as_view (sp_asinfo s') = map as_view (sp_asinfo s) @ map piece_view ps \<and>
      chain_ok K first s'"
proof -
  let ?pa = "(attr AND NOT (AS_OVERLAY_IO K)) OR AS_ATTR_CONTINUED K"
  let ?n = "length (sp_asinfo s)"
  obtain l off s1 where l: "collect_pieces s st en c None [] = Inr l"
    and p: "add_pieces K ?pa name l 0 None s = Inr (off, Some first, s1)"
    and s': "s' = as_update off (\<lambda>as. as\<lparr>as_attr := as_attr as AND NOT (AS_ATTR_CONTINUED K)\<rparr>) s1"
    using r a by (auto simp: as_add_containing_def bind_res_Inr_iff Let_def split: option.splits if_splits)
  have good: "\<forall>q \<in> set l. good_piece s st en c q"
    by (rule collect_pieces_good [OF t le _ l]) simp
  define ps where "ps = filter (\<lambda>p. rg_start p \<le> rg_end p) l"
  have "\<forall>q \<in> set l. rg_owner q < ?n" using good by (auto simp: good_piece_def as_hit_def)
  note e = add_pieces_effect [OF p continued_bit(2) [OF K] this order.refl, folded ps_def]
  have ne: "ps \<noteq> []" and fst: "first = ?n" and off: "off = ?n + length ps - 1"
    using e by (auto split: if_splits)
  have len1: "length (sp_asinfo s1) = ?n + length ps"
    using e by (metis length_append length_map)
  have len: "length (sp_asinfo s') = ?n + length ps"
    using len1 by (simp add: s' as_update_def)
  have v: "map as_view (sp_asinfo s') = map as_view (sp_asinfo s1)"
    by (rule nth_equalityI) (use len1 ne off in \<open>auto simp: s' as_update_def as_view_def nth_list_update\<close>)
  have at: "as_attr (sp_asinfo s1 ! i) = ?pa AND 0xffff" if i: "?n \<le> i" "i < ?n + length ps" for i
  proof -
    have "as_attr (sp_asinfo s1 ! i) = map as_attr (drop ?n (sp_asinfo s1)) ! (i - ?n)"
      using i len1 by simp
    also have "\<dots> = (map as_attr (drop ?n (sp_asinfo s)) @ replicate (length ps) (?pa AND 0xffff)) ! (i - ?n)"
      using e by simp
    finally show ?thesis using i by simp
  qed
  have ch: "chain_ok K first s'"
    unfolding chain_ok_def
  proof (intro conjI allI impI)
    show "first < length (sp_asinfo s')" using len ne fst by simp
    fix i assume i: "first \<le> i \<and> i < length (sp_asinfo s')"
    show "(as_attr (sp_asinfo s' ! i) AND AS_ATTR_CONTINUED K \<noteq> 0) = (Suc i < length (sp_asinfo s'))"
    proof (cases "i = off")
      case True
      with i len1 show ?thesis by (simp add: s' as_update_def off)
    next
      case False
      with i len have "as_attr (sp_asinfo s' ! i) = ?pa AND 0xffff"
        using at [of i] by (simp add: s' as_update_def fst)
      with continued_bit(1) [OF K] K False i len off show ?thesis
        by (auto simp: abi_ok_def fst)
    qed
  qed
  have "\<forall>p \<in> set ps. rg_start p \<le> rg_end p \<and> good_piece s st en c p"
    using good by (auto simp: ps_def)
  with ne fst ch v e show ?thesis by metis
qed


subsection \<open>Properties\<close>

text \<open>
  A concrete section: all of memory, a RAM range under it, and a device range.
\<close>

definition ex_abi :: as_abi where
  "ex_abi = \<lparr>AS_ATTR_KIDS = 0x10, AS_ATTR_CONTINUED = 0x20, AS_OVERLAY_IO = 0x80000000,
     AS_ATTR_RAM = 2, AS_PRIORITY_DEFAULT = 100, sizeof_asinfo_entry = 48\<rparr>"

definition ex_entry :: "u64 \<Rightarrow> u64 \<Rightarrow> nat option \<Rightarrow> nat \<Rightarrow> asinfo_entry" where
  "ex_entry st en ow nm = \<lparr>as_start = st, as_end = en, as_owner = ow, as_name = nm, as_attr = 0,
     as_priority = 100, as_checker = None\<rparr>"

definition ex_as :: lsp where
  "ex_as = ex_lsp\<lparr>sp_asinfo := [ex_entry 0 0xffffffff None 0, ex_entry 0x1000 0x1fff (Some 0) 7,
     ex_entry 0x3000 0x3fff (Some 0) 7]\<rparr>"

lemma ex_abi_ok: "abi_ok ex_abi"
  by (simp add: abi_ok_def ex_abi_def)

lemma ex_as_tree: "as_tree_ok ex_as"
  by (auto simp: as_tree_ok_def ex_as_def ex_entry_def less_Suc_eq numeral_3_eq_3)



text \<open>C7: \<open>as_add_containing\<close> appends a chain of entries that starts at the offset it
  returns; each is non-empty, lies inside the requested range and inside the range of its owner,
  the owner is the container or has it among its owners and overlaps the request, and the
  entries are linked by \<open>AS_ATTR_CONTINUED\<close> up to the last one. The tree of owners stays
  well formed. (For requests that end below the top of the 32-bit address space.)\<close>

theorem as_add_containing_chain:
  assumes "abi_ok K" and "as_tree_ok s" and "st \<le> en" "en \<noteq> - 1" and "attr AND AS_OVERLAY_IO K = 0"
    and r: "as_add_containing K st en attr name c s = Inr (Some first, s')"
  shows "first = length (sp_asinfo s) \<and> chain_ok K first s' \<and> as_tree_ok s' \<and>
    (\<forall>i. first \<le> i \<and> i < length (sp_asinfo s') \<longrightarrow>
      (let e = sp_asinfo s' ! i
       in ucast st \<le> as_start e \<and> as_start e \<le> as_end e \<and> as_end e \<le> ucast en \<and>
          (\<exists>w. as_owner e = Some w \<and> as_hit s st en c w \<and>
             as_start (sp_asinfo s ! w) \<le> as_start e \<and> as_end e \<le> as_end (sp_asinfo s ! w))))"
proof -
  obtain ps where ne: "ps \<noteq> []"
    and good: "\<And>p. p \<in> set ps \<Longrightarrow> rg_start p \<le> rg_end p \<and> good_piece s st en c p"
    and fst: "first = length (sp_asinfo s)" and ch: "chain_ok K first s'"
    and v: "map as_view (sp_asinfo s') = map as_view (sp_asinfo s) @ map piece_view ps"
    using as_add_containing_pieces [OF assms] by blast
  have len: "length (sp_asinfo s') = length (sp_asinfo s) + length ps"
    using v by (metis length_append length_map)
  have "as_tree_ok s'"
    by (rule as_tree_okI [OF assms(2) v]) (use good in \<open>auto simp: piece_view_def good_piece_def as_hit_def\<close>)
  moreover have "\<exists>p \<in> set ps. as_view (sp_asinfo s' ! i) = piece_view p"
    if "first \<le> i" "i < length (sp_asinfo s')" for i
  proof -
    have "as_view (sp_asinfo s' ! i) = (map as_view (sp_asinfo s) @ map piece_view ps) ! i"
      using v that by (metis nth_map)
    then have "as_view (sp_asinfo s' ! i) = piece_view (ps ! (i - first))"
      using that len fst by (simp add: nth_append)
    with that len fst show ?thesis by (metis add.commute less_diff_conv2 nth_mem)
  qed
  ultimately show ?thesis
    using fst ch good
    by (fastforce simp: Let_def as_view_def piece_view_def good_piece_def)
qed

lemma as_add_containing_chain_witness:
  "\<exists>s'. as_add_containing ex_abi 0x1800 0x37ff 2 ''sysram'' ''ram'' ex_as = Inr (Some 3, s') \<and>
    chain_ok ex_abi 3 s' \<and> as_tree_ok s'"
proof -
  have "case as_add_containing ex_abi 0x1800 0x37ff 2 ''sysram'' ''ram'' ex_as of
      Inl e \<Rightarrow> False | Inr (r, s') \<Rightarrow> r = Some 3" by code_simp
  then obtain s' where r: "as_add_containing ex_abi 0x1800 0x37ff 2 ''sysram'' ''ram'' ex_as = Inr (Some 3, s')"
    by (auto split: sum.splits)
  have "(0x1800 :: u32) \<le> 0x37ff" "(0x37ff :: u32) \<noteq> - 1" "2 AND AS_OVERLAY_IO ex_abi = 0"
    by (simp_all add: ex_abi_def)
  from as_add_containing_chain [OF ex_abi_ok ex_as_tree this r] r show ?thesis by blast
qed



end
