(* ===== verification/Ram.thy ===== *)
theory Ram
  imports AddrSpace
begin

section \<open>The boot-time RAM allocator\<close>

text \<open>
  \<open>startup/lib/ram.c\<close>: the list of free RAM ranges (sorted, merged when they touch), the
  list of ranges to stay out of while the system page is built, the search for a free range and
  its allocation. \<open>paddr_t\<close> and \<open>paddr32_t\<close> are 32-bit words, as in the
  \<open>le.v7\<close> build; the fields of a \<open>ram_entry\<close> are 64-bit (\<open>paddr64_t\<close>). The lists
  are kept without the entry of size zero (end zero for the avoid list) that ends them in memory;
  \<open>ram_list_size\<close> counts it.
\<close>

record ram_entry =
  r_addr :: u64
  r_size :: u64

record avoid_entry =
  av_start :: u32
  av_end :: u32

definition MAX_RAM_LIST_SIZE :: nat where
  "MAX_RAM_LIST_SIZE = KILO 3"

definition MAX_AVOID_LIST_SIZE :: nat where
  "MAX_AVOID_LIST_SIZE = KILO 1"

definition sizeof_ram_entry :: nat where
  "sizeof_ram_entry = 16"

definition ram_list_size :: "ram_entry list \<Rightarrow> nat" where
  "ram_list_size l = sizeof_ram_entry * (length l + 1)"

subsection \<open>add_mem\<close>

text \<open>
  The merging loop of \<open>add_mem\<close>: \<open>prev\<close> is \<open>r[-1]\<close>; a range that starts at or before
  the end of its predecessor is merged into it.
\<close>

fun coalesce :: "ram_entry \<Rightarrow> ram_entry list \<Rightarrow> ram_entry list" where
  "coalesce prev [] = [prev]"
| "coalesce prev (r # rs) =
     (let e = r_addr prev + r_size prev;
          s = r_addr r
      in if s \<le> e
         then let e1 = (if s + r_size r > e then s + r_size r else e)
              in coalesce (prev\<lparr>r_size := e1 - r_addr prev\<rparr>) rs
         else prev # coalesce r rs)"

fun coalesce_all :: "ram_entry list \<Rightarrow> ram_entry list" where
  "coalesce_all [] = []"
| "coalesce_all (r # rs) = coalesce r rs"

definition add_mem :: "u32 \<Rightarrow> u32 \<Rightarrow> ram_entry list \<Rightarrow> ram_entry list res" where
  "add_mem start sz ram =
     (if sz > 0 then
        if ram_list_size ram > MAX_RAM_LIST_SIZE - sizeof_ram_entry
        then Inl ''RAM entry array overflow''
        else let before = (\<lambda>r. \<not> r_addr r > ucast start);
                 new = \<lparr>r_addr = ucast start, r_size = ucast sz\<rparr>
             in Inr (coalesce_all (takeWhile before ram @ new # dropWhile before ram))
      else Inr ram)"

subsection \<open>fix_size and the searches\<close>

text \<open>
  \<open>fix_size\<close> shrinks the candidate range \<open>[s, e)\<close> to stay out of the avoid range
  \<open>[as, ae)\<close>; \<open>None\<close> is its result 0.
\<close>

definition fix_size :: "u64 \<Rightarrow> u64 \<Rightarrow> u32 \<Rightarrow> u32 \<Rightarrow> (u64 \<times> u64) option" where
  "fix_size s e as ae =
     (if s \<ge> ucast ae \<or> e \<le> ucast as then Some (s, e)
      else if s \<ge> ucast as
      then (if e \<le> ucast ae then None else Some (ucast ae, e))
      else if e < ucast ae then Some (s, ucast as)
      else if ucast as - s > e - ucast ae then Some (s, ucast as)
      else Some (ucast ae, e))"

fun avoid_all :: "u64 \<Rightarrow> u64 \<Rightarrow> avoid_entry list \<Rightarrow> (u64 \<times> u64) option" where
  "avoid_all s e [] = Some (s, e)"
| "avoid_all s e (a # avs) =
     (if av_end a = 0 then Some (s, e)
      else case fix_size s e (av_start a) (av_end a) of
             None \<Rightarrow> None
           | Some (s1, e1) \<Rightarrow> avoid_all s1 e1 avs)"

fun find_top_loop :: "u32 \<Rightarrow> u32 \<Rightarrow> avoid_entry list \<Rightarrow> ram_entry list \<Rightarrow> u32 \<Rightarrow> u32" where
  "find_top_loop sz align avs [] best = best"
| "find_top_loop sz align avs (r # rs) best =
     (case avoid_all (r_addr r) (r_addr r + r_size r) avs of
        None \<Rightarrow> find_top_loop sz align avs rs best
      | Some (s, e) \<Rightarrow>
          if e - s \<ge> ucast sz
          then let chk = (if align \<noteq> 0 then TRUNC (ucast (e - ucast sz)) align else ucast (e - ucast sz))
               in find_top_loop sz align avs rs (if ucast chk \<ge> s \<and> chk > best then chk else best)
          else find_top_loop sz align avs rs best)"

definition NULL_PADDR :: u32 where
  "NULL_PADDR = NOT 0"

definition MAX_PADDR32 :: u32 where
  "MAX_PADDR32 = 0xffffffff"

definition find_top_ram_aligned :: "u32 \<Rightarrow> u32 \<Rightarrow> u32 \<Rightarrow> avoid_entry list \<Rightarrow> ram_entry list \<Rightarrow> u32" where
  "find_top_ram_aligned sz align pagesize avs ram =
     (let best = find_top_loop (ROUND sz pagesize) align avs ram 0
      in if best = 0 then NULL_PADDR else best)"

definition find_top_ram :: "u32 \<Rightarrow> u32 \<Rightarrow> avoid_entry list \<Rightarrow> ram_entry list \<Rightarrow> u32" where
  "find_top_ram pagesize sz avs ram = find_top_ram_aligned sz 0 pagesize avs ram"

text \<open>The address tried in one range, with alignment, colour and range start applied.\<close>

definition colour_addr :: "u64 \<Rightarrow> u32 \<Rightarrow> u32 \<Rightarrow> u32 \<Rightarrow> u32 \<Rightarrow> u32" where
  "colour_addr s align colour mk range_start =
     (let addr = ROUND (ucast s) align;
          addr1 = (if addr AND mk \<noteq> colour
                   then let incr = ((mk - 1) OR mk) + 1
                        in ((addr + incr) AND NOT mk) OR colour
                   else addr)
      in if range_start \<noteq> 0 \<and> addr1 < range_start then range_start else addr1)"

fun find_ram_in_range ::
  "u32 \<Rightarrow> u32 \<Rightarrow> u32 \<Rightarrow> u32 \<Rightarrow> u32 \<Rightarrow> u32 \<Rightarrow> avoid_entry list \<Rightarrow> ram_entry list \<Rightarrow> u32" where
  "find_ram_in_range range_start range_end sz align colour mk avs [] = NULL_PADDR"
| "find_ram_in_range range_start range_end sz align colour mk avs (r # rs) =
     (case avoid_all (r_addr r) (r_addr r + r_size r) avs of
        None \<Rightarrow> find_ram_in_range range_start range_end sz align colour mk avs rs
      | Some (s, e) \<Rightarrow>
          let addr = colour_addr s align colour mk range_start;
              e1 = (if range_end \<noteq> 0 \<and> e > ucast range_end then ucast range_end else e)
          in if ucast addr \<ge> e1 then find_ram_in_range range_start range_end sz align colour mk avs rs
             else if ucast sz \<le> e1 - ucast addr then addr
             else find_ram_in_range range_start range_end sz align colour mk avs rs)"

definition find_ram :: "u32 \<Rightarrow> u32 \<Rightarrow> u32 \<Rightarrow> u32 \<Rightarrow> avoid_entry list \<Rightarrow> ram_entry list \<Rightarrow> u32" where
  "find_ram sz align colour mk avs ram =
     (let result = find_ram_in_range 0 MAX_PADDR32 sz align colour mk avs ram
      in if result = NULL_PADDR then NULL_PADDR else result)"

subsection \<open>alloc_ram\<close>

text \<open>
  The first loop of \<open>alloc_ram\<close> cuts \<open>[addr, end)\<close> out of the ranges from index \<open>i\<close> on.
  A removed entry leaves the index where it is; a split entry is re-entered through
  \<open>add_mem\<close>, so the loop sees its second half again. Each range is visited at most twice:
  fuel of twice the number of ranges plus one is enough (\<open>alloc_loop_cut\<close>).
\<close>

definition alloc_step :: "u64 \<Rightarrow> u64 \<Rightarrow> nat \<Rightarrow> ram_entry list \<Rightarrow> (nat \<times> ram_entry list) res" where
  "alloc_step addr end i ram =
     (let r = ram ! i; s = r_addr r; e = s + r_size r
      in if (addr \<le> s \<and> end > s) \<or> (addr \<ge> s \<and> addr < e) \<or> (end \<ge> s \<and> end < e)
         then
           let e1 = (if end > e then end else e);
               s1 = (if addr < s then addr else s)
           in if addr = s1 \<and> end = e1
              then Inr (i, take i ram @ drop (Suc i) ram)
              else if addr = s1
              then Inr (Suc i, ram[i := \<lparr>r_addr = end, r_size = e1 - end\<rparr>])
              else let ram1 = ram[i := r\<lparr>r_size := addr - s1\<rparr>]
                   in if e1 \<noteq> end
                      then bind_res (add_mem (ucast end) (ucast (e1 - end)) ram1) (\<lambda>ram2. Inr (Suc i, ram2))
                      else Inr (Suc i, ram1)
         else Inr (Suc i, ram))"

primrec alloc_loop :: "nat \<Rightarrow> u64 \<Rightarrow> u64 \<Rightarrow> nat \<Rightarrow> ram_entry list \<Rightarrow> ram_entry list res" where
  "alloc_loop 0 addr end i ram = undef"
| "alloc_loop (Suc fuel) addr end i ram =
     (if i \<ge> length ram then Inr ram
      else bind_res (alloc_step addr end i ram) (\<lambda>(i1, ram1). alloc_loop fuel addr end i1 ram1))"

text \<open>
  The second loop adjusts the ``sysram'' entries of the address space section. A hit is either
  trimmed or cut in two, and its rest starts behind \<open>end\<close>, so the search does not hit it
  again; the number of entries plus one bounds the rounds.
\<close>

definition sysram_step :: "as_abi \<Rightarrow> u64 \<Rightarrow> u64 \<Rightarrow> nat \<Rightarrow> lsp \<Rightarrow> lsp res" where
  "sysram_step K addr end w s =
     (let as = sp_asinfo s ! w;
          e1 = (if end > as_end as then end else as_end as);
          s1 = (if addr < as_start as then addr else as_start as)
      in if addr = s1 \<and> end = e1 then Inl ''Can't remove whole sysram entry''
         else if addr = s1
         then Inr (as_update w (\<lambda>a. a\<lparr>as_start := end + 1\<rparr>) s)
         else let s2 = as_update w (\<lambda>a. a\<lparr>as_end := addr - 1\<rparr>) s
              in if e1 \<noteq> end
                 then bind_res (as_add K (ucast (end + 1)) (ucast e1) (AS_ATTR_RAM K) ''sysram'' (as_owner as) s2)
                        (\<lambda>(_, s3). Inr s3)
                 else Inr s2)"

primrec sysram_loop :: "nat \<Rightarrow> as_abi \<Rightarrow> u64 \<Rightarrow> u64 \<Rightarrow> nat option \<Rightarrow> lsp \<Rightarrow> lsp res" where
  "sysram_loop 0 K addr end off s = undef"
| "sysram_loop (Suc fuel) K addr end off s =
     bind_res (as_find_containing off (ucast addr) (ucast end) ''sysram'' s) (\<lambda>found.
       case found of
         None \<Rightarrow> Inr s
       | Some w \<Rightarrow> bind_res (sysram_step K addr end w s) (\<lambda>s1. sysram_loop fuel K addr end (Some w) s1))"

text \<open>
  The allocator's static variables, with the system page. Watchers are functions of the board
  code: the calls made to them are recorded in order. A memory block is its address;
  \<open>rs_mem\<close> is the physical memory, which \<open>calloc_ram\<close> clears.
\<close>

record ram_state =
  ram_list :: "ram_entry list"
  avoid_list :: "avoid_entry list option"
  ws_early_next :: u32
  temp_syspage :: u32
  sysram_added :: bool
  watch_list :: "nat list"
  watch_calls :: "(nat \<times> u32 \<times> u32) list"
  rs_mem :: "u32 \<Rightarrow> u8"
  rs_lsp :: lsp

text \<open>The fields of the startup header that the allocator reads (\<open><sys/startup.h>\<close>).\<close>

record startup_header =
  sh_ram_paddr :: u32
  sh_ram_size :: u32
  sh_startup_size :: u32

definition avoids :: "ram_state \<Rightarrow> avoid_entry list" where
  "avoids st = (case avoid_list st of None \<Rightarrow> [] | Some l \<Rightarrow> l)"

definition alloc_ram :: "as_abi \<Rightarrow> u32 \<Rightarrow> u32 \<Rightarrow> u32 \<Rightarrow> ram_state \<Rightarrow> (u32 \<times> ram_state) res" where
  "alloc_ram K addr0 sz align st =
     (let addr = (if addr0 = NULL_PADDR then find_ram sz align 0 0 (avoids st) (ram_list st) else addr0)
      in if addr0 = NULL_PADDR \<and> addr = NULL_PADDR then Inr (NULL_PADDR, st)
         else
           let end = ucast (addr + sz)
           in bind_res (alloc_loop (2 * length (ram_list st) + 1) (ucast addr) end 0 (ram_list st)) (\<lambda>ram.
              let st1 = st\<lparr>ram_list := ram\<rparr>
              in if sysram_added st1
                 then bind_res (sysram_loop (length (sp_asinfo (rs_lsp st1)) + 1) K (ucast addr) (end - 1) None (rs_lsp st1))
                        (\<lambda>s. Inr (addr, st1\<lparr>rs_lsp := s\<rparr>))
                 else Inr (addr, st1)))"

definition calloc_ram :: "as_abi \<Rightarrow> u32 \<Rightarrow> u32 \<Rightarrow> ram_state \<Rightarrow> (u32 \<times> ram_state) res" where
  "calloc_ram K sz align st =
     bind_res (alloc_ram K NULL_PADDR sz align st) (\<lambda>(a, st1).
       if a \<noteq> NULL_PADDR
       then Inr (a, st1\<lparr>rs_mem := (\<lambda>p. if p - a < sz then 0 else rs_mem st1 p)\<rparr>)
       else Inr (a, st1))"

subsection \<open>The work space and the avoid list\<close>

text \<open>
  \<open>avoid_ram\<close> and \<open>ws_alloc\<close> call \<open>ws_init\<close> while there is no avoid list, and
  \<open>ws_init\<close> calls both once it has made one: \<open>avoid_push\<close> and \<open>ws_take\<close> are the
  parts of the two behind that test. The list is a block of \<open>MAX_AVOID_LIST_SIZE\<close> bytes and
  \<open>avoid_push\<close> writes one entry and the terminator behind it without looking at that size;
  a write past the block is the error value here.
\<close>

definition avoid_push :: "u32 \<Rightarrow> u32 \<Rightarrow> ram_state \<Rightarrow> ram_state res" where
  "avoid_push start sz st =
     (if 8 * (length (avoids st) + 2) > MAX_AVOID_LIST_SIZE then Inl ''avoid list overrun''
      else Inr (st\<lparr>avoid_list := Some (avoids st @ [\<lparr>av_start = start, av_end = start + sz\<rparr>])\<rparr>))"

definition ws_take :: "u32 \<Rightarrow> ram_state \<Rightarrow> (u32 option \<times> ram_state) res" where
  "ws_take sz0 st =
     (let sz = ROUND sz0 8
      in if ram_list_size (ram_list st) \<le> sizeof_ram_entry
         then let paddr = ws_early_next st
              in bind_res (avoid_push paddr sz (st\<lparr>ws_early_next := paddr + sz\<rparr>)) (\<lambda>st1. Inr (Some paddr, st1))
         else let paddr = find_ram sz 8 0 0 (avoids st) (ram_list st)
              in if paddr = NULL_PADDR then Inr (None, st)
                 else bind_res (avoid_push paddr sz st) (\<lambda>st1. Inr (Some paddr, st1)))"

definition ws_init :: "startup_header \<Rightarrow> ram_state \<Rightarrow> ram_state res" where
  "ws_init shdr st =
     (let early = ROUND (sh_ram_paddr shdr + sh_ram_size shdr) 8;
          early1 = early + ROUND (of_nat MAX_AVOID_LIST_SIZE) 8;
          st1 = st\<lparr>avoid_list := Some [\<lparr>av_start = early, av_end = early1\<rparr>], ws_early_next := early1\<rparr>
      in bind_res (ws_take (of_nat MAX_RAM_LIST_SIZE) st1) (\<lambda>(_, st2).
         avoid_push (sh_ram_paddr shdr) (sh_startup_size shdr) (st2\<lparr>ram_list := []\<rparr>)))"

definition ensure_ws :: "startup_header \<Rightarrow> ram_state \<Rightarrow> ram_state res" where
  "ensure_ws shdr st = (if avoid_list st = None then ws_init shdr st else Inr st)"

definition avoid_ram :: "startup_header \<Rightarrow> u32 \<Rightarrow> u32 \<Rightarrow> ram_state \<Rightarrow> ram_state res" where
  "avoid_ram shdr start sz st = bind_res (ensure_ws shdr st) (\<lambda>st1. avoid_push start sz st1)"

definition ws_alloc :: "startup_header \<Rightarrow> u32 \<Rightarrow> ram_state \<Rightarrow> (u32 option \<times> ram_state) res" where
  "ws_alloc shdr sz st = bind_res (ensure_ws shdr st) (\<lambda>st1. ws_take sz st1)"

text \<open>A watcher's list node takes eight bytes (two 32-bit pointers).\<close>

definition watch_add_ram :: "startup_header \<Rightarrow> nat \<Rightarrow> ram_state \<Rightarrow> ram_state res" where
  "watch_add_ram shdr func st =
     bind_res (ws_alloc shdr 8 st) (\<lambda>(p, st1).
       case p of None \<Rightarrow> Inl ''No memory for watcher''
       | Some _ \<Rightarrow> Inr (st1\<lparr>watch_list := func # watch_list st1\<rparr>))"

definition call_watchers :: "u32 \<Rightarrow> u32 \<Rightarrow> ram_state \<Rightarrow> ram_state" where
  "call_watchers start sz st =
     st\<lparr>watch_calls := watch_calls st @ map (\<lambda>w. (w, start, sz)) (watch_list st)\<rparr>"

subsection \<open>Adding RAM\<close>

text \<open>
  \<open>as_default\<close> is the ARM version; \<open>paddr_bits\<close> is 32 on the board. \<open>init_asinfo\<close> of
  the board is empty. Moving the system page to \<open>temp_syspage\<close> changes here only the
  maximum size it may grow to; its contents stay.
\<close>

definition as_default :: "as_abi \<Rightarrow> nat \<Rightarrow> lsp \<Rightarrow> (nat \<times> lsp) res" where
  "as_default K paddr_bits s = as_add K 0 (ucast (2 ^ paddr_bits - 1 :: u64)) 0 ''memory'' None s"

definition init_asinfo :: "nat \<Rightarrow> lsp \<Rightarrow> lsp" where
  "init_asinfo mem s = s"

definition TEMP_SYSPAGE_SIZE :: u32 where
  "TEMP_SYSPAGE_SIZE = ROUND (of_nat (KILO 32)) 4096"

definition add_default_as :: "as_abi \<Rightarrow> ram_state \<Rightarrow> ram_state res" where
  "add_default_as K st =
     (if sp_asinfo (rs_lsp st) = []
      then bind_res (as_default K 32 (rs_lsp st)) (\<lambda>(mem, s1).
           bind_res (as_add K 0 0xffffffff 0 ''below4G'' (Some mem) s1) (\<lambda>(_, s2).
           Inr (st\<lparr>rs_lsp := init_asinfo mem s2\<rparr>)))
      else Inr st)"

definition place_temp_syspage :: "startup_header \<Rightarrow> ram_state \<Rightarrow> ram_state res" where
  "place_temp_syspage shdr st =
     (if temp_syspage st = NULL_PADDR
      then let p = find_ram TEMP_SYSPAGE_SIZE 4096 0 0 (avoids st) (ram_list st);
               st1 = st\<lparr>temp_syspage := p\<rparr>
           in if p \<noteq> NULL_PADDR
              then bind_res (avoid_ram shdr p TEMP_SYSPAGE_SIZE st1) (\<lambda>st2.
                   Inr (st2\<lparr>rs_lsp := (rs_lsp st2)\<lparr>sp_max_size := TEMP_SYSPAGE_SIZE\<rparr>\<rparr>))
              else Inr st1
      else Inr st)"

definition add_ram :: "as_abi \<Rightarrow> startup_header \<Rightarrow> u32 \<Rightarrow> u32 \<Rightarrow> ram_state \<Rightarrow> ram_state res" where
  "add_ram K shdr start sz st =
     bind_res (add_default_as K st) (\<lambda>st1.
     bind_res (as_add_containing K start (start + sz - 1) (AS_ATTR_RAM K) ''ram'' ''memory'' (rs_lsp st1)) (\<lambda>(_, s).
     bind_res (add_mem start sz (ram_list st1)) (\<lambda>ram.
     bind_res (alloc_ram K (sh_ram_paddr shdr + sh_startup_size shdr) (sh_ram_size shdr - sh_startup_size shdr) 1
         (st1\<lparr>rs_lsp := s, ram_list := ram\<rparr>)) (\<lambda>(_, st2).
     bind_res (place_temp_syspage shdr st2) (\<lambda>st3. Inr (call_watchers start sz st3))))))"

fun add_sysram_ranges :: "as_abi \<Rightarrow> ram_entry list \<Rightarrow> lsp \<Rightarrow> lsp res" where
  "add_sysram_ranges K [] s = Inr s"
| "add_sysram_ranges K (r # rs) s =
     bind_res (as_add_containing K (ucast (r_addr r)) (ucast (r_addr r + r_size r - 1)) (AS_ATTR_RAM K)
         ''sysram'' ''ram'' s) (\<lambda>(_, s1). add_sysram_ranges K rs s1)"

definition add_sysram :: "as_abi \<Rightarrow> ram_state \<Rightarrow> ram_state res" where
  "add_sysram K st =
     (let st1 = call_watchers 0 0 st
      in bind_res (add_sysram_ranges K (ram_list st1) (rs_lsp st1)) (\<lambda>s.
         Inr (st1\<lparr>rs_lsp := s, sysram_added := True\<rparr>)))"

definition reserve_ram :: "as_abi \<Rightarrow> u32 \<Rightarrow> u32 \<Rightarrow> u32 \<Rightarrow> ram_state \<Rightarrow> ram_state res" where
  "reserve_ram K sz align pagesize st =
     (if sz = 0 then Inr st
      else let al = (if align \<noteq> 0 then align else pagesize);
               reserved = find_top_ram_aligned sz al pagesize (avoids st) (ram_list st)
           in if reserved = NULL_PADDR then Inl ''Could not reserve bytes of memory''
              else bind_res (alloc_ram K reserved sz al st) (\<lambda>(_, st1).
                   bind_res (as_add_containing K reserved (reserved + sz - 1) (AS_ATTR_RAM K) ''reserved'' ''ram''
                       (rs_lsp st1)) (\<lambda>(_, s). Inr (st1\<lparr>rs_lsp := s\<rparr>))))"

end
