(* ===== verification/RamSpec.thy ===== *)
theory RamSpec
  imports Ram
begin

section \<open>What the RAM allocator promises\<close>

text \<open>
  The list of \<open>ram.c\<close> stands for a set of byte addresses (\<open>covered\<close>). \<open>ram_ok\<close> is its
  normal form: non-empty ranges, sorted, with a gap between neighbours. \<open>add_mem\<close> is union
  and the first loop of \<open>alloc_ram\<close> is difference on that set, and both keep the normal form;
  the searches return blocks inside it and outside every avoid range.
\<close>

definition r_lo :: "ram_entry \<Rightarrow> nat" where
  "r_lo r = unat (r_addr r)"

definition r_hi :: "ram_entry \<Rightarrow> nat" where
  "r_hi r = unat (r_addr r) + unat (r_size r)"

definition r_ok :: "ram_entry \<Rightarrow> bool" where
  "r_ok r \<longleftrightarrow> r_lo r < r_hi r \<and> r_hi r \<le> 2 ^ 32"

definition ram_ok :: "ram_entry list \<Rightarrow> bool" where
  "ram_ok l \<longleftrightarrow> (\<forall>r \<in> set l. r_ok r) \<and> sorted_wrt (\<lambda>a b. r_hi a < r_lo b) l"

definition covered :: "ram_entry list \<Rightarrow> nat set" where
  "covered l = (\<Union>r \<in> set l. {r_lo r ..< r_hi r})"

lemma ram_ok_simps [simp]:
  "ram_ok []"
  "ram_ok (r # l) \<longleftrightarrow> r_ok r \<and> (\<forall>b \<in> set l. r_hi r < r_lo b) \<and> ram_ok l"
  "ram_ok (l @ l') \<longleftrightarrow> ram_ok l \<and> ram_ok l' \<and> (\<forall>a \<in> set l. \<forall>b \<in> set l'. r_hi a < r_lo b)"
  by (auto simp: ram_ok_def sorted_wrt_append)

lemma covered_simps [simp]:
  "covered [] = {}"
  "covered (r # l) = {r_lo r ..< r_hi r} \<union> covered l"
  "covered (l @ l') = covered l \<union> covered l'"
  by (auto simp: covered_def)

lemma unat_r_end: "r_ok r \<Longrightarrow> unat (r_addr r + r_size r) = r_hi r"
  by (simp add: r_ok_def r_hi_def unat_word_ariths)

lemma unat_u32_bound: "unat (x :: u32) < 2 ^ 32"
  using unsigned_less [of x, where 'a = nat] by simp

lemma unat_ucast_64 [simp]: "unat (ucast (x :: u32) :: u64) = unat x"
  by (rule unat_ucast_up)

lemma unat_ucast_low: "unat x < 2 ^ 32 \<Longrightarrow> unat (ucast (x :: u64) :: u32) = unat x"
  by (simp only: unsigned_ucast_eq take_bit_eq_mod) simp

subsection \<open>add_mem\<close>

lemma coalesce_spec:
  assumes "\<forall>r \<in> set (prev # rs). r_ok r" and "sorted_wrt (\<lambda>a b. r_lo a \<le> r_lo b) (prev # rs)"
  shows "ram_ok (coalesce prev rs) \<and> covered (coalesce prev rs) = covered (prev # rs) \<and>
    (\<forall>r \<in> set (coalesce prev rs). r_lo prev \<le> r_lo r)"
  using assms
proof (induction prev rs rule: coalesce.induct)
  case (1 prev)
  then show ?case by simp
next
  case (2 prev r rs)
  have ok: "r_ok prev" "r_ok r" using "2.prems"(1) by simp_all
  have le: "r_lo prev \<le> r_lo r" using "2.prems"(2) by simp
  let ?e = "r_addr prev + r_size prev"
  let ?e1 = "if r_addr r + r_size r > ?e then r_addr r + r_size r else ?e"
  have e: "unat ?e = r_hi prev" "unat (r_addr r + r_size r) = r_hi r"
    using ok by (simp_all add: unat_r_end)
  show ?case
  proof (cases "r_addr r \<le> ?e")
    case True
    let ?p = "prev\<lparr>r_size := ?e1 - r_addr prev\<rparr>"
    have le1: "r_lo r \<le> r_hi prev" using True e by (simp add: word_le_nat_alt r_lo_def)
    have e1: "unat ?e1 = max (r_hi prev) (r_hi r)" using e by (auto simp: word_less_nat_alt max_def)
    then have "r_addr prev \<le> ?e1"
      using ok by (simp add: word_le_nat_alt r_ok_def r_lo_def le_max_iff_disj del: if_split)
    then have "unat (?e1 - r_addr prev) = max (r_hi prev) (r_hi r) - r_lo prev"
      using e1 by (simp add: unat_sub r_lo_def del: if_split)
    then have p: "r_lo ?p = r_lo prev" "r_hi ?p = max (r_hi prev) (r_hi r)"
      using ok by (simp_all add: r_lo_def r_hi_def r_ok_def del: if_split)
    have "r_ok ?p" using ok p by (auto simp: r_ok_def)
    moreover have "sorted_wrt (\<lambda>a b. r_lo a \<le> r_lo b) (?p # rs)"
      using "2.prems"(2) p(1) by (auto intro: order_trans [OF le])
    ultimately have "ram_ok (coalesce ?p rs) \<and> covered (coalesce ?p rs) = covered (?p # rs) \<and>
        (\<forall>r \<in> set (coalesce ?p rs). r_lo ?p \<le> r_lo r)"
      using "2.IH"(1) [OF refl refl True refl] "2.prems"(1) by simp
    moreover have "covered (?p # rs) = covered (prev # r # rs)"
      using p le le1 ok by (auto simp: r_ok_def)
    ultimately show ?thesis using True p(1) by (simp add: Let_def)
  next
    case False
    then have gap: "r_hi prev < r_lo r" using e by (simp add: word_le_nat_alt r_lo_def)
    have IH: "ram_ok (coalesce r rs) \<and> covered (coalesce r rs) = covered (r # rs) \<and>
        (\<forall>x \<in> set (coalesce r rs). r_lo r \<le> r_lo x)"
      using "2.IH"(2) [OF refl refl False] "2.prems" by simp
    with ok gap have "\<forall>x \<in> set (coalesce r rs). r_hi prev < r_lo x" by fastforce
    with IH False ok(1) le gap show ?thesis
      by (auto simp: Let_def dest: order_trans [OF le])
  qed
qed

lemma coalesce_id: "ram_ok (prev # rs) \<Longrightarrow> coalesce prev rs = prev # rs"
proof (induction rs arbitrary: prev)
  case Nil
  then show ?case by simp
next
  case (Cons r rs)
  then have "\<not> r_addr r \<le> r_addr prev + r_size prev"
    using unat_r_end [of prev] by (simp add: word_le_nat_alt r_lo_def)
  with Cons show ?case by (simp add: Let_def)
qed

lemma coalesce_all_id: "ram_ok l \<Longrightarrow> coalesce_all l = l"
  by (cases l) (simp_all add: coalesce_id)

lemma coalesce_all_spec:
  assumes "\<forall>r \<in> set l. r_ok r" and "sorted_wrt (\<lambda>a b. r_lo a \<le> r_lo b) l"
  shows "ram_ok (coalesce_all l) \<and> covered (coalesce_all l) = covered l"
  using assms coalesce_spec by (cases l) auto

definition ram_block :: "u32 \<Rightarrow> u32 \<Rightarrow> nat set" where
  "ram_block start sz = {unat start ..< unat start + unat sz}"

definition ram_room :: "nat \<Rightarrow> ram_entry list \<Rightarrow> bool" where
  "ram_room n l \<longleftrightarrow> length l + n \<le> MAX_RAM_LIST_SIZE div sizeof_ram_entry - 1"

lemma ram_room_eq: "ram_room n l \<longleftrightarrow> length l + n \<le> 191"
  by (simp add: ram_room_def MAX_RAM_LIST_SIZE_def sizeof_ram_entry_def KILO_def)

lemma add_mem_eq:
  assumes "ram_room 1 l" and "0 < sz"
  shows "add_mem start sz l = Inr (coalesce_all
    (takeWhile (\<lambda>r. \<not> r_addr r > ucast start) l @ \<lparr>r_addr = ucast start, r_size = ucast sz\<rparr> #
     dropWhile (\<lambda>r. \<not> r_addr r > ucast start) l))"
  using assms by (simp add: add_mem_def Let_def ram_room_eq ram_list_size_def sizeof_ram_entry_def MAX_RAM_LIST_SIZE_def KILO_def)

lemma ram_sorted: "ram_ok l \<Longrightarrow> sorted_wrt (\<lambda>a b. r_lo a \<le> r_lo b) l"
  by (induction l) (auto simp: r_ok_def intro: less_imp_le less_trans)

lemma new_entry:
  assumes "0 < sz" and "unat start + unat sz \<le> 2 ^ 32"
  defines "n \<equiv> \<lparr>r_addr = ucast start, r_size = ucast sz\<rparr>"
  shows "r_lo n = unat (start :: u32)" "r_hi n = unat start + unat (sz :: u32)" "r_ok n"
  using assms by (simp_all add: r_lo_def r_hi_def r_ok_def word_less_nat_alt)

lemma takeWhile_gap:
  assumes "\<forall>r \<in> set xs. P r" and "\<forall>r \<in> set ys. \<not> P r"
  shows "takeWhile P (xs @ ys) = xs" "dropWhile P (xs @ ys) = ys"
  using assms by (induction xs) (auto simp: takeWhile_eq_Nil_iff dropWhile_eq_self_iff)

text \<open>Adding a range that touches no other one inserts exactly that entry.\<close>

lemma add_mem_gap:
  assumes "ram_ok (xs @ ys)" and "ram_room 1 (xs @ ys)" and "0 < sz" and b: "unat start + unat sz \<le> 2 ^ 32"
    and xs: "\<forall>r \<in> set xs. r_hi r < unat start" and ys: "\<forall>r \<in> set ys. unat start + unat sz < r_lo r"
  shows "add_mem start sz (xs @ ys) = Inr (xs @ \<lparr>r_addr = ucast start, r_size = ucast sz\<rparr> # ys)"
proof -
  let ?P = "\<lambda>r. \<not> r_addr r > ucast start"
  have "\<forall>r \<in> set xs. ?P r" "\<forall>r \<in> set ys. \<not> ?P r"
    using xs ys assms(1) by (fastforce simp: word_less_nat_alt r_lo_def r_hi_def)+
  note tw = takeWhile_gap [OF this]
  have "ram_ok (xs @ \<lparr>r_addr = ucast start, r_size = ucast sz\<rparr> # ys)"
    using assms new_entry [OF assms(3) b] by auto
  from coalesce_all_id [OF this] show ?thesis
    using add_mem_eq [OF assms(2,3)] by (simp add: tw)
qed

lemma set_insert_at: "set (takeWhile P l @ x # dropWhile P l) = insert x (set l)"
  by (metis Un_insert_right list.simps(15) set_append takeWhile_dropWhile_id)

lemma add_mem_spec:
  assumes ok: "ram_ok l" and "ram_room 1 l" and "0 < sz" and "unat start + unat sz \<le> 2 ^ 32"
  shows "\<exists>l'. add_mem start sz l = Inr l' \<and> ram_ok l' \<and> covered l' = covered l \<union> ram_block start sz"
proof -
  let ?P = "\<lambda>r. \<not> r_addr r > ucast start"
  let ?n = "\<lparr>r_addr = ucast start, r_size = ucast sz\<rparr> :: ram_entry"
  let ?l = "takeWhile ?P l @ ?n # dropWhile ?P l"
  note n = new_entry [OF assms(3,4)]
  have set: "set ?l = insert ?n (set l)"
    by (rule set_insert_at)
  have "\<forall>r \<in> set ?l. r_ok r" using ok n(3) unfolding set by (auto simp: ram_ok_def)
  moreover have "sorted_wrt (\<lambda>a b. r_lo a \<le> r_lo b) ?l"
  proof -
    have s: "sorted_wrt (\<lambda>a b. r_lo a \<le> r_lo b) (takeWhile ?P l @ dropWhile ?P l)"
      using ram_sorted [OF ok] by simp
    have "\<forall>r \<in> set (takeWhile ?P l). r_lo r \<le> unat start"
      by (auto dest!: set_takeWhileD simp: not_less word_le_nat_alt r_lo_def)
    moreover have "\<forall>r \<in> set (dropWhile ?P l). unat start \<le> r_lo r"
    proof (cases "dropWhile ?P l")
      case (Cons r rs)
      then have "\<not> ?P r" by (metis dropWhile_eq_Cons_conv)
      moreover have "sorted_wrt (\<lambda>a b. r_lo a \<le> r_lo b) (r # rs)"
        using s Cons by (simp add: sorted_wrt_append)
      ultimately show ?thesis using Cons by (fastforce simp: word_less_nat_alt r_lo_def)
    next
      case Nil
      show ?thesis unfolding Nil by simp
    qed
    ultimately show ?thesis using s n(1)
      by (auto simp: sorted_wrt_append intro: le_trans [of _ "unat start"])
  qed
  ultimately have "ram_ok (coalesce_all ?l) \<and> covered (coalesce_all ?l) = covered ?l"
    by (rule coalesce_all_spec)
  moreover have "covered ?l = covered l \<union> ram_block start sz"
    unfolding covered_def set using n by (auto simp: ram_block_def)
  ultimately show ?thesis using add_mem_eq [OF assms(2,3)] by auto
qed

text \<open>Normal form: the list is determined by the set it covers.\<close>

lemma covered_Min:
  assumes "ram_ok (r # l)"
  shows "r_lo r \<in> covered (r # l)" "\<forall>p \<in> covered (r # l). r_lo r \<le> p" "r_hi r \<notin> covered (r # l)"
    "{r_lo r ..< r_hi r} \<subseteq> covered (r # l)" "covered l = covered (r # l) - {r_lo r ..< r_hi r}"
  using assms by (fastforce simp: covered_def r_ok_def)+

lemma ram_entry_eqI: "r_lo r = r_lo r' \<Longrightarrow> r_hi r = r_hi r' \<Longrightarrow> r = (r' :: ram_entry)"
  by (intro ram_entry.equality unsigned_word_eqI [where 'a = nat]) (auto simp: r_lo_def r_hi_def)

lemma ram_normal_form:
  "ram_ok l \<Longrightarrow> ram_ok l' \<Longrightarrow> covered l = covered l' \<Longrightarrow> l = l'"
proof (induction l arbitrary: l')
  case Nil
  then show ?case by (cases l') (auto simp: r_ok_def)
next
  case (Cons r l)
  then obtain r' k where l': "l' = r' # k" by (cases l') (auto simp: r_ok_def)
  note a = covered_Min [OF Cons.prems(1)] 
  have ok': "ram_ok (r' # k)" using Cons.prems l' by simp
  note b = covered_Min [OF ok']
  have eq: "covered (r # l) = covered (r' # k)" using Cons.prems l' by simp
  have lo: "r_lo r = r_lo r'" using a(1,2) b(1,2) eq by (metis order.antisym)
  have ne: "r_lo r < r_hi r" "r_lo r' < r_hi r'" using Cons.prems ok' by (auto simp: r_ok_def)
  have "r_hi r \<le> r_hi r'"
  proof (rule ccontr)
    assume "\<not> r_hi r \<le> r_hi r'"
    then have "r_hi r' \<in> {r_lo r ..< r_hi r}" using lo ne by simp
    with a(4) eq b(3) show False by blast
  qed
  moreover have "r_hi r' \<le> r_hi r"
  proof (rule ccontr)
    assume "\<not> r_hi r' \<le> r_hi r"
    then have "r_hi r \<in> {r_lo r' ..< r_hi r'}" using lo ne by simp
    with b(4) eq a(3) show False by blast
  qed
  ultimately have hi: "r_hi r = r_hi r'" by simp
  have "r = r'" using lo hi by (rule ram_entry_eqI)
  moreover have "l = k"
  proof (rule Cons.IH)
    show "covered l = covered k" unfolding a(5) b(5) eq lo hi ..
  qed (use Cons.prems(1) ok' in simp_all)
  ultimately show ?case by (simp add: l')
qed

subsection \<open>The first loop of alloc_ram\<close>

text \<open>What is left of one range when \<open>[A, E)\<close> is cut out of it.\<close>

definition cut_out :: "nat \<Rightarrow> nat \<Rightarrow> ram_entry \<Rightarrow> ram_entry list" where
  "cut_out A E r =
     (if r_hi r \<le> A \<or> E \<le> r_lo r then [r]
      else (if r_lo r < A then [r\<lparr>r_size := of_nat (A - r_lo r)\<rparr>] else []) @
           (if E < r_hi r then [\<lparr>r_addr = of_nat E, r_size = of_nat (r_hi r - E)\<rparr>] else []))"

lemma r_lo_hi_simps:
  "r_lo (r\<lparr>r_size := x\<rparr>) = r_lo r" "r_hi (r\<lparr>r_size := x\<rparr>) = r_lo r + unat x"
  "r_lo \<lparr>r_addr = a, r_size = x\<rparr> = unat a" "r_hi \<lparr>r_addr = a, r_size = x\<rparr> = unat a + unat x"
  by (simp_all add: r_lo_def r_hi_def)

lemma cut_spec:
  assumes "r_ok r" and "A < E" and "E \<le> 2 ^ 32"
  shows "covered (cut_out A E r) = {r_lo r ..< r_hi r} - {A ..< E}" "ram_ok (cut_out A E r)"
    "\<forall>x \<in> set (cut_out A E r). r_lo r \<le> r_lo x \<and> r_hi x \<le> r_hi r"
proof -
  have b: "A - r_lo r < 2 ^ LENGTH(64)" "E < 2 ^ LENGTH(64)" "r_hi r - E < 2 ^ LENGTH(64)"
    using assms less_imp_diff_less [of "r_hi r" "2 ^ 64" E] by (simp_all add: r_ok_def)
  have lo: "r_lo (r\<lparr>r_size := of_nat (A - r_lo r)\<rparr>) = r_lo r"
    and hi: "r_hi (r\<lparr>r_size := of_nat (A - r_lo r)\<rparr>) = r_lo r + (A - r_lo r)"
    and lo2: "r_lo \<lparr>r_addr = of_nat E, r_size = of_nat (r_hi r - E)\<rparr> = E"
    and hi2: "r_hi \<lparr>r_addr = of_nat E, r_size = of_nat (r_hi r - E)\<rparr> = E + (r_hi r - E)"
    using b by (simp_all only: r_lo_hi_simps unat_of_nat_small)
  show "covered (cut_out A E r) = {r_lo r ..< r_hi r} - {A ..< E}"
    using assms by (auto simp: cut_out_def lo hi lo2 hi2 r_ok_def simp del: of_nat_diff)
  show "ram_ok (cut_out A E r)" "\<forall>x \<in> set (cut_out A E r). r_lo r \<le> r_lo x \<and> r_hi x \<le> r_hi r"
    using assms by (auto simp: cut_out_def lo hi lo2 hi2 r_ok_def simp del: of_nat_diff)
qed

lemma cut_all_spec:
  assumes "ram_ok l" and "A < E" and "E \<le> 2 ^ 32"
  shows "ram_ok (concat (map (cut_out A E) l)) \<and> covered (concat (map (cut_out A E) l)) = covered l - {A ..< E} \<and>
    (\<forall>x \<in> set (concat (map (cut_out A E) l)). \<exists>r \<in> set l. r_lo r \<le> r_lo x \<and> r_hi x \<le> r_hi r)"
  using assms(1)
proof (induction l)
  case Nil
  then show ?case by simp
next
  case (Cons r l)
  then have r: "r_ok r" and gap: "\<forall>b \<in> set l. r_hi r < r_lo b" and l: "ram_ok l" by auto
  let ?m = "concat (map (cut_out A E) l)"
  have IH: "ram_ok ?m" "covered ?m = covered l - {A ..< E}"
    "\<forall>x \<in> set ?m. \<exists>r \<in> set l. r_lo r \<le> r_lo x \<and> r_hi x \<le> r_hi r"
    using Cons.IH [OF l] by auto
  note c = cut_spec [OF r assms(2,3)]
  have "\<forall>a \<in> set (cut_out A E r). \<forall>b \<in> set ?m. r_hi a < r_lo b"
    using c(3) IH(3) gap by (meson le_less_trans less_le_trans)
  then have "ram_ok (cut_out A E r @ ?m)" using c(2) IH(1) by simp
  moreover have "covered (cut_out A E r @ ?m) = covered (r # l) - {A ..< E}"
    using c(1) IH(2) by auto
  moreover have "\<forall>x \<in> set (cut_out A E r @ ?m). \<exists>q \<in> set (r # l). r_lo q \<le> r_lo x \<and> r_hi x \<le> r_hi q"
    using c(3) IH(3) by auto
  ultimately show ?case by simp
qed

lemma cut_past: "E \<le> r_lo r \<Longrightarrow> cut_out A E r = [r]"
  by (simp add: cut_out_def)

lemma map_cut_past: "\<forall>r \<in> set l. E \<le> r_lo r \<Longrightarrow> concat (map (cut_out A E) l) = l"
  by (induction l) (simp_all add: cut_past)

text \<open>
  The cases of one round. \<open>A\<close> and \<open>E\<close> are the bounds of the block as the 64-bit values
  of the code.
\<close>

lemma alloc_step_skip:
  assumes "r_ok r" and "r_hi r \<le> unat A" and "unat A < unat E"
  shows "alloc_step A E (length xs) (xs @ r # ys) = Inr (Suc (length xs), xs @ r # ys)"
  using assms unat_r_end [OF assms(1)]
  by (auto simp: alloc_step_def Let_def word_le_nat_alt word_less_nat_alt r_lo_def r_ok_def)

lemma alloc_step_past:
  assumes "r_ok r" and "unat E \<le> r_lo r" and "unat A < unat E"
  shows "alloc_step A E (length xs) (xs @ r # ys) = Inr (Suc (length xs), xs @ r # ys)"
proof -
  have s: "unat (r_addr r) = r_lo r" by (simp add: r_lo_def)
  have e: "unat (r_addr r + r_size r) = r_hi r" by (rule unat_r_end [OF assms(1)])
  have ae: "A < E" "A \<noteq> E" using assms(3) by (auto simp: word_less_nat_alt)
  have As: "A < r_addr r" "\<not> r_addr r < E" "\<not> r_addr r < A"
    using assms s by (simp_all add: word_less_nat_alt)
  have Ee: "E < r_addr r + r_size r"
    using assms e by (simp add: word_less_nat_alt r_ok_def)
  show ?thesis
  proof (cases "E = r_addr r")
    case True
    then show ?thesis
      using As Ee ae by (simp add: alloc_step_def Let_def nth_append not_less order_less_imp_le less_imp_neq)
  next
    case False
    then have "\<not> r_addr r \<le> E" using As(2) by (simp add: not_less)
    moreover have "\<not> r_addr r \<le> A" using As(1) by (simp add: not_le)
    ultimately show ?thesis using As(2) by (simp only: alloc_step_def Let_def nth_append_length if_False simp_thms)
  qed
qed

lemma alloc_step_overlap:
  assumes "r_addr r < E" "A < r_addr r + r_size r"
  shows "alloc_step A E (length xs) (xs @ r # ys) =
    (if A \<le> r_addr r then
       if r_addr r + r_size r \<le> E then Inr (length xs, xs @ ys)
       else Inr (Suc (length xs), xs @ \<lparr>r_addr = E, r_size = r_addr r + r_size r - E\<rparr> # ys)
     else if r_addr r + r_size r \<le> E then Inr (Suc (length xs), xs @ r\<lparr>r_size := A - r_addr r\<rparr> # ys)
     else bind_res (add_mem (ucast E) (ucast (r_addr r + r_size r - E)) (xs @ r\<lparr>r_size := A - r_addr r\<rparr> # ys))
            (\<lambda>ram2. Inr (Suc (length xs), ram2)))"
proof -
  have "(A \<le> r_addr r \<and> E > r_addr r) \<or> (A \<ge> r_addr r \<and> A < r_addr r + r_size r) \<or>
      (E \<ge> r_addr r \<and> E < r_addr r + r_size r)"
    using assms by auto
  moreover have "(if A < r_addr r then A else r_addr r) = (if A \<le> r_addr r then A else r_addr r)"
    by (auto simp: order.order_iff_strict)
  moreover have "(if E > r_addr r + r_size r then E else r_addr r + r_size r) =
      (if r_addr r + r_size r \<le> E then E else r_addr r + r_size r)"
    by (auto simp: order.order_iff_strict)
  ultimately show ?thesis
    by (simp add: alloc_step_def Let_def)
qed

lemma cut_words:
  assumes r: "r_ok r" and o: "r_addr r < E" "A < r_addr r + r_size r"
  shows "cut_out (unat A) (unat E) r =
    (if A \<le> r_addr r then
       if r_addr r + r_size r \<le> E then []
       else [\<lparr>r_addr = E, r_size = r_addr r + r_size r - E\<rparr>]
     else if r_addr r + r_size r \<le> E then [r\<lparr>r_size := A - r_addr r\<rparr>]
     else [r\<lparr>r_size := A - r_addr r\<rparr>, \<lparr>r_addr = E, r_size = r_addr r + r_size r - E\<rparr>])"
proof -
  have e: "r_hi r = unat (r_addr r + r_size r)" by (simp add: unat_r_end r)
  have n: "\<not> (r_hi r \<le> unat A \<or> unat E \<le> r_lo r)"
    using o by (simp add: e r_lo_def word_less_nat_alt)
  have 1: "of_nat (unat A - r_lo r) = A - r_addr r" if "\<not> A \<le> r_addr r"
  proof -
    have "unat A - r_lo r = unat (A - r_addr r)"
      using that by (simp add: r_lo_def unat_sub)
    then show ?thesis by simp
  qed
  have 2: "of_nat (r_hi r - unat E) = r_addr r + r_size r - E" if "\<not> r_addr r + r_size r \<le> E"
  proof -
    have "r_hi r - unat E = unat (r_addr r + r_size r - E)"
      using that by (simp add: e unat_sub)
    then show ?thesis by simp
  qed
  have 3: "(r_lo r < unat A) = (\<not> A \<le> r_addr r)" "(unat E < r_hi r) = (\<not> r_addr r + r_size r \<le> E)"
    by (simp_all add: e r_lo_def word_le_nat_alt not_le)
  show ?thesis using n 1 2 by (simp add: cut_out_def 3)
qed

lemma alloc_loop_past:
  assumes "\<forall>r \<in> set ys. r_ok r \<and> unat E \<le> r_lo r" and "unat A < unat E" and "length ys < fuel"
  shows "alloc_loop fuel A E (length xs) (xs @ ys) = Inr (xs @ ys)"
  using assms
proof (induction ys arbitrary: xs fuel)
  case Nil
  then show ?case by (cases fuel) simp_all
next
  case (Cons r ys)
  then obtain n where n: "fuel = Suc n" by (cases fuel) auto
  have "alloc_loop n A E (length (xs @ [r])) ((xs @ [r]) @ ys) = Inr ((xs @ [r]) @ ys)"
    by (rule Cons.IH) (use Cons.prems n in auto)
  with alloc_step_past [of r E A xs ys] Cons.prems show ?case
    by (simp add: n)
qed

text \<open>
  The loop cuts the block out of every range. Room for one more entry is needed, because the
  block may lie inside one range.
\<close>

lemma alloc_loop_cut:
  assumes "ram_ok (xs @ ys)" and "unat A < unat E" and E: "unat E \<le> 2 ^ 32" and "ram_room 1 (xs @ ys)"
    and "2 * length ys < fuel" and "\<forall>r \<in> set xs. r_hi r < unat E"
  shows "alloc_loop fuel A E (length xs) (xs @ ys) = Inr (xs @ concat (map (cut_out (unat A) (unat E)) ys))"
  using assms(1,4,5,6)
proof (induction ys arbitrary: xs fuel)
  case Nil
  then show ?case by (cases fuel) simp_all
next
  case (Cons r ys)
  then obtain n where n: "fuel = Suc n" and fn: "2 * length ys + 1 < n" by (cases fuel) auto
  have r: "r_ok r" and gap: "\<forall>b \<in> set ys. r_ok b \<and> r_hi r < r_lo b"
    using Cons.prems(1) by (simp_all, simp add: ram_ok_def)
  have e: "unat (r_addr r + r_size r) = r_hi r" by (rule unat_r_end [OF r])
  let ?cut = "cut_out (unat A) (unat E)"
  have rest: "alloc_loop n A E (length (xs @ [x])) ((xs @ [x]) @ ys) = Inr ((xs @ [x]) @ concat (map ?cut ys))"
    if "r_ok x" "r_lo r \<le> r_lo x" "r_hi x \<le> r_hi r" "r_hi x < unat E" for x
    by (rule Cons.IH) (use Cons.prems that fn in \<open>fastforce simp: ram_room_eq\<close>)+
  consider "r_hi r \<le> unat A" | "unat E \<le> r_lo r" | "unat A < r_hi r" "r_lo r < unat E"
    by linarith
  then show ?case
  proof cases
    case 1
    then have "?cut r = [r]" by (simp add: cut_out_def)
    with 1 alloc_step_skip [OF r 1 assms(2)] rest [OF r] assms(2) show ?thesis
      by (simp add: n)
  next
    case 2
    have ge: "\<forall>b \<in> set (r # ys). r_ok b \<and> unat E \<le> r_lo b"
      using 2 gap r by (fastforce simp: r_ok_def)
    then have "alloc_loop fuel A E (length xs) (xs @ r # ys) = Inr (xs @ r # ys)"
      using alloc_loop_past [of "r # ys" E A fuel xs] assms(2) n fn by simp
    with ge show ?thesis by (simp add: cut_past map_cut_past)
  next
    case 3
    have o: "r_addr r < E" "A < r_addr r + r_size r"
      using 3 e by (simp_all add: word_less_nat_alt r_lo_def)
    note st = alloc_step_overlap [OF o, of xs ys] and ct = cut_words [OF r o]
    show ?thesis
    proof (cases "A \<le> r_addr r")
      case True
      show ?thesis
      proof (cases "r_addr r + r_size r \<le> E")
        case hi: True
        have "alloc_loop n A E (length xs) (xs @ ys) = Inr (xs @ concat (map ?cut ys))"
          by (rule Cons.IH) (use Cons.prems fn in \<open>auto simp: ram_room_eq\<close>)
        with True hi st ct show ?thesis by (simp add: n)
      next
        case False
        let ?x = "\<lparr>r_addr = E, r_size = r_addr r + r_size r - E\<rparr>"
        have "\<forall>b \<in> set ys. r_ok b \<and> unat E \<le> r_lo b"
          using False gap e by (fastforce simp: word_le_nat_alt)
        with alloc_loop_past [of ys E A n "xs @ [?x]"] True False st ct assms(2) fn show ?thesis
          by (simp add: n map_cut_past)
      qed
    next
      case False
      let ?x = "r\<lparr>r_size := A - r_addr r\<rparr>"
      have lt: "r_addr r < A" using False by (simp add: not_le)
      have x: "r_lo ?x = r_lo r" "r_hi ?x = unat A"
        using lt by (simp_all add: r_lo_hi_simps unat_sub order_less_imp_le r_lo_def word_less_nat_alt)
      have xok: "r_ok ?x"
        using x lt 3 r by (simp add: r_ok_def r_lo_def word_less_nat_alt)
      show ?thesis
      proof (cases "r_addr r + r_size r \<le> E")
        case True
        have "alloc_loop n A E (length (xs @ [?x])) ((xs @ [?x]) @ ys) = Inr ((xs @ [?x]) @ concat (map ?cut ys))"
          by (rule rest) (use x xok 3 assms(2) in simp_all)
        with False True st ct show ?thesis by (simp add: n)
      next
        case hi: False
        let ?y = "\<lparr>r_addr = E, r_size = r_addr r + r_size r - E\<rparr>"
        have Eh: "unat E < r_hi r" using hi e by (simp add: word_le_nat_alt)
        have w: "unat (ucast E :: u32) = unat E"
          "unat (ucast (r_addr r + r_size r - E) :: u32) = r_hi r - unat E"
          using Eh r hi e assms(2) by (auto simp: unat_ucast_low unat_sub r_ok_def)
        have y: "ucast (ucast E :: u32) = E"
          "ucast (ucast (r_addr r + r_size r - E) :: u32) = r_addr r + r_size r - E"
          by (rule unsigned_word_eqI [where 'a = nat], use w e hi in \<open>simp add: unat_sub\<close>)+
        have yok: "r_ok ?y" "r_lo ?y = unat E" "r_hi ?y = r_hi r"
          using w Eh r e hi by (auto simp: r_ok_def r_lo_hi_simps unat_sub)
        have ge: "\<forall>b \<in> set ys. r_ok b \<and> unat E \<le> r_lo b"
          using gap Eh by fastforce
        have "add_mem (ucast E) (ucast (r_addr r + r_size r - E)) ((xs @ [?x]) @ ys) =
            Inr ((xs @ [?x]) @ ?y # ys)"
        proof (rule add_mem_gap [where start = "ucast E" and sz = "ucast (r_addr r + r_size r - E)", unfolded y])
          show "ram_ok ((xs @ [?x]) @ ys)" using Cons.prems(1) x xok assms(2) Eh by fastforce
          show "ram_room 1 ((xs @ [?x]) @ ys)" using Cons.prems(2) by (simp add: ram_room_eq)
          show "(0 :: u32) < ucast (r_addr r + r_size r - E)" using w(2) Eh by (simp add: word_less_nat_alt)
          show "unat (ucast E :: u32) + unat (ucast (r_addr r + r_size r - E) :: u32) \<le> 2 ^ 32"
            using w Eh r by (simp add: r_ok_def)
          show "\<forall>q \<in> set (xs @ [?x]). r_hi q < unat (ucast E :: u32)"
            using Cons.prems(4) x w(1) assms(2) by simp
          show "\<forall>q \<in> set ys. unat (ucast E :: u32) + unat (ucast (r_addr r + r_size r - E) :: u32) < r_lo q"
            using gap w Eh by simp
        qed
        moreover have "alloc_loop n A E (length (xs @ [?x])) ((xs @ [?x]) @ ?y # ys) = Inr ((xs @ [?x]) @ ?y # ys)"
          by (rule alloc_loop_past) (use ge yok assms(2) fn in simp_all)
        ultimately show ?thesis using False hi st ct ge by (simp add: n map_cut_past)
      qed
    qed
  qed
qed

lemma length_coalesce: "length (coalesce prev rs) \<le> Suc (length rs)"
proof (induction prev rs rule: coalesce.induct)
  case (2 prev r rs)
  show ?case
  proof (cases "r_addr r \<le> r_addr prev + r_size prev")
    case True
    then show ?thesis using "2.IH"(1) [OF refl refl True refl] by (simp add: Let_def le_SucI)
  next
    case False
    then show ?thesis using "2.IH"(2) [OF refl refl False] by (simp add: Let_def)
  qed
qed simp

lemma length_add_mem: "add_mem start sz l = Inr l' \<Longrightarrow> length l' \<le> Suc (length l)"
proof -
  assume r: "add_mem start sz l = Inr l'"
  let ?P = "\<lambda>r. \<not> r_addr r > ucast start"
  let ?m = "takeWhile ?P l @ \<lparr>r_addr = ucast start, r_size = ucast sz\<rparr> # dropWhile ?P l"
  have "length (takeWhile ?P l) + length (dropWhile ?P l) = length l"
    by (metis length_append takeWhile_dropWhile_id)
  then have "length ?m = Suc (length l)" by simp
  moreover have "length (coalesce_all m) \<le> length m" for m
    by (cases m) (simp_all add: length_coalesce)
  ultimately have "length (coalesce_all ?m) \<le> Suc (length l)" by metis
  moreover have "l' = l \<or> l' = coalesce_all ?m"
    using r by (auto simp: add_mem_def Let_def split: if_splits)
  ultimately show ?thesis by auto
qed

lemma length_cuts: "ram_ok l \<Longrightarrow> length (concat (map (cut_out A E) l)) \<le> Suc (length l)"
proof (induction l)
  case Nil
  then show ?case by simp
next
  case (Cons r l)
  show ?case
  proof (cases "E < r_hi r")
    case True
    then have "\<forall>b \<in> set l. E \<le> r_lo b" using Cons.prems by fastforce
    then have "concat (map (cut_out A E) l) = l" by (rule map_cut_past)
    moreover have "length (cut_out A E r) \<le> 2" by (simp add: cut_out_def)
    ultimately show ?thesis by simp
  next
    case False
    then have "length (cut_out A E r) \<le> 1" by (simp add: cut_out_def)
    with Cons show ?thesis by fastforce
  qed
qed

subsection \<open>The interface: a store of address ranges\<close>

definition take_mem :: "u32 \<Rightarrow> u32 \<Rightarrow> ram_entry list \<Rightarrow> ram_entry list res" where
  "take_mem addr sz l = alloc_loop (2 * length l + 1) (ucast addr) (ucast (addr + sz)) 0 l"

definition block_ok :: "u32 \<Rightarrow> u32 \<Rightarrow> bool" where
  "block_ok addr sz \<longleftrightarrow> 0 < unat sz \<and> unat addr + unat sz < 2 ^ 32"

lemma take_mem_spec:
  assumes "ram_ok l" and "ram_room 1 l" and "block_ok addr sz"
  shows "\<exists>l'. take_mem addr sz l = Inr l' \<and> ram_ok l' \<and> covered l' = covered l - ram_block addr sz \<and>
    length l' \<le> Suc (length l)"
proof -
  let ?A = "ucast addr :: u64" and ?E = "ucast (addr + sz) :: u64"
  have e: "unat ?E = unat addr + unat sz"
    using assms(3) by (simp add: block_ok_def unat_word_ariths)
  then have ae: "unat ?A < unat ?E" "unat ?E \<le> 2 ^ 32"
    using assms(3) by (simp_all add: block_ok_def)
  have "take_mem addr sz l = Inr (concat (map (cut_out (unat ?A) (unat ?E)) l))"
    using alloc_loop_cut [of "[]" l ?A ?E "2 * length l + 1"] assms(1,2) ae by (simp add: take_mem_def)
  with cut_all_spec [OF assms(1) ae] length_cuts [OF assms(1)] show ?thesis
    unfolding e ram_block_def by (auto simp del: set_concat)
qed

locale range_store =
  fixes ins del :: "u32 \<Rightarrow> u32 \<Rightarrow> 's \<Rightarrow> 's res"
    and bytes :: "'s \<Rightarrow> nat set"
    and inv :: "'s \<Rightarrow> bool"
    and room :: "nat \<Rightarrow> 's \<Rightarrow> bool"
  assumes ins_law: "inv l \<Longrightarrow> room (Suc k) l \<Longrightarrow> block_ok a n \<Longrightarrow>
      \<exists>l'. ins a n l = Inr l' \<and> inv l' \<and> room k l' \<and> bytes l' = bytes l \<union> ram_block a n"
    and del_law: "inv l \<Longrightarrow> room (Suc k) l \<Longrightarrow> block_ok a n \<Longrightarrow>
      \<exists>l'. del a n l = Inr l' \<and> inv l' \<and> room k l' \<and> bytes l' = bytes l - ram_block a n"
    and normal: "inv l \<Longrightarrow> inv l' \<Longrightarrow> bytes l = bytes l' \<Longrightarrow> l = l'"
begin

lemma ins_commute:
  assumes "inv l" and "room 2 l" and "block_ok a n" and "block_ok b m"
  shows "bind_res (ins a n l) (ins b m) = bind_res (ins b m l) (ins a n)"
proof -
  have r: "room (Suc (Suc 0)) l" using assms(2) by (simp add: numeral_2_eq_2)
  obtain l1 where 1: "ins a n l = Inr l1" "inv l1" "room (Suc 0) l1" "bytes l1 = bytes l \<union> ram_block a n"
    using ins_law [OF assms(1) r assms(3)] by blast
  obtain l2 where 2: "ins b m l = Inr l2" "inv l2" "room (Suc 0) l2" "bytes l2 = bytes l \<union> ram_block b m"
    using ins_law [OF assms(1) r assms(4)] by blast
  obtain m1 where m1: "ins b m l1 = Inr m1" "inv m1" "bytes m1 = bytes l1 \<union> ram_block b m"
    using ins_law [OF 1(2,3) assms(4)] by blast
  obtain m2 where m2: "ins a n l2 = Inr m2" "inv m2" "bytes m2 = bytes l2 \<union> ram_block a n"
    using ins_law [OF 2(2,3) assms(3)] by blast
  have "bytes m1 = bytes m2" using 1 2 m1 m2 by auto
  with normal m1(2) m2(2) have "m1 = m2" by blast
  then show ?thesis using 1 2 m1 m2 by simp
qed

lemma del_ins_restores:
  assumes "inv l" and "room 2 l" and "block_ok a n" and "ram_block a n \<subseteq> bytes l"
  shows "bind_res (del a n l) (ins a n) = Inr l"
proof -
  have r: "room (Suc (Suc 0)) l" using assms(2) by (simp add: numeral_2_eq_2)
  obtain l1 where 1: "del a n l = Inr l1" "inv l1" "room (Suc 0) l1" "bytes l1 = bytes l - ram_block a n"
    using del_law [OF assms(1) r assms(3)] by blast
  obtain m1 where m1: "ins a n l1 = Inr m1" "inv m1" "bytes m1 = bytes l1 \<union> ram_block a n"
    using ins_law [OF 1(2,3) assms(3)] by blast
  have "bytes m1 = bytes l" using 1 m1 assms(4) by auto
  with normal m1(2) assms(1) have "m1 = l" by blast
  then show ?thesis using 1 m1 by simp
qed

lemma del_again:
  assumes "inv l" and "room 2 l" and "block_ok a n" and "del a n l = Inr l'"
  shows "del a n l' = Inr l'"
proof -
  have r: "room (Suc (Suc 0)) l" using assms(2) by (simp add: numeral_2_eq_2)
  obtain l1 where 1: "del a n l = Inr l1" "inv l1" "room (Suc 0) l1" "bytes l1 = bytes l - ram_block a n"
    using del_law [OF assms(1) r assms(3)] by blast
  obtain m1 where m1: "del a n l1 = Inr m1" "inv m1" "bytes m1 = bytes l1 - ram_block a n"
    using del_law [OF 1(2,3) assms(3)] by blast
  have "bytes m1 = bytes l1" using 1 m1 by auto
  with normal m1(2) 1(2) have "m1 = l1" by blast
  then show ?thesis using 1 m1 assms(4) by simp
qed

end

interpretation rm: range_store add_mem take_mem covered ram_ok ram_room
proof unfold_locales
  fix l k a n
  assume l: "ram_ok l" "ram_room (Suc k) l" and b: "block_ok a n"
  have 1: "ram_room 1 l" using l(2) by (simp add: ram_room_eq)
  have "0 < n" "unat a + unat n \<le> 2 ^ 32" using b by (simp_all add: block_ok_def word_less_nat_alt)
  with add_mem_spec [OF l(1) 1] length_add_mem l(2)
  show "\<exists>l'. add_mem a n l = Inr l' \<and> ram_ok l' \<and> ram_room k l' \<and> covered l' = covered l \<union> ram_block a n"
    by (fastforce simp: ram_room_eq)
  from take_mem_spec [OF l(1) 1 b] l(2)
  show "\<exists>l'. take_mem a n l = Inr l' \<and> ram_ok l' \<and> ram_room k l' \<and> covered l' = covered l - ram_block a n"
    by (fastforce simp: ram_room_eq)
qed (rule ram_normal_form)

subsection \<open>The searches\<close>

lemma fix_size_spec:
  assumes "s < e" and "fix_size s e as ae = Some (s', e')"
  shows "s \<le> s' \<and> s' < e' \<and> e' \<le> e \<and> (ucast ae \<le> s' \<or> e' \<le> ucast as)"
proof -
  define a b where ab: "a = (ucast as :: u64)" "b = (ucast ae :: u64)"
  note r = assms(2) [unfolded fix_size_def, folded ab]
  have ne: "e - b < a - s \<or> a \<le> s \<or> e \<noteq> b"
    by (auto simp: word_greater_zero_iff not_le)
  have "b \<le> s \<and> s' = s \<and> e' = e \<or> e \<le> a \<and> s' = s \<and> e' = e \<or> s < b \<and> b < e \<and> s' = b \<and> e' = e \<and> a \<le> s
      \<or> s < a \<and> a < e \<and> s' = s \<and> e' = a \<or> s < a \<and> s < b \<and> b \<le> e \<and> e \<noteq> b \<and> s' = b \<and> e' = e"
  proof (cases "b \<le> s \<or> e \<le> a")
    case True
    then show ?thesis using r by auto
  next
    case F1: False
    then have f: "s < b" "a < e" by (simp_all add: not_le)
    show ?thesis
    proof (cases "a \<le> s")
      case True
      then show ?thesis using r F1 f by (simp split: if_splits add: not_le)
    next
      case False
      then show ?thesis using r F1 f ne by (simp split: if_splits add: not_le not_less)
    qed
  qed
  then show ?thesis unfolding ab [symmetric]
    using assms(1) by (elim disjE conjE) (simp_all, auto)
qed

text \<open>The avoid ranges a search looks at: those before the first that ends at zero.\<close>

definition live_avoids :: "avoid_entry list \<Rightarrow> avoid_entry list" where
  "live_avoids avs = takeWhile (\<lambda>a. av_end a \<noteq> 0) avs"

definition clear_of :: "avoid_entry list \<Rightarrow> nat \<Rightarrow> nat \<Rightarrow> bool" where
  "clear_of avs lo hi \<longleftrightarrow> (\<forall>a \<in> set (live_avoids avs). unat (av_end a) \<le> lo \<or> hi \<le> unat (av_start a))"

lemma avoid_all_spec:
  "s < e \<Longrightarrow> avoid_all s e avs = Some (s', e') \<Longrightarrow>
    s \<le> s' \<and> s' < e' \<and> e' \<le> e \<and> clear_of avs (unat s') (unat e')"
proof (induction avs arbitrary: s e)
  case Nil
  then show ?case by (simp add: clear_of_def live_avoids_def)
next
  case (Cons a avs)
  show ?case
  proof (cases "av_end a = 0")
    case True
    then show ?thesis using Cons.prems by (simp add: clear_of_def live_avoids_def)
  next
    case False
    then obtain s1 e1 where 1: "fix_size s e (av_start a) (av_end a) = Some (s1, e1)"
      and 2: "avoid_all s1 e1 avs = Some (s', e')"
      using Cons.prems(2) by (auto split: option.splits)
    note f = fix_size_spec [OF Cons.prems(1) 1]
    have IH: "s1 \<le> s' \<and> s' < e' \<and> e' \<le> e1 \<and> clear_of avs (unat s') (unat e')"
      using Cons.IH [OF _ 2] f by blast
    have "unat (av_end a) \<le> unat s' \<or> unat e' \<le> unat (av_start a)"
      using f IH by (auto simp: word_le_nat_alt)
    with f IH False show ?thesis by (auto simp: clear_of_def live_avoids_def)
  qed
qed

text \<open>A block a search may return: inside one free range and clear of the avoid ranges.\<close>

definition free_block :: "avoid_entry list \<Rightarrow> ram_entry list \<Rightarrow> nat \<Rightarrow> nat \<Rightarrow> bool" where
  "free_block avs l lo n \<longleftrightarrow> {lo ..< lo + n} \<subseteq> covered l \<and> clear_of avs lo (lo + n)"

lemma free_blockI:
  assumes "r \<in> set l" and "r_ok r" and "avoid_all (r_addr r) (r_addr r + r_size r) avs = Some (s, e)"
    and "unat s \<le> lo" and "lo + n \<le> unat e"
  shows "free_block avs l lo n"
proof -
  have e: "unat (r_addr r + r_size r) = r_hi r" by (rule unat_r_end [OF assms(2)])
  have "r_addr r < r_addr r + r_size r"
    using assms(2) e by (simp add: word_less_nat_alt r_ok_def r_lo_def)
  note a = avoid_all_spec [OF this assms(3)]
  have "{lo ..< lo + n} \<subseteq> {r_lo r ..< r_hi r}"
    using a assms(4,5) e by (auto simp: word_le_nat_alt r_lo_def)
  moreover have "clear_of avs lo (lo + n)"
    using a assms(4,5) by (fastforce simp: clear_of_def)
  ultimately show ?thesis using assms(1) by (auto simp: free_block_def covered_def)
qed

lemma find_ram_in_range_free:
  assumes "\<forall>r \<in> set l. r_ok r \<and> r_hi r + 2 ^ k \<le> 2 ^ 32" and "k < 32"
    and "find_ram_in_range 0 re sz (2 ^ k) 0 0 avs l = a" and "a \<noteq> NULL_PADDR"
  shows "free_block avs l (unat a) (unat sz) \<and> 2 ^ k dvd unat a"
  using assms(1,3)
proof (induction l)
  case Nil
  then show ?case using assms(4) by simp
next
  case (Cons r l)
  have mono: "free_block avs l lo n \<Longrightarrow> free_block avs (r # l) lo n" for lo n
    by (auto simp: free_block_def)
  note IH = Cons.IH
  show ?case
  proof (cases "find_ram_in_range 0 re sz (2 ^ k) 0 0 avs l = a")
    case True
    then show ?thesis using IH Cons.prems(1) mono by simp
  next
    case False
    have r: "r_ok r" "r_hi r + 2 ^ k \<le> 2 ^ 32" using Cons.prems(1) by simp_all
    obtain s e where se: "avoid_all (r_addr r) (r_addr r + r_size r) avs = Some (s, e)"
      using Cons.prems(2) False by (auto split: option.splits)
    let ?addr = "ROUND (ucast s :: u32) (2 ^ k)"
    define e1 where "e1 = (if re \<noteq> 0 \<and> e > ucast re then ucast re else e)"
    have a: "a = ?addr"
      and lt: "ucast a < e1" and sz: "ucast sz \<le> e1 - ucast a"
      using Cons.prems(2) False se
      by (auto simp: colour_addr_def Let_def not_le e1_def split: if_splits)
    have e: "unat (r_addr r + r_size r) = r_hi r" by (rule unat_r_end [OF r(1)])
    have "r_addr r < r_addr r + r_size r"
      using r(1) e by (simp add: word_less_nat_alt r_ok_def r_lo_def)
    note av = avoid_all_spec [OF this se]
    have s32: "unat s + (2 ^ k - 1) < 2 ^ 32"
      using av r e by (auto simp: word_less_nat_alt word_le_nat_alt)
    have us: "unat (ucast s :: u32) = unat s"
      using av r e by (intro unat_ucast_low) (auto simp: word_less_nat_alt word_le_nat_alt)
    have "(ucast s :: u32) \<le> ?addr"
      by (rule ROUND_ge [where k = k]) (use us s32 assms(2) in simp_all)
    then have lo: "unat s \<le> unat a" by (simp add: a word_le_nat_alt us)
    have al: "2 ^ k dvd unat a" unfolding a by (rule ROUND_aligned) (use assms(2) in simp_all)
    have "unat sz \<le> unat e1 - unat a"
      using sz unat_sub [OF order_less_imp_le [OF lt]] by (simp add: word_le_nat_alt)
    moreover have "unat a < unat e1" using lt by (simp add: word_less_nat_alt)
    moreover have "unat e1 \<le> unat e" by (auto simp: e1_def word_less_nat_alt)
    ultimately have "unat a + unat sz \<le> unat e" by linarith
    from free_blockI [OF _ r(1) se lo this, of "r # l"] al show ?thesis by simp
  qed
qed

lemma find_top_loop_free:
  assumes "\<forall>r \<in> set l. r_ok r" and "sz \<noteq> 0" and "align = 0 \<or> align = 2 ^ k \<and> k < 32"
    and "find_top_loop sz align avs l best = a"
  shows "a = best \<or> best < a \<and> free_block avs l (unat a) (unat sz) \<and> (align \<noteq> 0 \<longrightarrow> 2 ^ k dvd unat a)"
  using assms(1,4)
proof (induction l arbitrary: best)
  case Nil
  then show ?case by simp
next
  case (Cons r l)
  have mono: "free_block avs l lo n \<Longrightarrow> free_block avs (r # l) lo n" for lo n
    by (auto simp: free_block_def)
  have l: "\<forall>r \<in> set l. r_ok r" and r: "r_ok r" using Cons.prems(1) by simp_all
  show ?case
  proof (cases "find_top_loop sz align avs l best = a")
    case True
    then show ?thesis using Cons.IH [OF l] mono by blast
  next
    case False
    obtain s e where se: "avoid_all (r_addr r) (r_addr r + r_size r) avs = Some (s, e)"
      using Cons.prems(2) False by (auto split: option.splits)
    define chk where "chk = (if align \<noteq> 0 then TRUNC (ucast (e - ucast sz)) align else ucast (e - ucast sz) :: u32)"
    have big: "ucast sz \<le> e - s" and chk: "s \<le> ucast chk" "best < chk"
      and nxt: "find_top_loop sz align avs l chk = a"
      using Cons.prems(2) False se by (auto simp: chk_def Let_def split: if_splits)
    have e: "unat (r_addr r + r_size r) = r_hi r" by (rule unat_r_end [OF r])
    have "r_addr r < r_addr r + r_size r"
      using r e by (simp add: word_less_nat_alt r_ok_def r_lo_def)
    note av = avoid_all_spec [OF this se]
    have b: "unat sz \<le> unat e - unat s" "unat s < unat e" "unat e \<le> 2 ^ 32"
      using big av r e by (auto simp: word_le_nat_alt word_less_nat_alt unat_sub r_ok_def)
    have "0 < unat sz" using assms(2) by (simp add: unat_gt_0)
    have "unat (e - ucast sz) = unat e - unat sz"
      using b by (simp add: unat_sub word_le_nat_alt)
    then have u: "unat (ucast (e - ucast sz) :: u32) = unat e - unat sz"
      using b \<open>0 < unat sz\<close> by (subst unat_ucast_low) auto
    have le: "unat chk \<le> unat e - unat sz"
      using TRUNC_le [of align k "ucast (e - ucast sz) :: u32"] assms(3)
      by (auto simp: chk_def u [symmetric] word_le_nat_alt)
    have al: "align \<noteq> 0 \<longrightarrow> 2 ^ k dvd unat chk"
      using TRUNC_aligned [of align k "ucast (e - ucast sz) :: u32"] assms(3) by (auto simp: chk_def)
    have "unat s \<le> unat chk" using chk(1) by (simp add: word_le_nat_alt)
    moreover have "unat chk + unat sz \<le> unat e" using le b by linarith
    ultimately have fb: "free_block avs (r # l) (unat chk) (unat sz)"
      using free_blockI [OF _ r se] by simp
    show ?thesis
      using Cons.IH [OF l nxt] fb al chk(2) mono by (auto intro: order.strict_trans)
  qed
qed

subsection \<open>Properties\<close>

lemma alloc_ram_plain:
  assumes "\<not> sysram_added st" and "addr \<noteq> NULL_PADDR"
  shows "alloc_ram K addr sz align st =
    bind_res (take_mem addr sz (ram_list st)) (\<lambda>ram. Inr (addr, st\<lparr>ram_list := ram\<rparr>))"
  using assms by (simp add: alloc_ram_def take_mem_def Let_def)

lemma alloc_ram_null:
  assumes "\<not> sysram_added st"
  shows "alloc_ram K NULL_PADDR sz align st =
    (let a = find_ram sz align 0 0 (avoids st) (ram_list st)
     in if a = NULL_PADDR then Inr (NULL_PADDR, st)
        else bind_res (take_mem a sz (ram_list st)) (\<lambda>ram. Inr (a, st\<lparr>ram_list := ram\<rparr>)))"
  using assms by (simp add: alloc_ram_def take_mem_def Let_def)

definition ex_ram :: "ram_entry list" where
  "ex_ram = [\<lparr>r_addr = 0x1000, r_size = 0x2000\<rparr>, \<lparr>r_addr = 0x8000, r_size = 0x4000\<rparr>]"

definition ex_ram_state :: ram_state where
  "ex_ram_state = \<lparr>ram_list = ex_ram, avoid_list = Some [\<lparr>av_start = 0x8000, av_end = 0x9000\<rparr>],
     ws_early_next = 0, temp_syspage = NULL_PADDR, sysram_added = False, watch_list = [], watch_calls = [],
     rs_mem = (\<lambda>_. 0), rs_lsp = ex_lsp\<rparr>"

lemma ex_ram_ok: "ram_ok ex_ram" "ram_room 1 ex_ram" "ram_room 2 ex_ram"
  by (simp_all add: ex_ram_def r_ok_def r_lo_def r_hi_def ram_room_eq)

text \<open>C3: \<open>add_mem\<close> adds exactly the bytes of the new range to the free RAM, whatever
  it overlaps or touches, and leaves the list sorted, non-empty ranges only, with a gap between
  neighbours.\<close>

theorem add_mem_union:
  assumes "ram_ok l" and "ram_room 1 l" and "0 < sz" and "unat start + unat sz \<le> 2 ^ 32"
  shows "\<exists>l'. add_mem start sz l = Inr l' \<and> ram_ok l' \<and> covered l' = covered l \<union> ram_block start sz"
  using assms by (rule add_mem_spec)

lemma add_mem_union_witness:
  "\<exists>l'. add_mem 0x2800 0x5800 ex_ram = Inr l' \<and> l' = [\<lparr>r_addr = 0x1000, r_size = 0xb000\<rparr>] \<and> ram_ok l'"
proof -
  have r: "add_mem 0x2800 0x5800 ex_ram = Inr [\<lparr>r_addr = 0x1000, r_size = 0xb000\<rparr>]" by code_simp
  have "\<exists>l'. add_mem 0x2800 0x5800 ex_ram = Inr l' \<and> ram_ok l' \<and> covered l' = covered ex_ram \<union> ram_block 0x2800 0x5800"
    by (rule add_mem_union [OF ex_ram_ok(1,2)]) simp_all
  with r show ?thesis by auto
qed

text \<open>C5: the order in which RAM ranges are added does not matter: two calls of
  \<open>add_mem\<close> give the same list either way round.\<close>

theorem add_mem_commute:
  assumes "ram_ok l" and "ram_room 2 l" and "block_ok a n" and "block_ok b m"
  shows "bind_res (add_mem a n l) (add_mem b m) = bind_res (add_mem b m l) (add_mem a n)"
  using assms by (rule rm.ins_commute)

lemma add_mem_commute_witness:
  "bind_res (add_mem 0x3000 0x1000 ex_ram) (add_mem 0x4000 0x4000) =
   bind_res (add_mem 0x4000 0x4000 ex_ram) (add_mem 0x3000 0x1000)"
  by (rule add_mem_commute [OF ex_ram_ok(1,3)]) (simp_all add: block_ok_def)

text \<open>C1: \<open>alloc_ram\<close> at a given address takes exactly the bytes of the block out of the
  free RAM (of every range it meets, a range it lies inside being split in two), keeps the list
  in normal form, and changes nothing else; it ends within the rounds of the model. (Before
  \<open>add_sysram\<close>, for blocks that end below 4GB.)\<close>

theorem alloc_ram_takes_block:
  assumes "ram_ok (ram_list st)" and "ram_room 1 (ram_list st)" and "\<not> sysram_added st"
    and "addr \<noteq> NULL_PADDR" and "block_ok addr sz"
  shows "\<exists>l'. alloc_ram K addr sz align st = Inr (addr, st\<lparr>ram_list := l'\<rparr>) \<and> ram_ok l' \<and>
    covered l' = covered (ram_list st) - ram_block addr sz"
  using take_mem_spec [OF assms(1,2,5)] alloc_ram_plain [OF assms(3,4)] by auto

lemma alloc_ram_takes_block_witness:
  "\<exists>l'. alloc_ram ex_abi 0x9000 0x1000 1 ex_ram_state = Inr (0x9000, ex_ram_state\<lparr>ram_list := l'\<rparr>) \<and>
    covered l' = covered ex_ram - {0x9000 ..< 0xa000}"
proof -
  have "ram_list ex_ram_state = ex_ram" "\<not> sysram_added ex_ram_state" by (simp_all add: ex_ram_state_def)
  moreover have "(0x9000 :: u32) \<noteq> NULL_PADDR" by (simp add: NULL_PADDR_def)
  moreover have "block_ok 0x9000 0x1000" "ram_block 0x9000 0x1000 = {0x9000 ..< 0xa000}"
    by (simp_all add: block_ok_def ram_block_def)
  ultimately show ?thesis
    using alloc_ram_takes_block [of ex_ram_state "0x9000" "0x1000" ex_abi 1] ex_ram_ok by auto
qed

lemma alloc_ram_block:
  assumes ok: "ram_ok (ram_list st)" and room: "ram_room 1 (ram_list st)" and s: "\<not> sysram_added st"
    and below: "\<forall>r \<in> set (ram_list st). r_hi r + 2 ^ k \<le> 2 ^ 32" and k: "k < 32" and sz: "0 < sz"
  shows "\<exists>a st'. alloc_ram K NULL_PADDR sz (2 ^ k) st = Inr (a, st') \<and>
    (if a = NULL_PADDR then st' = st
     else free_block (avoids st) (ram_list st) (unat a) (unat sz) \<and> 2 ^ k dvd unat a \<and>
       (\<exists>l'. st' = st\<lparr>ram_list := l'\<rparr> \<and> ram_ok l' \<and> covered l' = covered (ram_list st) - ram_block a sz \<and>
         length l' \<le> Suc (length (ram_list st))))"
proof -
  let ?a = "find_ram sz (2 ^ k) 0 0 (avoids st) (ram_list st)"
  show ?thesis
  proof (cases "?a = NULL_PADDR")
    case True
    then show ?thesis using alloc_ram_null [OF s, of K sz "2 ^ k"] by simp
  next
    case False
    have f: "free_block (avoids st) (ram_list st) (unat ?a) (unat sz) \<and> 2 ^ k dvd unat ?a"
    proof (rule find_ram_in_range_free [OF _ k _ False])
      show "\<forall>r \<in> set (ram_list st). r_ok r \<and> r_hi r + 2 ^ k \<le> 2 ^ 32" using ok below by (simp add: ram_ok_def)
      show "find_ram_in_range 0 MAX_PADDR32 sz (2 ^ k) 0 0 (avoids st) (ram_list st) = ?a"
        by (simp add: find_ram_def Let_def)
    qed
    have n: "0 < unat sz" using sz by (simp add: word_less_nat_alt)
    then have "unat ?a + unat sz - 1 \<in> covered (ram_list st)" using f by (auto simp: free_block_def)
    then obtain r where "r \<in> set (ram_list st)" "unat ?a + unat sz - 1 < r_hi r" by (auto simp: covered_def)
    moreover from this below have "r_hi r < 2 ^ 32"
      by (metis add_lessD1 less_add_same_cancel1 order.strict_trans2 zero_less_numeral zero_less_power)
    ultimately have "block_ok ?a sz" using n by (simp add: block_ok_def)
    from take_mem_spec [OF ok room this] obtain l' where l': "take_mem ?a sz (ram_list st) = Inr l'"
      "ram_ok l'" "covered l' = covered (ram_list st) - ram_block ?a sz" "length l' \<le> Suc (length (ram_list st))" by blast
    have "alloc_ram K NULL_PADDR sz (2 ^ k) st = Inr (?a, st\<lparr>ram_list := l'\<rparr>)"
      using alloc_ram_null [OF s, of K sz "2 ^ k"] False l'(1) by simp
    with False f l' show ?thesis by auto
  qed
qed

text \<open>C2: \<open>alloc_ram\<close> without an address either changes nothing and returns
  \<open>NULL_PADDR\<close>, or returns an aligned block of the asked size that was free RAM and is
  clear of every avoid range, and takes exactly that block out of the free RAM. (For
  power-of-two alignments, with no range in the last alignment unit below 4GB.)\<close>

theorem alloc_ram_finds_block:
  assumes ok: "ram_ok (ram_list st)" and room: "ram_room 1 (ram_list st)" and s: "\<not> sysram_added st"
    and below: "\<forall>r \<in> set (ram_list st). r_hi r + 2 ^ k \<le> 2 ^ 32" and k: "k < 32" and sz: "0 < sz"
  shows "\<exists>a st'. alloc_ram K NULL_PADDR sz (2 ^ k) st = Inr (a, st') \<and>
    (if a = NULL_PADDR then st' = st
     else free_block (avoids st) (ram_list st) (unat a) (unat sz) \<and> 2 ^ k dvd unat a \<and>
       (\<exists>l'. st' = st\<lparr>ram_list := l'\<rparr> \<and> ram_ok l' \<and> covered l' = covered (ram_list st) - ram_block a sz))"
  using alloc_ram_block [OF assms, of K]
  by (elim exE conjE) (intro exI conjI, assumption, auto split: if_splits)

lemma alloc_ram_finds_block_witness:
  "\<exists>st'. alloc_ram ex_abi NULL_PADDR 0x1800 0x1000 ex_ram_state = Inr (0x1000, st') \<and>
    free_block (avoids ex_ram_state) (ram_list ex_ram_state) 0x1000 0x1800"
proof -
  have c: "case alloc_ram ex_abi NULL_PADDR 0x1800 0x1000 ex_ram_state of Inl e \<Rightarrow> False | Inr (a, st') \<Rightarrow> a = 0x1000"
    by code_simp
  have st: "ram_list ex_ram_state = ex_ram" "\<not> sysram_added ex_ram_state" by (simp_all add: ex_ram_state_def)
  have below: "\<forall>r \<in> set (ram_list ex_ram_state). r_hi r + 2 ^ 12 \<le> 2 ^ 32"
    by (simp add: st ex_ram_def r_hi_def)
  obtain a st' where r: "alloc_ram ex_abi NULL_PADDR 0x1800 (2 ^ 12) ex_ram_state = Inr (a, st')"
    and f: "if a = NULL_PADDR then st' = ex_ram_state else
      free_block (avoids ex_ram_state) (ram_list ex_ram_state) (unat a) (unat (0x1800 :: u32)) \<and> 2 ^ 12 dvd unat a \<and>
       (\<exists>l'. st' = ex_ram_state\<lparr>ram_list := l'\<rparr> \<and> ram_ok l' \<and>
          covered l' = covered (ram_list ex_ram_state) - ram_block a 0x1800)"
    using alloc_ram_finds_block [of ex_ram_state 12 "0x1800" ex_abi] below st ex_ram_ok by auto
  have a: "a = 0x1000" using c r by simp
  have "a \<noteq> NULL_PADDR" by (simp add: a NULL_PADDR_def)
  with f have "free_block (avoids ex_ram_state) (ram_list ex_ram_state) 0x1000 0x1800" by (simp add: a)
  with r show ?thesis by (simp add: a)
qed

text \<open>C4: adding back a block that \<open>alloc_ram\<close> took from the free RAM restores the
  very same list.\<close>

theorem alloc_then_add_restores:
  assumes "ram_ok (ram_list st)" and "ram_room 2 (ram_list st)" and "\<not> sysram_added st"
    and "addr \<noteq> NULL_PADDR" and "block_ok addr sz" and "ram_block addr sz \<subseteq> covered (ram_list st)"
  shows "bind_res (alloc_ram K addr sz align st) (\<lambda>(_, st'). add_mem addr sz (ram_list st')) = Inr (ram_list st)"
  using rm.del_ins_restores [OF assms(1,2,5,6)]
  by (simp add: alloc_ram_plain [OF assms(3,4)] bind_res_def split: sum.splits)

lemma alloc_then_add_restores_witness:
  "bind_res (alloc_ram ex_abi 0x9000 0x1000 1 ex_ram_state) (\<lambda>(_, st'). add_mem 0x9000 0x1000 (ram_list st')) = Inr ex_ram"
proof -
  have st: "ram_list ex_ram_state = ex_ram" "\<not> sysram_added ex_ram_state" by (simp_all add: ex_ram_state_def)
  have "ram_block 0x9000 0x1000 \<subseteq> covered (ram_list ex_ram_state)"
    by (auto simp: st ex_ram_def ram_block_def r_lo_def r_hi_def)
  moreover have "(0x9000 :: u32) \<noteq> NULL_PADDR" "block_ok 0x9000 0x1000" by (simp_all add: NULL_PADDR_def block_ok_def)
  ultimately show ?thesis
    using alloc_then_add_restores [of ex_ram_state "0x9000" "0x1000" ex_abi 1] ex_ram_ok st by simp
qed

text \<open>C6: \<open>find_top_ram_aligned\<close> returns \<open>NULL_PADDR\<close> or a block of the size
  rounded up to pages that is free RAM, clear of every avoid range, and aligned when an
  alignment (a power of two) is given.\<close>

theorem find_top_ram_free:
  assumes "ram_ok l" and "ROUND sz pagesize \<noteq> 0" and "align = 0 \<or> align = 2 ^ k \<and> k < 32"
    and "find_top_ram_aligned sz align pagesize avs l = a" and "a \<noteq> NULL_PADDR"
  shows "free_block avs l (unat a) (unat (ROUND sz pagesize)) \<and> (align \<noteq> 0 \<longrightarrow> 2 ^ k dvd unat a)"
  using find_top_loop_free [OF _ assms(2,3), of l avs 0 a] assms(1,4,5)
  by (auto simp: find_top_ram_aligned_def Let_def ram_ok_def split: if_splits)

lemma find_top_ram_free_witness:
  "find_top_ram_aligned 0x1800 0x1000 0x1000 [\<lparr>av_start = 0xb000, av_end = 0xc000\<rparr>] ex_ram = 0x9000 \<and>
   free_block [\<lparr>av_start = 0xb000, av_end = 0xc000\<rparr>] ex_ram 0x9000 0x2000"
proof -
  have r: "find_top_ram_aligned 0x1800 0x1000 0x1000 [\<lparr>av_start = 0xb000, av_end = 0xc000\<rparr>] ex_ram = 0x9000"
    "ROUND (0x1800 :: u32) 0x1000 = 0x2000"
    by code_simp+
  have "(0x1000 :: u32) = 0 \<or> (0x1000 :: u32) = 2 ^ 12 \<and> (12 :: nat) < 32" by simp
  from find_top_ram_free [OF ex_ram_ok(1) _ this r(1)] r show ?thesis
    by (simp add: NULL_PADDR_def)
qed

subsection \<open>A block that ends at 4GB\<close>

text \<open>
  \<open>end = addr + size\<close> is computed in 32 bits. When the block is the whole last range below
  4GB, \<open>end\<close> is 0, and instead of removing the range the loop makes it the whole of memory.
\<close>

lemma alloc_ram_wraps:
  assumes "0 < a" and "a \<noteq> NULL_PADDR" and "\<not> sysram_added st"
    and "ram_list st = [\<lparr>r_addr = ucast a, r_size = 2 ^ 32 - ucast a\<rparr>]"
  shows "alloc_ram K a (- a) align st = Inr (a, st\<lparr>ram_list := [\<lparr>r_addr = 0, r_size = 2 ^ 32\<rparr>]\<rparr>)"
proof -
  have "(ucast a :: u64) < 2 ^ 32"
    using unat_u32_bound [of a] by (simp add: word_less_nat_alt)
  then have "alloc_step (ucast a) 0 0 [\<lparr>r_addr = ucast a, r_size = 2 ^ 32 - ucast a\<rparr>] =
      Inr (Suc 0, [\<lparr>r_addr = 0, r_size = 2 ^ 32\<rparr>])"
    by (simp add: alloc_step_def Let_def)
  then have "alloc_loop (Suc (Suc (Suc 0))) (ucast a) 0 0 [\<lparr>r_addr = ucast a, r_size = 2 ^ 32 - ucast a\<rparr>] =
      Inr [\<lparr>r_addr = 0, r_size = 2 ^ 32\<rparr>]"
    by simp
  then show ?thesis
    using assms by (simp add: alloc_ram_plain take_mem_def numeral_3_eq_3)
qed

end
