(* ===== verification/Rtc.thy ===== *)
theory Rtc
  imports Prelude "HOL-Library.State_Monad" "HOL-Library.Signed_Division"
begin

section \<open>The rtc utility: time, BCD and access to the clock chip\<close>

text \<open>
  \<open>utils/r/rtc/rtc.h\<close> and the access functions of \<open>qnxrtc.c\<close>. The hardware is not part of
  the sources: it is a parameter (\<open>bus\<close>), a pair of operations on a device state of any type,
  and a read may change that state. What the chips' code relies on (a register keeps what was
  written to it) is the law of the locale \<open>reg_bus\<close>: the device behaves like a plain register
  file. The locale is interpreted on \<open>chip_read\<close> and \<open>chip_write\<close> of the model over plain
  memory. A function that returns -1 returns \<open>None\<close> here.
\<close>

subsection \<open>Broken-down time\<close>

record tm =
  tm_sec :: int
  tm_min :: int
  tm_hour :: int
  tm_mday :: int
  tm_mon :: int
  tm_year :: int
  tm_wday :: int

definition same_time :: "tm \<Rightarrow> tm \<Rightarrow> bool" where
  "same_time a b \<longleftrightarrow> tm_sec a = tm_sec b \<and> tm_min a = tm_min b \<and> tm_hour a = tm_hour b \<and>
     tm_mday a = tm_mday b \<and> tm_mon a = tm_mon b \<and> tm_year a = tm_year b"

text \<open>The ranges of a real date and time between two years (counted from 1900).\<close>

definition tm_ok :: "int \<Rightarrow> int \<Rightarrow> tm \<Rightarrow> bool" where
  "tm_ok y1 y2 t \<longleftrightarrow> 0 \<le> tm_sec t \<and> tm_sec t < 60 \<and> 0 \<le> tm_min t \<and> tm_min t < 60 \<and>
     0 \<le> tm_hour t \<and> tm_hour t < 24 \<and> 1 \<le> tm_mday t \<and> tm_mday t \<le> 31 \<and>
     0 \<le> tm_mon t \<and> tm_mon t < 12 \<and> y1 \<le> tm_year t \<and> tm_year t < y2 \<and> 0 \<le> tm_wday t \<and> tm_wday t < 7"

subsection \<open>Binary-coded decimals\<close>

text \<open>
  \<open>BIN2BCD\<close> is applied to \<open>int\<close> values (division truncates), \<open>BCD2BIN\<close> to unsigned ones.
\<close>

definition BIN2BCD :: "int \<Rightarrow> int" where
  "BIN2BCD a = ((a smod 10000) sdiv 1000) * 2 ^ 12 + ((a smod 1000) sdiv 100) * 2 ^ 8 +
     ((a smod 100) sdiv 10) * 2 ^ 4 + a smod 10"

definition BCD2BIN :: "u32 \<Rightarrow> u32" where
  "BCD2BIN a = drop_bit 12 (a AND 0xf000) * 1000 + drop_bit 8 (a AND 0xf00) * 100 +
     drop_bit 4 (a AND 0xf0) * 10 + (a AND 0x0f)"

definition bcd :: "int \<Rightarrow> u32" where
  "bcd n = word_of_int (BIN2BCD n)"

subsection \<open>The chip and the bus\<close>

datatype access_type = NONE | IOMAPPED | MEMMAPPED | RESMGR

text \<open>
  \<open>struct chip_loc\<close>, with \<open>chip_base\<close> (the mapped address, the port or the file
  descriptor) beside it. \<open>char\<close> is unsigned on ARM.
\<close>

record chip_loc =
  phys :: u64
  reg_shift :: nat
  century_reg :: int
  chip_access :: access_type
  dev_write_addr :: u8
  dev_read_addr :: u8
  chip_base :: u32

definition NIL_PADDR :: u64 where
  "NIL_PADDR = NOT 0"

definition UNSET :: int where
  "UNSET = -2"

text \<open>
  The hardware: a read or write of 8, 16 or 32 bits at an address of memory, of the port space,
  or of a resource manager's file.
\<close>

record 'd bus =
  bus_rd :: "access_type \<Rightarrow> u32 \<Rightarrow> nat \<Rightarrow> ('d, u32) state"
  bus_wr :: "access_type \<Rightarrow> u32 \<Rightarrow> u32 \<Rightarrow> nat \<Rightarrow> ('d, unit) state"

definition chip_read :: "'d bus \<Rightarrow> chip_loc \<Rightarrow> u32 \<Rightarrow> nat \<Rightarrow> ('d, u32) state" where
  "chip_read B C off sz =
     (let disp = push_bit (reg_shift C) off
      in if sz \<in> {8, 16, 32}
         then case chip_access C of
             RESMGR \<Rightarrow> bus_rd B RESMGR (off OR push_bit 16 (ucast (dev_read_addr C))) sz
           | IOMAPPED \<Rightarrow> bus_rd B IOMAPPED (chip_base C + disp) sz
           | _ \<Rightarrow> bus_rd B MEMMAPPED (chip_base C + disp) sz
         else State_Monad.return 0)"

definition chip_write :: "'d bus \<Rightarrow> chip_loc \<Rightarrow> u32 \<Rightarrow> u32 \<Rightarrow> nat \<Rightarrow> ('d, unit) state" where
  "chip_write B C off val sz =
     (let disp = push_bit (reg_shift C) off
      in if sz \<in> {8, 16, 32}
         then case chip_access C of
             RESMGR \<Rightarrow> bus_wr B RESMGR (off OR push_bit 16 (ucast (dev_write_addr C))) val sz
           | IOMAPPED \<Rightarrow> bus_wr B IOMAPPED (chip_base C + disp) val sz
           | _ \<Rightarrow> bus_wr B MEMMAPPED (chip_base C + disp) val sz
         else State_Monad.return ())"

text \<open>What a chip's functions call: reads and writes of a register.\<close>

record 'd chip_ops =
  chip_rd :: "u32 \<Rightarrow> nat \<Rightarrow> ('d, u32) state"
  chip_wr :: "u32 \<Rightarrow> u32 \<Rightarrow> nat \<Rightarrow> ('d, unit) state"

definition real_ops :: "'d bus \<Rightarrow> chip_loc \<Rightarrow> 'd chip_ops" where
  "real_ops B C = \<lparr>chip_rd = chip_read B C, chip_wr = chip_write B C\<rparr>"

definition chip_read8 :: "'d chip_ops \<Rightarrow> u32 \<Rightarrow> ('d, u32) state" where
  "chip_read8 P off = chip_rd P off 8"

definition chip_write8 :: "'d chip_ops \<Rightarrow> u32 \<Rightarrow> u32 \<Rightarrow> ('d, unit) state" where
  "chip_write8 P off val = chip_wr P off val 8"

definition chip_read32 :: "'d chip_ops \<Rightarrow> u32 \<Rightarrow> ('d, u32) state" where
  "chip_read32 P off = chip_rd P off 32"

definition chip_write32 :: "'d chip_ops \<Rightarrow> u32 \<Rightarrow> u32 \<Rightarrow> ('d, unit) state" where
  "chip_write32 P off val = chip_wr P off val 32"

subsection \<open>The abstract chip: a register file\<close>

definition reg_rd :: "u32 \<Rightarrow> nat \<Rightarrow> (u32 \<Rightarrow> u32, u32) state" where
  "reg_rd off sz = State (\<lambda>V. (take_bit sz (V off), V))"

definition reg_wr :: "u32 \<Rightarrow> u32 \<Rightarrow> nat \<Rightarrow> (u32 \<Rightarrow> u32, unit) state" where
  "reg_wr off val sz = State (\<lambda>V. ((), V(off := take_bit sz val)))"

definition reg_file :: "(u32 \<Rightarrow> u32) chip_ops" where
  "reg_file = \<lparr>chip_rd = reg_rd, chip_wr = reg_wr\<rparr>"

text \<open>
  A program \<open>m\<close> on device states is simulated by \<open>f\<close> on views of them when it returns the
  same result and leads to the view \<open>f\<close> leads to.
\<close>

definition simulated :: "('d \<Rightarrow> 'v) \<Rightarrow> ('d, 'a) state \<Rightarrow> ('v, 'a) state \<Rightarrow> bool" where
  "simulated view m f \<longleftrightarrow> (\<forall>d. map_prod id view (run_state m d) = run_state f (view d))"

named_theorems sim_intros "rules for simulated programs"

lemma simulated_return [sim_intros]: "simulated view (State_Monad.return x) (State_Monad.return x)"
  by (simp add: simulated_def)

lemma simulated_bind [sim_intros]:
  assumes "simulated view m f" and "\<And>x. simulated view (g x) (h x)"
  shows "simulated view (m \<bind> g) (f \<bind> h)"
  unfolding simulated_def
proof
  fix d
  obtain x d' where d': "run_state m d = (x, d')" by fastforce
  have "map_prod id view (run_state m d) = run_state f (view d)" using assms(1) by (simp add: simulated_def)
  with d' have f: "run_state f (view d) = (x, view d')" by simp
  then show "map_prod id view (run_state (m \<bind> g) d) = run_state (f \<bind> h) (view d)"
    using d' f assms(2) by (simp add: simulated_def)
qed

lemma simulated_if [sim_intros]:
  assumes "b \<Longrightarrow> simulated view m f" and "\<not> b \<Longrightarrow> simulated view m' f'"
  shows "simulated view (if b then m else m') (if b then f else f')"
  using assms by simp

lemma simulated_let [sim_intros]:
  assumes "\<And>x. simulated view (m x) (f x)"
  shows "simulated view (let x = t in m x) (let x = t in f x)"
  using assms by simp

lemma simulated_prod [sim_intros]:
  assumes "\<And>x y. simulated view (m x y) (f x y)"
  shows "simulated view (case p of (x, y) \<Rightarrow> m x y) (case p of (x, y) \<Rightarrow> f x y)"
  using assms by (cases p) simp

lemma simulated_option [sim_intros]:
  assumes "simulated view m f" and "\<And>x. simulated view (m' x) (f' x)"
  shows "simulated view (case r of None \<Rightarrow> m | Some x \<Rightarrow> m' x) (case r of None \<Rightarrow> f | Some x \<Rightarrow> f' x)"
  using assms by (cases r) simp_all

lemma simulated_run:
  assumes "simulated view m f" and "run_state f (view d) = (x, V)"
  shows "\<exists>d'. run_state m d = (x, d') \<and> view d' = V"
proof -
  obtain y d' where d': "run_state m d = (y, d')" by fastforce
  have "map_prod id view (run_state m d) = run_state f (view d)" using assms(1) by (simp add: simulated_def)
  with d' assms(2) show ?thesis by simp
qed

subsection \<open>The interface: a bus whose registers keep what is written\<close>

locale reg_bus =
  fixes P :: "'d chip_ops"
    and view :: "'d \<Rightarrow> u32 \<Rightarrow> u32"
    and sz :: nat
    and reg_ok :: "u32 \<Rightarrow> bool"
  assumes rd_law: "reg_ok off \<Longrightarrow> simulated view (chip_rd P off sz) (reg_rd off sz)"
    and wr_law: "reg_ok off \<Longrightarrow> simulated view (chip_wr P off val sz) (reg_wr off val sz)"
begin

lemma rd_sim: "reg_ok off \<Longrightarrow> simulated view (chip_rd P off sz) (chip_rd reg_file off sz)"
  using rd_law by (simp add: reg_file_def)

lemma wr_sim: "reg_ok off \<Longrightarrow> simulated view (chip_wr P off val sz) (chip_wr reg_file off val sz)"
  using wr_law by (simp add: reg_file_def)

text \<open>What is written is read back.\<close>

lemma read_back:
  assumes "reg_ok off"
  shows "\<exists>d'. run_state (chip_wr P off val sz \<bind> (\<lambda>_. chip_rd P off sz)) d = (take_bit sz val, d')"
proof -
  have "simulated view (chip_wr P off val sz \<bind> (\<lambda>_. chip_rd P off sz))
      (reg_wr off val sz \<bind> (\<lambda>_. reg_rd off sz))"
    by (intro sim_intros rd_law wr_law assms)
  moreover have "run_state (reg_wr off val sz \<bind> (\<lambda>_. reg_rd off sz)) (view d) =
      (take_bit sz val, (view d)(off := take_bit sz val))"
    by (simp add: reg_wr_def reg_rd_def)
  ultimately show ?thesis by (metis simulated_run)
qed

end

subsection \<open>Plain memory as the bus\<close>

definition mem_rd :: "access_type \<Rightarrow> u32 \<Rightarrow> nat \<Rightarrow> (u32 \<Rightarrow> u8, u32) state" where
  "mem_rd a p sz = State (\<lambda>m.
     (if sz = 8 then ucast (m p)
      else if sz = 16 then ucast (m p) OR push_bit 8 (ucast (m (p + 1)))
      else ucast (m p) OR push_bit 8 (ucast (m (p + 1))) OR push_bit 16 (ucast (m (p + 2))) OR
           push_bit 24 (ucast (m (p + 3))), m))"

definition mem_wr :: "access_type \<Rightarrow> u32 \<Rightarrow> u32 \<Rightarrow> nat \<Rightarrow> (u32 \<Rightarrow> u8, unit) state" where
  "mem_wr a p v sz = State (\<lambda>m. ((),
     if sz = 8 then m(p := ucast v)
     else if sz = 16 then m(p := ucast v, p + 1 := ucast (drop_bit 8 v))
     else m(p := ucast v, p + 1 := ucast (drop_bit 8 v), p + 2 := ucast (drop_bit 16 v),
            p + 3 := ucast (drop_bit 24 v))))"

definition mem_bus :: "(u32 \<Rightarrow> u8) bus" where
  "mem_bus = \<lparr>bus_rd = mem_rd, bus_wr = mem_wr\<rparr>"

text \<open>A memory-mapped chip with its registers next to each other.\<close>

definition mem_chip :: "u32 \<Rightarrow> chip_loc" where
  "mem_chip base = \<lparr>phys = ucast base, reg_shift = 0, century_reg = UNSET, chip_access = MEMMAPPED,
     dev_write_addr = 0, dev_read_addr = 0, chip_base = base\<rparr>"

definition byte_view :: "u32 \<Rightarrow> (u32 \<Rightarrow> u8) \<Rightarrow> u32 \<Rightarrow> u32" where
  "byte_view base m off = ucast (m (base + off))"

definition word_view :: "u32 \<Rightarrow> (u32 \<Rightarrow> u8) \<Rightarrow> u32 \<Rightarrow> u32" where
  "word_view base m off =
     (if 4 dvd unat off
      then ucast (m (base + off)) OR push_bit 8 (ucast (m (base + off + 1))) OR
        push_bit 16 (ucast (m (base + off + 2))) OR push_bit 24 (ucast (m (base + off + 3)))
      else 0)"

lemma real_ops_mem:
  "chip_rd (real_ops mem_bus (mem_chip base)) off 8 = mem_rd MEMMAPPED (base + off) 8"
  "chip_rd (real_ops mem_bus (mem_chip base)) off 32 = mem_rd MEMMAPPED (base + off) 32"
  "chip_wr (real_ops mem_bus (mem_chip base)) off v 8 = mem_wr MEMMAPPED (base + off) v 8"
  "chip_wr (real_ops mem_bus (mem_chip base)) off v 32 = mem_wr MEMMAPPED (base + off) v 32"
  by (simp_all add: real_ops_def chip_read_def chip_write_def mem_bus_def mem_chip_def Let_def)

lemma take_bit_ucast8 [simp]: "take_bit 8 (ucast (x :: u8) :: u32) = ucast x"
  by (rule bit_eqI) (auto simp: bit_simps dest: bit_imp_le_length)

lemma ucast_ucast8: "ucast (ucast (v :: u32) :: u8) = (take_bit 8 v :: u32)"
  by (rule bit_eqI) (auto simp: bit_simps)

interpretation mm8: reg_bus "real_ops mem_bus (mem_chip base)" "byte_view base" 8 "\<lambda>_. True"
proof unfold_locales
  fix off val
  show "simulated (byte_view base) (chip_rd (real_ops mem_bus (mem_chip base)) off 8) (reg_rd off 8)"
    by (simp add: simulated_def real_ops_mem mem_rd_def reg_rd_def byte_view_def)
  show "simulated (byte_view base) (chip_wr (real_ops mem_bus (mem_chip base)) off val 8) (reg_wr off val 8)"
    by (auto simp: simulated_def real_ops_mem mem_wr_def reg_wr_def byte_view_def fun_eq_iff ucast_ucast8)
qed

lemma byte_bits: "k < 8 \<Longrightarrow> bit (ucast (b :: u8) :: u32) k = bit b k"
  by (simp add: bit_simps)

lemma bytes_of_word:
  "ucast (ucast v :: u8) OR push_bit 8 (ucast (ucast (drop_bit 8 v) :: u8)) OR
   push_bit 16 (ucast (ucast (drop_bit 16 v) :: u8)) OR push_bit 24 (ucast (ucast (drop_bit 24 v) :: u8)) = (v :: u32)"
proof (rule bit_word_eqI)
  fix n
  show "bit (ucast (ucast v :: u8) OR push_bit 8 (ucast (ucast (drop_bit 8 v) :: u8)) OR
      push_bit 16 (ucast (ucast (drop_bit 16 v) :: u8)) OR push_bit 24 (ucast (ucast (drop_bit 24 v) :: u8)) :: u32) n =
    bit (v :: u32) n" if "n < LENGTH(32)"
    using that by (cases "n < 8"; cases "n < 16"; cases "n < 24") (auto simp: bit_simps)
qed

lemma word_offsets_apart:
  fixes p q :: u32
  assumes "4 dvd unat p" and "4 dvd unat q" and "p \<noteq> q" and "i < 4" and "j < 4"
  shows "base + p + of_nat i \<noteq> base + q + of_nat j"
proof
  assume "base + p + of_nat i = base + q + of_nat j"
  then have eq: "p + of_nat i = q + of_nat j" by (simp add: add.assoc)
  have b: "unat p + i < 2 ^ 32" "unat q + j < 2 ^ 32"
    using assms unsigned_less [of p, where 'a = nat] unsigned_less [of q, where 'a = nat]
    by (auto elim!: dvdE)
  have u: "unat (p + of_nat i) = unat p + i" "unat (q + of_nat j) = unat q + j"
    using b assms(4,5) by (simp_all add: unat_word_ariths unsigned_of_nat take_bit_eq_mod)
  have "unat p + i = unat q + j" using eq u by metis
  then have "unat p = unat q" using assms(1,2,4,5) by (auto elim!: dvdE)
  with assms(3) show False using unsigned_word_eqI by blast
qed

lemma word_offsets_near:
  assumes "i < 4" and "j < 4" and "i \<noteq> j"
  shows "p + of_nat i \<noteq> p + (of_nat j :: u32)"
proof
  assume "p + of_nat i = p + (of_nat j :: u32)"
  then have "unat (of_nat i :: u32) = unat (of_nat j :: u32)" by simp
  moreover have "unat (of_nat i :: u32) = i" "unat (of_nat j :: u32) = j"
    by (rule unat_of_nat_small, use assms in simp)+
  ultimately show False using assms(3) by simp
qed

lemma mem_wr32_other:
  assumes "4 dvd unat p" and "4 dvd unat q" and "p \<noteq> q" and "i < 4"
  shows "snd (run_state (mem_wr a (base + p) v 32) m) (base + q + of_nat i) = m (base + q + of_nat i)"
  using word_offsets_apart [OF assms(2,1) _ assms(4), of 0 base]
    word_offsets_apart [OF assms(2,1) _ assms(4), of 1 base] word_offsets_apart [OF assms(2,1) _ assms(4), of 2 base]
    word_offsets_apart [OF assms(2,1) _ assms(4), of 3 base] assms(3)
  by (simp add: mem_wr_def)

lemma mem_wr32_same:
  "snd (run_state (mem_wr a p v 32) m) p = ucast v"
  "snd (run_state (mem_wr a p v 32) m) (p + 1) = ucast (drop_bit 8 v)"
  "snd (run_state (mem_wr a p v 32) m) (p + 2) = ucast (drop_bit 16 v)"
  "snd (run_state (mem_wr a p v 32) m) (p + 3) = ucast (drop_bit 24 v)"
  using word_offsets_near [of 0 _ p] word_offsets_near [of 1 _ p] word_offsets_near [of 2 _ p]
  by (simp_all add: mem_wr_def)

lemma word_view_wr:
  assumes "4 dvd unat p"
  shows "word_view base (snd (run_state (mem_wr a (base + p) v 32) m)) = (word_view base m)(p := v)"
proof
  fix q
  show "word_view base (snd (run_state (mem_wr a (base + p) v 32) m)) q = ((word_view base m)(p := v)) q"
  proof (cases "q = p")
    case True
    then show ?thesis using assms by (simp add: word_view_def mem_wr32_same bytes_of_word)
  next
    case False
    show ?thesis
    proof (cases "4 dvd unat q")
      case True
      note o = mem_wr32_other [OF assms True False [symmetric], of _ a base v m]
      show ?thesis using o [of 0] o [of 1] o [of 2] o [of 3] False by (simp add: word_view_def)
    next
      case False2: False
      with False show ?thesis by (simp add: word_view_def)
    qed
  qed
qed

lemma take_bit32 [simp]: "take_bit 32 (x :: u32) = x"
  by (rule bit_eqI) (simp add: bit_simps)

interpretation mm32: reg_bus "real_ops mem_bus (mem_chip base)" "word_view base" 32 "\<lambda>off. 4 dvd unat off"
proof unfold_locales
  fix off val :: u32
  assume off: "4 dvd unat off"
  show "simulated (word_view base) (chip_rd (real_ops mem_bus (mem_chip base)) off 32) (reg_rd off 32)"
    using off by (simp add: simulated_def real_ops_mem mem_rd_def reg_rd_def word_view_def)
  have "fst (run_state (mem_wr MEMMAPPED (base + off) val 32) m) = ()" for m by simp
  then show "simulated (word_view base) (chip_wr (real_ops mem_bus (mem_chip base)) off val 32) (reg_wr off val 32)"
    using word_view_wr [OF off]
    by (simp add: simulated_def real_ops_mem reg_wr_def prod_eq_iff)
qed

subsection \<open>Decimal digits survive the registers\<close>

lemma and_mask_take: "x AND 0xf = take_bit 4 x" "x AND 0x7f = take_bit 7 x" "x AND 0x3f = take_bit 6 x"
  "x AND 0x1f = take_bit 5 x" "x AND 7 = take_bit 3 x" "x AND 0xff = take_bit 8 x" for x :: u32
  by (simp_all add: take_bit_eq_mask mask_eq_exp_minus_1)

lemma take_bit_small: "unat x < 2 ^ k \<Longrightarrow> take_bit k x = x" for x :: "'a::len word"
  by (rule unsigned_word_eqI [where 'a = nat])
    (simp only: unsigned_take_bit_eq take_bit_nat_eq_self_iff)

lemma BCD2BIN_alt: "BCD2BIN a = take_bit 4 (drop_bit 12 a) * 1000 + take_bit 4 (drop_bit 8 a) * 100 +
    take_bit 4 (drop_bit 4 a) * 10 + take_bit 4 a"
  by (simp add: BCD2BIN_def drop_bit_and and_mask_take)

lemma unat_take4 [simp]: "unat (take_bit 4 (drop_bit k x)) = unat x div 2 ^ k mod 16" for x :: u32
  by (simp only: unsigned_take_bit_eq unat_drop_bit_eq) (simp add: take_bit_eq_mod drop_bit_eq_div)

lemma unat_BCD2BIN: "unat x < 256 \<Longrightarrow> unat (BCD2BIN x) = unat x div 16 * 10 + unat x mod 16"
proof -
  assume x: "unat x < 256"
  have 0: "unat x div 4096 = 0" "unat x div 256 = 0" using x by simp_all
  have "unat x div 16 < 16" using x by (simp add: less_mult_imp_div_less)
  then have t: "unat (take_bit 4 (drop_bit 12 x)) = 0" "unat (take_bit 4 (drop_bit 8 x)) = 0"
    "unat (take_bit 4 (drop_bit 4 x)) = unat x div 16" "unat (take_bit 4 x) = unat x mod 16"
    using 0 unat_take4 [of 0 x] by simp_all
  then have z: "take_bit 4 (drop_bit 12 x) = 0" "take_bit 4 (drop_bit 8 x) = 0"
    using t(1,2) unat_eq_0 by blast+
  show ?thesis
    using \<open>unat x div 16 < 16\<close> mod_less_divisor [of 16 "unat x"]
    by (simp add: BCD2BIN_alt z unat_word_ariths t del: unat_take4 mod_less_divisor)
qed

lemma BIN2BCD_two: "0 \<le> n \<Longrightarrow> n < 100 \<Longrightarrow> BIN2BCD n = 16 * (n div 10) + n mod 10"
  by (simp add: BIN2BCD_def signed_divide_int_def signed_modulo_int_def sgn_if)

lemma unat_bcd: "0 \<le> n \<Longrightarrow> n < 100 \<Longrightarrow> unat (bcd n) = 16 * (nat n div 10) + nat n mod 10"
proof -
  assume n: "0 \<le> n" "n < 100"
  then have "BIN2BCD n = int (16 * (nat n div 10) + nat n mod 10)"
    by (simp add: BIN2BCD_two zdiv_int zmod_int)
  then have "bcd n = of_nat (16 * (nat n div 10) + nat n mod 10)"
    by (simp only: bcd_def of_int_of_nat_eq)
  moreover have "16 * (nat n div 10) + nat n mod 10 < 2 ^ 32" using n by simp
  ultimately show ?thesis using unat_of_nat_small [of "16 * (nat n div 10) + nat n mod 10", where 'a = 32] by simp
qed

text \<open>A two-digit number goes through a register of \<open>k\<close> bits that is wide enough.\<close>

lemma bcd_in_bits:
  assumes "0 \<le> n" and "n < 100" and "16 * (nat n div 10) + 9 < 2 ^ k"
  shows "take_bit k (bcd n) = bcd n"
proof (rule take_bit_small)
  have "nat n mod 10 \<le> 9" by (simp add: less_Suc_eq_le [symmetric])
  then show "unat (bcd n) < 2 ^ k" using unat_bcd [OF assms(1,2)] assms(3) by linarith
qed

lemma BCD2BIN_bcd: "0 \<le> n \<Longrightarrow> n < 100 \<Longrightarrow> BCD2BIN (bcd n) = word_of_int n"
proof -
  assume n: "0 \<le> n" "n < 100"
  have u: "unat (bcd n) = 16 * (nat n div 10) + nat n mod 10" using unat_bcd [OF n] .
  have d: "nat n div 10 < 10" using n by (simp add: less_mult_imp_div_less)
  have m: "nat n mod 10 < 16" using mod_less_divisor [of 10 "nat n"] by linarith
  have lt: "unat (bcd n) < 256" using u d m by linarith
  have "unat (bcd n) div 16 = nat n div 10" "unat (bcd n) mod 16 = nat n mod 10"
    unfolding u using m by simp_all
  then have "unat (BCD2BIN (bcd n)) = nat n"
    using unat_BCD2BIN [OF lt] by (simp add: mult.commute)
  moreover have "unat (word_of_int n :: u32) = nat n"
    using n unat_of_nat_small [of "nat n", where 'a = 32] by simp
  ultimately show ?thesis by (intro unsigned_word_eqI [where 'a = nat]) simp
qed

lemma sint_small: "0 \<le> n \<Longrightarrow> n < 2 ^ 31 \<Longrightarrow> sint (word_of_int n :: u32) = n"
  by (simp add: signed_of_int signed_take_bit_int_eq_self)

lemma bcd_and:
  "0 \<le> n \<Longrightarrow> n < 100 \<Longrightarrow> bcd n AND 0xff = bcd n"
  "0 \<le> n \<Longrightarrow> n < 80 \<Longrightarrow> bcd n AND 0x7f = bcd n"
  "0 \<le> n \<Longrightarrow> n < 40 \<Longrightarrow> bcd n AND 0x3f = bcd n"
  "0 \<le> n \<Longrightarrow> n < 20 \<Longrightarrow> bcd n AND 0x1f = bcd n"
  "0 \<le> n \<Longrightarrow> n < 10 \<Longrightarrow> bcd n AND 0xf = bcd n"
  "0 \<le> n \<Longrightarrow> n < 8 \<Longrightarrow> bcd n AND 7 = bcd n"
proof -
  have d: "16 * (nat n div 10) + 9 < 16 * (j + 1)" if "0 \<le> n" "n < int (10 * (j + 1))" for j
  proof -
    have "nat n < 10 * (j + 1)" using that by simp
    then have "nat n div 10 < j + 1" by (simp add: less_mult_imp_div_less mult.commute)
    then show ?thesis by simp
  qed
  show "0 \<le> n \<Longrightarrow> n < 100 \<Longrightarrow> bcd n AND 0xff = bcd n"
    "0 \<le> n \<Longrightarrow> n < 80 \<Longrightarrow> bcd n AND 0x7f = bcd n"
    "0 \<le> n \<Longrightarrow> n < 40 \<Longrightarrow> bcd n AND 0x3f = bcd n"
    "0 \<le> n \<Longrightarrow> n < 20 \<Longrightarrow> bcd n AND 0x1f = bcd n"
    "0 \<le> n \<Longrightarrow> n < 10 \<Longrightarrow> bcd n AND 0xf = bcd n"
    unfolding and_mask_take
    using d [of 9] d [of 7] d [of 3] d [of 1] d [of 0] by (simp_all add: bcd_in_bits)
  assume n: "0 \<le> n" "n < 8"
  then have "unat (bcd n) < 2 ^ 3" by (simp add: unat_bcd)
  then show "bcd n AND 7 = bcd n" unfolding and_mask_take by (rule take_bit_small)
qed

lemma take8: "take_bit 8 x = x AND 0xff" for x :: u32
  by (simp add: and_mask_take)

lemma sint_BCD2BIN [simp]: "0 \<le> n \<Longrightarrow> n < 100 \<Longrightarrow> sint (BCD2BIN (bcd n)) = n"
  by (simp add: BCD2BIN_bcd sint_small)

lemma sint_BCD2BIN_pred [simp]: "1 \<le> n \<Longrightarrow> n < 100 \<Longrightarrow> sint (BCD2BIN (bcd n) - 1) = n - 1"
proof -
  assume n: "1 \<le> n" "n < 100"
  then have "BCD2BIN (bcd n) - 1 = word_of_int (n - 1)" by (simp add: BCD2BIN_bcd)
  with n show ?thesis using sint_small [of "n - 1"] by simp
qed

text \<open>Running the chip operations on the register file.\<close>

lemma run_reg_file [simp]:
  "run_state (chip_read8 reg_file r) V = (V r AND 0xff, V)"
  "run_state (chip_write8 reg_file r v) V = ((), V(r := v AND 0xff))"
  "run_state (chip_read32 reg_file r) V = (V r, V)"
  "run_state (chip_write32 reg_file r v) V = ((), V(r := v))"
  by (simp_all add: chip_read8_def chip_write8_def chip_read32_def chip_write32_def reg_file_def reg_rd_def
      reg_wr_def take8)

lemma and_norm: "(x OR y) AND z = (x AND z) OR (y AND z)" "(x AND y) AND z = x AND (y AND z)"
  for x y z :: u32
  by (simp_all add: bit.conj_disj_distrib2 and.assoc)

text \<open>The year of a time, split at the century, is put together again.\<close>

lemma cent_parts:
  "0 \<le> y \<Longrightarrow> y smod 100 = y mod 100" "0 \<le> y \<Longrightarrow> y sdiv 100 = y div 100" for y :: int
  by (simp_all add: signed_divide_int_def signed_modulo_int_def sgn_if)

named_theorems year_facts "putting the year together from its digits and the century"

lemma year_window [year_facts]:
  "70 \<le> y \<Longrightarrow> y < 170 \<Longrightarrow> y mod 100 < 70 \<Longrightarrow> y mod 100 + 100 = y"
  "70 \<le> y \<Longrightarrow> y < 170 \<Longrightarrow> \<not> y mod 100 < 70 \<Longrightarrow> y mod 100 = y" for y :: int
  by presburger+

lemma century_cases: "0 \<le> y \<Longrightarrow> y < 200 \<Longrightarrow> y div 100 + 19 = 19 \<and> y mod 100 = y \<or> y div 100 + 19 = 20 \<and> y mod 100 + 100 = y"
  for y :: int
  by presburger

lemma cent_codes: "bcd 19 = 0x19" "bcd 20 = 0x20" "BCD2BIN 0x19 = 19" "BCD2BIN 0x20 = 20"
  by code_simp+

lemma century_20 [year_facts]:
  assumes "0 \<le> y" and "y < 200"
  shows "BCD2BIN (bcd (y div 100 + 19)) = 20 \<Longrightarrow> y mod 100 + 100 = y"
    "BCD2BIN (bcd (y div 100 + 19)) \<noteq> 20 \<Longrightarrow> y mod 100 = y"
    "bcd (y div 100 + 19) = 0x20 \<Longrightarrow> y mod 100 + 100 = y"
    "bcd (y div 100 + 19) \<noteq> 0x20 \<Longrightarrow> y mod 100 = y"
  using century_cases [OF assms] by (auto simp: cent_codes)

text \<open>The fields of a valid time and the rules that take them through the registers.\<close>

lemma century_word [simp]:
  assumes "0 \<le> y" and "y < 8100"
  shows "sint (BCD2BIN (bcd (y mod 100)) + (BCD2BIN (bcd (y div 100 + 19)) * 100 - 1900)) = y"
proof -
  have w: "word_of_int a + (word_of_int b * 100 - 1900) = (word_of_int (a + (b * 100 - 1900)) :: u32)" for a b
    by simp
  have "BCD2BIN (bcd (y mod 100)) + (BCD2BIN (bcd (y div 100 + 19)) * 100 - 1900) =
      word_of_int (y mod 100) + (word_of_int (y div 100 + 19) * 100 - 1900)"
    using assms by (simp add: BCD2BIN_bcd)
  also have "\<dots> = word_of_int (y mod 100 + ((y div 100 + 19) * 100 - 1900))" by (rule w)
  also have "y mod 100 + ((y div 100 + 19) * 100 - 1900) = y" by presburger
  finally show ?thesis using assms by (simp add: sint_small)
qed

lemma century_above_19 [year_facts]:
  assumes "0 \<le> y" and "y < 8100"
  shows "19 < BCD2BIN (bcd (y div 100 + 19)) \<Longrightarrow> y mod 100 + sint (BCD2BIN (bcd (y div 100 + 19)) * 100 - 1900) = y"
    "\<not> 19 < BCD2BIN (bcd (y div 100 + 19)) \<Longrightarrow> y mod 100 = y"
proof -
  have c: "0 \<le> y div 100 + 19" "y div 100 + 19 < 100" using assms by simp_all
  have 1: "BCD2BIN (bcd (y div 100 + 19)) = word_of_int (y div 100 + 19)" by (rule BCD2BIN_bcd [OF c])
  have 2: "unat (word_of_int (y div 100 + 19) :: u32) = nat (y div 100 + 19)"
    using c unat_of_nat_small [of "nat (y div 100 + 19)", where 'a = 32] by simp
  have 3: "word_of_int (y div 100 + 19) * 100 - 1900 = (word_of_int (y div 100 * 100) :: u32)"
    by (simp add: distrib_right)
  have 4: "sint (word_of_int (y div 100 * 100) :: u32) = y div 100 * 100"
    using assms by (intro sint_small) simp_all
  show "y mod 100 + sint (BCD2BIN (bcd (y div 100 + 19)) * 100 - 1900) = y"
    unfolding 1 3 4 by presburger
  have "unat (BCD2BIN (bcd (y div 100 + 19))) = nat (y div 100 + 19)" using 1 2 by metis
  then have "19 < BCD2BIN (bcd (y div 100 + 19)) \<longleftrightarrow> 19 < nat (y div 100 + 19)"
    by (simp only: word_less_nat_alt) simp
  moreover have "\<not> 19 < nat (y div 100 + 19) \<Longrightarrow> y mod 100 = y"
    using assms by (simp add: nat_less_iff [symmetric] not_less)
  ultimately show "\<not> 19 < BCD2BIN (bcd (y div 100 + 19)) \<Longrightarrow> y mod 100 = y" by blast
qed

lemmas clock_simps = tm_ok_def and_norm bcd_and cent_parts

subsection \<open>Setting a clock and reading it back\<close>

definition clock_roundtrip :: "(tm \<Rightarrow> ('d, unit option) state) \<Rightarrow> (tm \<Rightarrow> ('d, tm option) state) \<Rightarrow> tm \<Rightarrow> tm \<Rightarrow> 'd \<Rightarrow> bool" where
  "clock_roundtrip st gt t t0 d \<longleftrightarrow>
     (case run_state (st t) d of
        (None, d1) \<Rightarrow> False
      | (Some _, d1) \<Rightarrow> (case run_state (gt t0) d1 of (None, d2) \<Rightarrow> False | (Some t1, d2) \<Rightarrow> same_time t1 t))"

lemma clock_roundtrip_sim:
  assumes "\<And>t. simulated view (st t) (st' t)" and "\<And>t. simulated view (gt t) (gt' t)"
    and "clock_roundtrip st' gt' t t0 (view d)"
  shows "clock_roundtrip st gt t t0 d"
proof -
  obtain r V1 where 1: "run_state (st' t) (view d) = (r, V1)" by fastforce
  obtain d1 where d1: "run_state (st t) d = (r, d1)" "view d1 = V1"
    using simulated_run [of view "st t" "st' t" d r V1] assms(1) 1 by blast
  obtain q V2 where 2: "run_state (gt' t0) V1 = (q, V2)" by fastforce
  obtain d2 where d2: "run_state (gt t0) d1 = (q, d2)"
    using simulated_run [of view "gt t0" "gt' t0" d1 q V2] assms(2) 2 d1(2) by blast
  show ?thesis
    using assms(3) 1 2 d1 d2 by (simp add: clock_roundtrip_def split: option.splits)
qed

text \<open>A century register that is none of the chip's own registers.\<close>

definition cent_ok :: "u32 list \<Rightarrow> int \<Rightarrow> bool" where
  "cent_ok regs c \<longleftrightarrow> c < 0 \<or> word_of_int c \<notin> set regs"

text \<open>The years a chip can keep with and without a century register.\<close>

definition tm_cent_ok :: "int \<Rightarrow> tm \<Rightarrow> bool" where
  "tm_cent_ok c t \<longleftrightarrow> (if c < 0 then tm_ok 70 170 t else tm_ok 0 200 t)"

end
