(* ===== verification/RtcChips.thy ===== *)
theory RtcChips
  imports Rtc
begin

section \<open>Clock chips behind 8-bit registers\<close>

text \<open>
  \<open>utils/r/rtc/clk_ds1386.c\<close>, \<open>clk_ds15x1.c\<close>, \<open>clk_ds1743.c\<close>, \<open>clk_m48t37.c\<close>,
  \<open>clk_rtc72423.c\<close>, \<open>clk_m48t5x.c\<close> and \<open>nto/arm/clk_s3c2400.c\<close>: the init, get and set
  functions of each chip over the operations \<open>chip_ops\<close>. \<open>nanosleep\<close> has no effect on the
  registers and is left out. A loop that waits for the chip has fuel; it returns \<open>None\<close> when the
  fuel runs out.
\<close>

abbreviation ok :: "('d, unit option) state" where
  "ok \<equiv> State_Monad.return (Some ())"

definition need_phys :: "access_type \<Rightarrow> int \<Rightarrow> int \<Rightarrow> chip_loc \<Rightarrow> int \<times> chip_loc" where
  "need_phys acc cent sz C =
     (if phys C = NIL_PADDR then (-1, C)
      else (sz, C\<lparr>century_reg := (if century_reg C = UNSET then cent else century_reg C),
                  chip_access := (if chip_access C = NONE then acc else chip_access C)\<rparr>))"

subsection \<open>DS1386\<close>

definition init_ds1386 :: "chip_loc \<Rightarrow> int \<times> chip_loc" where
  "init_ds1386 C = need_phys MEMMAPPED 0x0e 16 C"

definition get_ds1386 :: "'d chip_ops \<Rightarrow> int \<Rightarrow> tm \<Rightarrow> ('d, tm option) state" where
  "get_ds1386 P cent_reg t = do {
     c \<leftarrow> chip_read8 P 11;
     (if c AND 0x80 = 0 then do { c1 \<leftarrow> chip_read8 P 11; chip_write8 P 11 (c1 OR 0x80) } else State_Monad.return ());
     c2 \<leftarrow> chip_read8 P 11;
     chip_write8 P 11 (c2 AND NOT 0x80);
     sec \<leftarrow> chip_read8 P 1;
     min \<leftarrow> chip_read8 P 2;
     hour \<leftarrow> chip_read8 P 4;
     mday \<leftarrow> chip_read8 P 8;
     mon \<leftarrow> chip_read8 P 9;
     year \<leftarrow> chip_read8 P 10;
     t1 \<leftarrow> State_Monad.return (t\<lparr>tm_sec := sint (BCD2BIN sec), tm_min := sint (BCD2BIN min),
       tm_hour := sint (BCD2BIN (hour AND 0x3f)), tm_mday := sint (BCD2BIN mday),
       tm_mon := sint (BCD2BIN (mon AND 0x3f) - 1), tm_year := sint (BCD2BIN year)\<rparr>);
     t2 \<leftarrow> (if cent_reg \<ge> 0 then do {
         cent \<leftarrow> chip_read8 P (word_of_int cent_reg);
         State_Monad.return (if BCD2BIN cent = 20 then t1\<lparr>tm_year := tm_year t1 + 100\<rparr> else t1) }
       else State_Monad.return (if tm_year t1 < 70 then t1\<lparr>tm_year := tm_year t1 + 100\<rparr> else t1));
     c3 \<leftarrow> chip_read8 P 11;
     chip_write8 P 11 (c3 OR 0x80);
     State_Monad.return (Some t2) }"

definition set_ds1386 :: "'d chip_ops \<Rightarrow> int \<Rightarrow> tm \<Rightarrow> ('d, unit option) state" where
  "set_ds1386 P cent_reg t = do {
     m \<leftarrow> chip_read8 P 9;
     chip_write8 P 9 0;
     chip_write8 P 0 0;
     chip_write8 P 1 (bcd (tm_sec t));
     chip_write8 P 2 (bcd (tm_min t));
     chip_write8 P 4 (bcd (tm_hour t) OR 0);
     chip_write8 P 6 (word_of_int (tm_wday t + 1));
     chip_write8 P 8 (bcd (tm_mday t));
     chip_write8 P 10 (bcd (tm_year t smod 100));
     (if cent_reg \<ge> 0 then chip_write8 P (word_of_int cent_reg) (bcd (tm_year t sdiv 100 + 19)) else State_Monad.return ());
     chip_write8 P 9 ((bcd (tm_mon t + 1) OR (m AND 0x40)) AND 0x5f);
     c \<leftarrow> chip_read8 P 11;
     chip_write8 P 11 (c OR 0x80);
     ok }"

subsection \<open>DS15x1\<close>

definition init_ds15x1 :: "chip_loc \<Rightarrow> int \<times> chip_loc" where
  "init_ds15x1 C = need_phys MEMMAPPED 0x07 16 C"

definition get_ds15x1 :: "'d chip_ops \<Rightarrow> int \<Rightarrow> tm \<Rightarrow> ('d, tm option) state" where
  "get_ds15x1 P cent_reg t = do {
     ctrlb \<leftarrow> chip_read8 P 0x0f;
     (if ctrlb AND 0x80 = 0 then chip_write8 P 0x0f (ctrlb OR 0x80) else State_Monad.return ());
     chip_write8 P 0x0f (ctrlb AND NOT 0x80);
     sec \<leftarrow> chip_read8 P 0;
     min \<leftarrow> chip_read8 P 1;
     hour \<leftarrow> chip_read8 P 2;
     mday \<leftarrow> chip_read8 P 4;
     mon \<leftarrow> chip_read8 P 5;
     year \<leftarrow> chip_read8 P 6;
     t1 \<leftarrow> State_Monad.return (t\<lparr>tm_sec := sint (BCD2BIN sec), tm_min := sint (BCD2BIN min),
       tm_hour := sint (BCD2BIN hour), tm_mday := sint (BCD2BIN mday),
       tm_mon := sint (BCD2BIN (mon AND 0x1f) - 1), tm_year := sint (BCD2BIN year)\<rparr>);
     t2 \<leftarrow> (if cent_reg \<ge> 0 then do {
         cent \<leftarrow> chip_read8 P (word_of_int cent_reg);
         State_Monad.return (if cent = 0x20 then t1\<lparr>tm_year := tm_year t1 + 100\<rparr> else t1) }
       else State_Monad.return (if tm_year t1 < 70 then t1\<lparr>tm_year := tm_year t1 + 100\<rparr> else t1));
     chip_write8 P 0x0f (ctrlb OR 0x80);
     State_Monad.return (Some t2) }"

definition set_ds15x1 :: "'d chip_ops \<Rightarrow> int \<Rightarrow> tm \<Rightarrow> ('d, unit option) state" where
  "set_ds15x1 P cent_reg t = do {
     m \<leftarrow> chip_read8 P 5;
     ctrlb \<leftarrow> chip_read8 P 0x0f;
     chip_write8 P 0x0f (ctrlb AND NOT 0x80);
     chip_write8 P 0 (bcd (tm_sec t));
     chip_write8 P 1 (bcd (tm_min t));
     chip_write8 P 2 (bcd (tm_hour t));
     chip_write8 P 3 (word_of_int (tm_wday t + 1));
     chip_write8 P 4 (bcd (tm_mday t));
     chip_write8 P 5 (bcd (tm_mon t + 1) OR (m AND 0xe0));
     chip_write8 P 6 (bcd (tm_year t smod 100));
     (if cent_reg \<ge> 0 then chip_write8 P (word_of_int cent_reg) (bcd (tm_year t sdiv 100 + 19)) else State_Monad.return ());
     chip_write8 P 0x0f (ctrlb OR 0x80);
     ok }"

subsection \<open>DS1743\<close>

definition init_ds1743 :: "chip_loc \<Rightarrow> int \<times> chip_loc" where
  "init_ds1743 C = need_phys MEMMAPPED (century_reg C) 0x2000 C"

definition get_ds1743 :: "'d chip_ops \<Rightarrow> int \<Rightarrow> tm \<Rightarrow> ('d, tm option) state" where
  "get_ds1743 P cent_reg t = do {
     c \<leftarrow> chip_read8 P 0x1ff8;
     chip_write8 P 0x1ff8 (c OR 0x40);
     r \<leftarrow> chip_read8 P 0x1ff9;
     (if r AND 0x80 \<noteq> 0 then chip_write8 P 0x1ff9 (r AND NOT 0x80) else State_Monad.return ());
     r1 \<leftarrow> chip_read8 P 0x1ffc;
     (if r1 AND 0x40 \<noteq> 0 then chip_write8 P 0x1ffc (r1 AND NOT 0x40) else State_Monad.return ());
     sec \<leftarrow> chip_read8 P 0x1ff9;
     min \<leftarrow> chip_read8 P 0x1ffa;
     hour \<leftarrow> chip_read8 P 0x1ffb;
     mday \<leftarrow> chip_read8 P 0x1ffd;
     mon \<leftarrow> chip_read8 P 0x1ffe;
     year \<leftarrow> chip_read8 P 0x1fff;
     cent \<leftarrow> chip_read8 P 0x1ff8;
     c1 \<leftarrow> chip_read8 P 0x1ff8;
     chip_write8 P 0x1ff8 (c1 AND NOT 0x40);
     State_Monad.return (Some (t\<lparr>tm_sec := sint (BCD2BIN (sec AND 0x7f)), tm_min := sint (BCD2BIN (min AND 0x7f)),
       tm_hour := sint (BCD2BIN (hour AND 0x3f)), tm_mday := sint (BCD2BIN (mday AND 0x3f)),
       tm_mon := sint (BCD2BIN (mon AND 0x1f) - 1),
       tm_year := sint (BCD2BIN year + (BCD2BIN (cent AND 0x3f) - 19) * 100)\<rparr>)) }"

definition set_ds1743 :: "'d chip_ops \<Rightarrow> int \<Rightarrow> tm \<Rightarrow> ('d, unit option) state" where
  "set_ds1743 P cent_reg t = do {
     c \<leftarrow> chip_read8 P 0x1ff8;
     chip_write8 P 0x1ff8 (c OR 0x80);
     chip_write8 P 0x1ff9 (bcd (tm_sec t));
     chip_write8 P 0x1ffa (bcd (tm_min t));
     chip_write8 P 0x1ffb (bcd (tm_hour t));
     chip_write8 P 0x1ffd (bcd (tm_mday t));
     chip_write8 P 0x1ffe (bcd (tm_mon t + 1));
     chip_write8 P 0x1fff (bcd (tm_year t smod 100));
     chip_write8 P 0x1ff8 (bcd (tm_year t sdiv 100 + 19));
     c1 \<leftarrow> chip_read8 P 0x1ff8;
     chip_write8 P 0x1ff8 (c1 AND NOT 0x80);
     ok }"

subsection \<open>M48T37\<close>

definition init_m48t37 :: "chip_loc \<Rightarrow> int \<times> chip_loc" where
  "init_m48t37 C = need_phys MEMMAPPED (-1) 0x8000 C"

text \<open>The registers are read until the seconds did not change meanwhile.\<close>

primrec read_m48t37 :: "nat \<Rightarrow> 'd chip_ops \<Rightarrow> int \<Rightarrow> ('d, (u32 \<times> u32 \<times> u32 \<times> u32 \<times> u32 \<times> u32 \<times> u32) option) state" where
  "read_m48t37 0 P cent_reg = State_Monad.return None"
| "read_m48t37 (Suc fuel) P cent_reg = do {
     sec \<leftarrow> chip_read8 P 0x7ff9;
     min \<leftarrow> chip_read8 P 0x7ffa;
     hour \<leftarrow> chip_read8 P 0x7ffb;
     mday \<leftarrow> chip_read8 P 0x7ffd;
     mon \<leftarrow> chip_read8 P 0x7ffe;
     year \<leftarrow> chip_read8 P 0x7fff;
     cent \<leftarrow> (if cent_reg \<ge> 0 then chip_read8 P (0x7ff0 + word_of_int cent_reg) else State_Monad.return 0);
     sec1 \<leftarrow> chip_read8 P 0x7ff9;
     (if sec \<noteq> sec1 then read_m48t37 fuel P cent_reg
      else State_Monad.return (Some (sec, min, hour, mday, mon, year, cent))) }"

definition get_m48t37 :: "nat \<Rightarrow> 'd chip_ops \<Rightarrow> int \<Rightarrow> tm \<Rightarrow> ('d, tm option) state" where
  "get_m48t37 fuel P cent_reg t = do {
     r \<leftarrow> read_m48t37 fuel P cent_reg;
     State_Monad.return (case r of None \<Rightarrow> None | Some (sec, mins, hour, mday, mon, year, cent) \<Rightarrow>
       let t1 = t\<lparr>tm_sec := sint (BCD2BIN (sec AND NOT 0x80)), tm_min := sint (BCD2BIN mins),
             tm_hour := sint (BCD2BIN hour), tm_mday := sint (BCD2BIN mday),
             tm_mon := sint (BCD2BIN mon - 1), tm_year := sint (BCD2BIN year)\<rparr>
       in Some (if cent_reg \<ge> 0
                then if BCD2BIN cent > 19 then t1\<lparr>tm_year := tm_year t1 + sint ((BCD2BIN cent - 19) * 100)\<rparr> else t1
                else if tm_year t1 < 70 then t1\<lparr>tm_year := tm_year t1 + 100\<rparr> else t1)) }"

definition set_m48t37 :: "'d chip_ops \<Rightarrow> int \<Rightarrow> tm \<Rightarrow> ('d, unit option) state" where
  "set_m48t37 P cent_reg t = do {
     control \<leftarrow> chip_read8 P 0x7ff8;
     chip_write8 P 0x7ff8 (control OR 0x80);
     chip_write8 P 0x7ff9 (bcd (tm_sec t));
     chip_write8 P 0x7ffa (bcd (tm_min t));
     chip_write8 P 0x7ffb (bcd (tm_hour t));
     chip_write8 P 0x7ffd (bcd (tm_mday t));
     chip_write8 P 0x7ffe (bcd (tm_mon t + 1));
     chip_write8 P 0x7fff (bcd (tm_year t smod 100));
     (if cent_reg \<ge> 0 then chip_write8 P (0x7ff0 + word_of_int cent_reg) (bcd (tm_year t sdiv 100 + 19))
      else State_Monad.return ());
     chip_write8 P 0x7ff8 (control AND NOT 0x80);
     ok }"

subsection \<open>RTC72423\<close>

definition init_rtc72423 :: "chip_loc \<Rightarrow> int \<times> chip_loc" where
  "init_rtc72423 C = need_phys IOMAPPED (century_reg C) 16 C"

primrec hold_rtc72423 :: "nat \<Rightarrow> 'd chip_ops \<Rightarrow> ('d, bool) state" where
  "hold_rtc72423 0 P = State_Monad.return False"
| "hold_rtc72423 (Suc fuel) P = do {
     d \<leftarrow> chip_read8 P 0xd;
     (if d AND 0x20 \<noteq> 0
      then do { chip_write8 P 0xd 0; chip_write8 P 0xd 0x10; hold_rtc72423 fuel P }
      else State_Monad.return True) }"

definition digits :: "'d chip_ops \<Rightarrow> u32 \<Rightarrow> ('d, u32) state" where
  "digits P r = do {
     h \<leftarrow> chip_read8 P (r + 1);
     l \<leftarrow> chip_read8 P r;
     State_Monad.return (push_bit 4 h OR l) }"

definition get_rtc72423 :: "nat \<Rightarrow> 'd chip_ops \<Rightarrow> int \<Rightarrow> tm \<Rightarrow> ('d, tm option) state" where
  "get_rtc72423 fuel P cent_reg t = do {
     chip_write8 P 0xd 0x10;
     held \<leftarrow> hold_rtc72423 fuel P;
     (if held then do {
        seconds \<leftarrow> digits P 0;
        minutes \<leftarrow> digits P 2;
        h10 \<leftarrow> chip_read8 P 5;
        h1 \<leftarrow> chip_read8 P 4;
        day \<leftarrow> digits P 6;
        month \<leftarrow> digits P 8;
        year \<leftarrow> digits P 10;
        chip_write8 P 0xd 0;
        (let y = sint (BCD2BIN year)
         in State_Monad.return (Some (t\<lparr>tm_sec := sint (BCD2BIN seconds), tm_min := sint (BCD2BIN minutes),
              tm_hour := sint (BCD2BIN (push_bit 4 (h10 AND 3) OR h1)), tm_mday := sint (BCD2BIN day),
              tm_mon := sint (BCD2BIN month - 1), tm_year := (if y < 70 then y + 100 else y)\<rparr>))) }
      else State_Monad.return None) }"

definition set_rtc72423 :: "'d chip_ops \<Rightarrow> int \<Rightarrow> tm \<Rightarrow> ('d, unit option) state" where
  "set_rtc72423 P cent_reg t = do {
     chip_write8 P 0xf 0x70;
     chip_write8 P 0 (bcd (tm_sec t));
     chip_write8 P 1 (drop_bit 4 (bcd (tm_sec t)));
     chip_write8 P 2 (bcd (tm_min t));
     chip_write8 P 3 (drop_bit 4 (bcd (tm_min t)));
     chip_write8 P 4 (bcd (tm_hour t));
     chip_write8 P 5 (drop_bit 4 (bcd (tm_hour t)));
     chip_write8 P 6 (bcd (tm_mday t));
     chip_write8 P 7 (drop_bit 4 (bcd (tm_mday t)));
     chip_write8 P 8 (bcd (tm_mon t + 1));
     chip_write8 P 9 (drop_bit 4 (bcd (tm_mon t + 1)));
     chip_write8 P 10 (bcd (tm_year t smod 100));
     chip_write8 P 11 (drop_bit 4 (bcd (tm_year t smod 100)));
     chip_write8 P 0xe 0;
     chip_write8 P 0xd 0;
     chip_write8 P 0xf 0x40;
     ok }"

subsection \<open>Chips behind an index register: M48T5x and MC146818\<close>

text \<open>
  \<open>rdcmos\<close> and \<open>wrcmos\<close> of \<open>clk_m48t5x.c\<close> put the address into ports 0 and 1 and the data
  through port 3; \<open>cmos\<close> and \<open>cmos_set\<close> of \<open>clk_mc146818.c\<close> use port 0 for the index and
  port 1 for the data. As register operations they are \<open>chip_ops\<close> of their own.
\<close>

definition rdcmos :: "'d chip_ops \<Rightarrow> u32 \<Rightarrow> ('d, u32) state" where
  "rdcmos P i = do {
     chip_write8 P 0 (i AND 0xff);
     chip_write8 P 1 (drop_bit 8 i AND 0xff);
     chip_read8 P 3 }"

definition wrcmos :: "'d chip_ops \<Rightarrow> u32 \<Rightarrow> u32 \<Rightarrow> ('d, unit) state" where
  "wrcmos P i d = do {
     chip_write8 P 0 i;
     chip_write8 P 1 d;
     chip_write8 P 0 (i AND 0xff);
     chip_write8 P 1 (drop_bit 8 i AND 0xff);
     chip_write8 P 3 d }"

definition m48t5x_ops :: "'d chip_ops \<Rightarrow> 'd chip_ops" where
  "m48t5x_ops P = \<lparr>chip_rd = (\<lambda>i sz. rdcmos P i), chip_wr = (\<lambda>i d sz. wrcmos P i d)\<rparr>"

definition init_m48t5x :: "chip_loc \<Rightarrow> int \<times> chip_loc" where
  "init_m48t5x C = need_phys MEMMAPPED (-1) 4 C"

primrec read_m48t5x :: "nat \<Rightarrow> 'd chip_ops \<Rightarrow> ('d, (u32 \<times> u32 \<times> u32 \<times> u32 \<times> u32 \<times> u32) option) state" where
  "read_m48t5x 0 P = State_Monad.return None"
| "read_m48t5x (Suc fuel) P = do {
     sec \<leftarrow> chip_read8 P 0x1ff9;
     mins \<leftarrow> chip_read8 P 0x1ffa;
     hour \<leftarrow> chip_read8 P 0x1ffb;
     mday \<leftarrow> chip_read8 P 0x1ffd;
     mon \<leftarrow> chip_read8 P 0x1ffe;
     year \<leftarrow> chip_read8 P 0x1fff;
     sec1 \<leftarrow> chip_read8 P 0x1ff9;
     (if sec \<noteq> sec1 then read_m48t5x fuel P else State_Monad.return (Some (sec, mins, hour, mday, mon, year))) }"

text \<open>\<open>P\<close> are here the operations \<open>m48t5x_ops\<close> of the chip's ports.\<close>

definition get_m48t5x :: "nat \<Rightarrow> 'd chip_ops \<Rightarrow> int \<Rightarrow> tm \<Rightarrow> ('d, tm option) state" where
  "get_m48t5x fuel P cent_reg t = do {
     r \<leftarrow> read_m48t5x fuel P;
     (case r of None \<Rightarrow> State_Monad.return None | Some p \<Rightarrow>
        (let (sec, mins, hour, mday, mon, year) = p
         in let t1 = t\<lparr>tm_sec := sint (BCD2BIN (sec AND NOT 0x80)), tm_min := sint (BCD2BIN mins),
                 tm_hour := sint (BCD2BIN hour), tm_mday := sint (BCD2BIN mday),
                 tm_mon := sint (BCD2BIN mon - 1), tm_year := sint (BCD2BIN year)\<rparr>
           in if cent_reg \<ge> 0
              then do {
                cent \<leftarrow> chip_read8 P (word_of_int cent_reg);
                State_Monad.return (Some (if BCD2BIN cent = 20 then t1\<lparr>tm_year := tm_year t1 + 100\<rparr> else t1)) }
              else State_Monad.return (Some (if tm_year t1 < 70 then t1\<lparr>tm_year := tm_year t1 + 100\<rparr> else t1)))) }"

definition set_m48t5x :: "'d chip_ops \<Rightarrow> int \<Rightarrow> tm \<Rightarrow> ('d, unit option) state" where
  "set_m48t5x P cent_reg t = do {
     control \<leftarrow> chip_read8 P 0x1ff8;
     chip_write8 P 0x1ff8 (control OR 0x80);
     chip_write8 P 0x1ff9 (bcd (tm_sec t));
     chip_write8 P 0x1ffa (bcd (tm_min t));
     chip_write8 P 0x1ffb (bcd (tm_hour t));
     chip_write8 P 0x1ffd (bcd (tm_mday t));
     chip_write8 P 0x1ffe (bcd (tm_mon t + 1));
     chip_write8 P 0x1fff (bcd (tm_year t smod 100));
     (if cent_reg \<ge> 0 then chip_write8 P (word_of_int cent_reg) (bcd (tm_year t sdiv 100 + 19)) else State_Monad.return ());
     chip_write8 P 0x1ff8 (control AND NOT 0x80);
     ok }"

definition cmos :: "'d chip_ops \<Rightarrow> u32 \<Rightarrow> ('d, u32) state" where
  "cmos P i = do { chip_write8 P 0 i; chip_read8 P 1 }"

definition cmos_set :: "'d chip_ops \<Rightarrow> u32 \<Rightarrow> u32 \<Rightarrow> ('d, unit) state" where
  "cmos_set P i d = do { chip_write8 P 0 i; chip_write8 P 1 d }"

definition init_mc146818 :: "chip_loc \<Rightarrow> int \<times> chip_loc" where
  "init_mc146818 C = need_phys IOMAPPED (century_reg C) 2 C"

text \<open>
  The waiting loops of \<open>get_mc146818\<close>: until bit 7 of register A is set (at most twice
  \<open>CMOS_CNT\<close> reads), until it is clear (at most \<open>CMOS_CNT\<close> reads), and until two successive
  readings agree (no bound in the source: fuel).
\<close>

primrec uip_on :: "nat \<Rightarrow> 'd chip_ops \<Rightarrow> u32 \<Rightarrow> ('d, u32) state" where
  "uip_on 0 P x = State_Monad.return x"
| "uip_on (Suc count) P x =
     (if x AND 0x80 = 0 then do { x1 \<leftarrow> cmos P 0x0a; uip_on count P x1 } else State_Monad.return x)"

primrec uip_off :: "nat \<Rightarrow> 'd chip_ops \<Rightarrow> u32 \<Rightarrow> ('d, bool) state" where
  "uip_off 0 P x = State_Monad.return False"
| "uip_off (Suc count) P x =
     (if x AND 0x80 \<noteq> 0
      then (if count = 0 then do { cmos P 0x0a; State_Monad.return False } else do { x1 \<leftarrow> cmos P 0x0a; uip_off count P x1 })
      else State_Monad.return True)"

definition CMOS_CNT :: nat where
  "CMOS_CNT = 0xffff"

definition read_clk :: "'d chip_ops \<Rightarrow> int \<Rightarrow> ('d, u32 list \<times> u32) state" where
  "read_clk P cent_reg = do {
     sec \<leftarrow> cmos P 0;
     mins \<leftarrow> cmos P 2;
     hour \<leftarrow> cmos P 4;
     day \<leftarrow> cmos P 7;
     mon \<leftarrow> cmos P 8;
     year \<leftarrow> cmos P 9;
     cent \<leftarrow> (if cent_reg \<ge> 0 then cmos P (word_of_int cent_reg) else State_Monad.return 0);
     x \<leftarrow> cmos P 0x0b;
     State_Monad.return ([sec, mins, hour, day, mon, year, cent], x) }"

primrec stable_clk :: "nat \<Rightarrow> 'd chip_ops \<Rightarrow> int \<Rightarrow> u32 list \<Rightarrow> ('d, (u32 list \<times> u32) option) state" where
  "stable_clk 0 P cent_reg prev = State_Monad.return None"
| "stable_clk (Suc fuel) P cent_reg prev = do {
     off \<leftarrow> uip_off CMOS_CNT P 0x80;
     (if \<not> off then State_Monad.return None
      else do {
        r \<leftarrow> read_clk P cent_reg;
        (if fst r = prev then State_Monad.return (Some r) else stable_clk fuel P cent_reg (fst r)) }) }"

definition clk_fields :: "u32 list \<Rightarrow> u32 \<Rightarrow> u32 list" where
  "clk_fields b x = (if x AND 4 = 0
     then [BCD2BIN (b ! 0), BCD2BIN (b ! 1), BCD2BIN (b ! 2 AND 0x7f), BCD2BIN (b ! 3), BCD2BIN (b ! 4),
           BCD2BIN (b ! 5), BCD2BIN (b ! 6)]
     else b)"

definition get_mc146818 :: "nat \<Rightarrow> 'd chip_ops \<Rightarrow> int \<Rightarrow> tm \<Rightarrow> ('d, tm option) state" where
  "get_mc146818 fuel P cent_reg t = do {
     x \<leftarrow> cmos P 0x0a;
     usable \<leftarrow> (if x AND 0x60 \<noteq> 0x20
       then do {
         chip_write8 P 1 (x OR 0x60);
         y \<leftarrow> cmos P 0x0a;
         (if y AND 0x60 \<noteq> 0 then do { chip_write8 P 1 x; State_Monad.return False } else State_Monad.return True) }
       else State_Monad.return True);
     (if \<not> usable then State_Monad.return None
      else do {
        x1 \<leftarrow> uip_on CMOS_CNT P 0;
        (if x1 AND 0x80 = 0 then uip_on CMOS_CNT P x1 else State_Monad.return x1);
        r \<leftarrow> stable_clk fuel P cent_reg (replicate 7 0);
        (case r of None \<Rightarrow> State_Monad.return None | Some p \<Rightarrow>
           State_Monad.return (Some (
             let b = fst p; x = snd p; f = clk_fields b x;
                 hour = sint (f ! 2 AND 0x7f); year = sint (f ! 5)
             in t\<lparr>tm_sec := sint (f ! 0), tm_min := sint (f ! 1),
                  tm_hour := (if x AND 2 = 0 \<and> b ! 2 AND 0x80 \<noteq> 0 then hour + 12 else hour),
                  tm_mday := sint (f ! 3), tm_mon := sint (f ! 4 - 1),
                  tm_year := (if cent_reg \<ge> 0 then if f ! 6 \<noteq> 0 then year + 100 else year
                              else if year < 70 then year + 100 else year)\<rparr>))) }) }"

text \<open>A number as the chip keeps it, in binary or in BCD (\<open>seconds\<close> and the others are unsigned).\<close>

definition at_enc :: "bool \<Rightarrow> int \<Rightarrow> u32" where
  "at_enc bin n = (if bin then word_of_int n else bcd (uint (word_of_int n :: u32)))"

definition set_mc146818 :: "'d chip_ops \<Rightarrow> int \<Rightarrow> tm \<Rightarrow> ('d, unit option) state" where
  "set_mc146818 P cent_reg t = do {
     x \<leftarrow> cmos P 0x0a;
     cmos_set P 0x0a ((x AND 0xf) OR 0x20);
     x1 \<leftarrow> cmos P 0x0b;
     x2 \<leftarrow> State_Monad.return (x1 OR 0x82);
     cmos_set P 0x0b x2;
     enc \<leftarrow> State_Monad.return (at_enc (x2 AND 4 \<noteq> 0));
     cmos_set P 7 (enc (tm_mday t));
     cmos_set P 8 (enc (tm_mon t + 1));
     cmos_set P 9 (enc (tm_year t smod 100));
     (if cent_reg \<ge> 0 then cmos_set P (word_of_int cent_reg) (enc (tm_year t sdiv 100 + 19)) else State_Monad.return ());
     cmos_set P 4 (enc (tm_hour t));
     cmos_set P 2 (enc (tm_min t));
     cmos_set P 0 (enc (tm_sec t));
     cmos_set P 0x0b (x2 AND NOT 0x80);
     ok }"

context reg_bus begin

lemma chip8_sims [sim_intros]:
  assumes "sz = 8" and "reg_ok r"
  shows "simulated view (chip_read8 P r) (chip_read8 reg_file r)"
    "simulated view (chip_write8 P r v) (chip_write8 reg_file r v)"
  using rd_sim wr_sim assms by (simp_all add: chip_read8_def chip_write8_def)

end

lemma ds1386_reg:
  assumes "tm_cent_ok c t" and "cent_ok [0, 1, 2, 4, 6, 8, 9, 10, 11] c"
  shows "clock_roundtrip (set_ds1386 reg_file c) (get_ds1386 reg_file c) t t0 V"
  using assms
  by (auto simp: clock_roundtrip_def set_ds1386_def get_ds1386_def same_time_def tm_cent_ok_def
     cent_ok_def clock_simps split: if_splits intro: year_facts)

lemma ds15x1_reg:
  assumes "tm_cent_ok c t" and "cent_ok [0, 1, 2, 3, 4, 5, 6, 15] c"
  shows "clock_roundtrip (set_ds15x1 reg_file c) (get_ds15x1 reg_file c) t t0 V"
  using assms
  by (auto simp: clock_roundtrip_def set_ds15x1_def get_ds15x1_def same_time_def tm_cent_ok_def
     cent_ok_def clock_simps split: if_splits intro: year_facts)

lemma ds1743_reg:
  assumes "tm_ok 0 2100 t"
  shows "clock_roundtrip (set_ds1743 reg_file c) (get_ds1743 reg_file c) t t0 V"
  using assms
  by (auto simp: clock_roundtrip_def set_ds1743_def get_ds1743_def same_time_def
      clock_simps split: if_splits intro: year_facts)

lemma m48t37_reg:
  assumes "if c < 0 then tm_ok 70 170 t else tm_ok 0 8100 t"
    and "c < 0 \<or> 0x7ff0 + word_of_int c \<notin> set [0x7ff8, 0x7ff9, 0x7ffa, 0x7ffb, 0x7ffd, 0x7ffe, 0x7fff :: u32]"
  shows "clock_roundtrip (set_m48t37 reg_file c) (get_m48t37 (Suc n) reg_file c) t t0 V"
proof -
  define r :: u32 where "r = 0x7ff0 + word_of_int c"
  show ?thesis
    using assms unfolding clock_roundtrip_def set_m48t37_def get_m48t37_def read_m48t37.simps r_def [symmetric]
    by (auto simp: same_time_def Let_def clock_simps split: if_splits intro: year_facts)
qed

lemma nibbles: "(push_bit 4 (drop_bit 4 x) AND m) OR x = x" for x :: u32
  by (rule bit_word_eqI) (auto simp: bit_simps)

lemma rtc72423_reg:
  assumes "tm_ok 70 170 t"
  shows "clock_roundtrip (set_rtc72423 reg_file c) (get_rtc72423 (Suc n) reg_file c) t t0 V"
  using assms
  by (auto simp: clock_roundtrip_def set_rtc72423_def get_rtc72423_def same_time_def Let_def digits_def nibbles
      clock_simps split: if_splits intro: year_facts)

lemma m48t5x_reg:
  assumes "tm_cent_ok c t" and "cent_ok [0x1ff8, 0x1ff9, 0x1ffa, 0x1ffb, 0x1ffd, 0x1ffe, 0x1fff] c"
  shows "clock_roundtrip (set_m48t5x reg_file c) (get_m48t5x (Suc n) reg_file c) t t0 V"
  using assms
  by (auto simp: clock_roundtrip_def set_m48t5x_def get_m48t5x_def same_time_def Let_def tm_cent_ok_def cent_ok_def
      clock_simps split: if_splits intro: year_facts)

context reg_bus begin

lemma read_sims:
  assumes "sz = 8" and "\<And>r. reg_ok r"
  shows "simulated view (read_m48t37 n P c) (read_m48t37 n reg_file c)"
    "simulated view (hold_rtc72423 n P) (hold_rtc72423 n reg_file)"
    "simulated view (digits P r) (digits reg_file r)"
proof -
  show "simulated view (read_m48t37 n P c) (read_m48t37 n reg_file c)"
    by (induction n; simp only: read_m48t37.simps; (intro sim_intros assms | assumption)+)
  show "simulated view (hold_rtc72423 n P) (hold_rtc72423 n reg_file)"
    by (induction n; simp only: hold_rtc72423.simps; (intro sim_intros assms | assumption)+)
  show "simulated view (digits P r) (digits reg_file r)"
    unfolding digits_def by (intro sim_intros assms)
qed

lemma chip_sims:
  assumes "sz = 8" and "\<And>r. reg_ok r"
  shows "simulated view (set_ds1386 P c t) (set_ds1386 reg_file c t)"
    "simulated view (get_ds1386 P c t) (get_ds1386 reg_file c t)"
    "simulated view (set_ds15x1 P c t) (set_ds15x1 reg_file c t)"
    "simulated view (get_ds15x1 P c t) (get_ds15x1 reg_file c t)"
    "simulated view (set_ds1743 P c t) (set_ds1743 reg_file c t)"
    "simulated view (get_ds1743 P c t) (get_ds1743 reg_file c t)"
    "simulated view (set_m48t37 P c t) (set_m48t37 reg_file c t)"
    "simulated view (get_m48t37 n P c t) (get_m48t37 n reg_file c t)"
    "simulated view (set_rtc72423 P c t) (set_rtc72423 reg_file c t)"
    "simulated view (get_rtc72423 n P c t) (get_rtc72423 n reg_file c t)"
  unfolding set_ds1386_def get_ds1386_def set_ds15x1_def get_ds15x1_def set_ds1743_def get_ds1743_def
    set_m48t37_def get_m48t37_def set_rtc72423_def get_rtc72423_def
  by (intro sim_intros read_sims assms)+

text \<open>The M48T5x has 16 address bits.\<close>

lemma m48t5x_sims:
  assumes "sz = 8" and "\<And>r. r < 0x10000 \<Longrightarrow> reg_ok r" and "c < 0 \<or> word_of_int c < (0x10000 :: u32)"
  shows "simulated view (set_m48t5x P c t) (set_m48t5x reg_file c t)"
    "simulated view (get_m48t5x n P c t) (get_m48t5x n reg_file c t)"
proof -
  have ok: "reg_ok 0x1ff8" "reg_ok 0x1ff9" "reg_ok 0x1ffa" "reg_ok 0x1ffb" "reg_ok 0x1ffd" "reg_ok 0x1ffe" "reg_ok 0x1fff"
    by (rule assms(2), simp)+
  have okc: "0 \<le> c \<Longrightarrow> reg_ok (word_of_int c)" using assms(2,3) by auto
  have r: "simulated view (read_m48t5x n P) (read_m48t5x n reg_file)"
    by (induction n; simp only: read_m48t5x.simps; (intro sim_intros assms(1) ok | assumption)+)
  show "simulated view (set_m48t5x P c t) (set_m48t5x reg_file c t)"
    unfolding set_m48t5x_def by (intro sim_intros assms(1) ok okc)
  show "simulated view (get_m48t5x n P c t) (get_m48t5x n reg_file c t)"
    unfolding get_m48t5x_def by (intro sim_intros assms(1) ok okc r)
qed

end

subsection \<open>A memory behind two address ports\<close>

text \<open>The ports of the M48T5x: address bytes at 0 and 1, data at 3.\<close>

definition latch_rd :: "u32 \<Rightarrow> nat \<Rightarrow> ((u32 \<times> u32) \<times> (u32 \<Rightarrow> u32), u32) state" where
  "latch_rd r sz = State (\<lambda>((lo, hi), m).
     (if r = 3 then take_bit 8 (m (lo OR push_bit 8 hi)) else if r = 0 then lo else if r = 1 then hi else 0, ((lo, hi), m)))"

definition latch_wr :: "u32 \<Rightarrow> u32 \<Rightarrow> nat \<Rightarrow> ((u32 \<times> u32) \<times> (u32 \<Rightarrow> u32), unit) state" where
  "latch_wr r v sz = State (\<lambda>((lo, hi), m). ((),
     if r = 0 then ((take_bit 8 v, hi), m) else if r = 1 then ((lo, take_bit 8 v), m)
     else if r = 3 then ((lo, hi), m(lo OR push_bit 8 hi := take_bit 8 v)) else ((lo, hi), m)))"

definition latch_ops :: "((u32 \<times> u32) \<times> (u32 \<Rightarrow> u32)) chip_ops" where
  "latch_ops = \<lparr>chip_rd = latch_rd, chip_wr = latch_wr\<rparr>"

lemma two_bytes: "r < 0x10000 \<Longrightarrow> (r AND 0xff) OR (push_bit 8 (drop_bit 8 r) AND 0xff00) = r" for r :: u32
proof -
  assume "r < 0x10000"
  then have "take_bit 16 r = r" by (intro take_bit_small) (simp add: word_less_nat_alt)
  moreover have "(r AND 0xff) OR (push_bit 8 (drop_bit 8 r) AND push_bit 8 0xff) = take_bit 16 r"
    unfolding push_bit_and [symmetric] and_mask_take by (rule bit_word_eqI) (auto simp: bit_simps)
  moreover have "push_bit 8 0xff = (0xff00 :: u32)" by simp
  ultimately show ?thesis by simp
qed

lemma take8_idem: "take_bit 8 (x AND 0xff) = x AND 0xff" "take_bit 8 x AND 0xff = x AND 0xff" for x :: u32
  by (simp_all add: take8 and_norm)

interpretation lt: reg_bus "m48t5x_ops latch_ops" snd 8 "\<lambda>r. r < 0x10000"
proof unfold_locales
  fix off val :: u32
  assume "off < 0x10000"
  note b = two_bytes [OF this]
  show "simulated snd (chip_rd (m48t5x_ops latch_ops) off 8) (reg_rd off 8)"
    by (auto simp: simulated_def m48t5x_ops_def rdcmos_def reg_rd_def chip_read8_def chip_write8_def
        latch_ops_def latch_rd_def latch_wr_def take8_idem b)
  show "simulated snd (chip_wr (m48t5x_ops latch_ops) off val 8) (reg_wr off val 8)"
    by (auto simp: simulated_def m48t5x_ops_def wrcmos_def reg_wr_def chip_read8_def chip_write8_def
        latch_ops_def latch_rd_def latch_wr_def take8_idem b)
qed

subsection \<open>Properties\<close>

definition ex_tm :: tm where
  "ex_tm = \<lparr>tm_sec = 59, tm_min = 30, tm_hour = 23, tm_mday = 31, tm_mon = 11, tm_year = 99, tm_wday = 5\<rparr>"

lemma ex_tm_ok: "tm_ok 70 170 ex_tm" "tm_ok 0 200 ex_tm" "tm_ok 0 2100 ex_tm" "tm_ok 0 8100 ex_tm"
  by (simp_all add: ex_tm_def tm_ok_def)

text \<open>C12: on any bus whose registers keep what is written, reading a DS1386 or DS15x1 after
  setting it gives the same date and time: for the years 1900 to 2099 with a century register
  (one that is none of the chip's own), and 1970 to 2069 without.\<close>

theorem ds1386_ds15x1_roundtrip:
  assumes "reg_bus P view 8 (\<lambda>_. True)" and "tm_cent_ok c t"
    and "cent_ok [0, 1, 2, 3, 4, 5, 6, 8, 9, 10, 11, 15] c"
  shows "clock_roundtrip (set_ds1386 P c) (get_ds1386 P c) t t0 d \<and>
    clock_roundtrip (set_ds15x1 P c) (get_ds15x1 P c) t t0 d"
proof -
  note s = reg_bus.chip_sims [OF assms(1) refl TrueI]
  have c: "cent_ok [0, 1, 2, 4, 6, 8, 9, 10, 11] c" "cent_ok [0, 1, 2, 3, 4, 5, 6, 15] c"
    using assms(3) by (auto simp: cent_ok_def)
  show ?thesis
    using clock_roundtrip_sim [OF s(1,2) ds1386_reg [OF assms(2) c(1)]]
      clock_roundtrip_sim [OF s(3,4) ds15x1_reg [OF assms(2) c(2)]] by simp
qed

lemma ds1386_ds15x1_roundtrip_witness:
  "clock_roundtrip (set_ds1386 (real_ops mem_bus (mem_chip 0x8000)) 0x0d)
     (get_ds1386 (real_ops mem_bus (mem_chip 0x8000)) 0x0d) ex_tm ex_tm (\<lambda>_. 0xff)"
proof -
  have "tm_cent_ok 0x0d ex_tm" "cent_ok [0, 1, 2, 3, 4, 5, 6, 8, 9, 10, 11, 15] 0x0d"
    by (simp_all add: tm_cent_ok_def ex_tm_ok cent_ok_def)
  from ds1386_ds15x1_roundtrip [OF mm8.reg_bus_axioms this] show ?thesis by blast
qed

text \<open>The DS1743 has its own century bits: the years 1900 to 3999.\<close>

lemma ds1743_roundtrip:
  assumes "reg_bus P view 8 (\<lambda>_. True)" and "tm_ok 0 2100 t"
  shows "clock_roundtrip (set_ds1743 P c) (get_ds1743 P c) t t0 d"
  using clock_roundtrip_sim [OF reg_bus.chip_sims(5,6) [OF assms(1) refl TrueI] ds1743_reg [OF assms(2)]] .

lemma ds1743_roundtrip_witness:
  "clock_roundtrip (set_ds1743 (real_ops mem_bus (mem_chip 0x8000)) 0)
     (get_ds1743 (real_ops mem_bus (mem_chip 0x8000)) 0) ex_tm ex_tm (\<lambda>_. 0xff)"
  by (rule ds1743_roundtrip [OF mm8.reg_bus_axioms ex_tm_ok(3)])

text \<open>C14: the same for the M48T37 (years 1900 to 9999 with a century register) and, through its
  address ports, the M48T5x. Both return after the first reading when the registers do not change
  meanwhile.\<close>

theorem m48t_roundtrip:
  assumes "reg_bus P view 8 (\<lambda>_. True)" and "if c < 0 then tm_ok 70 170 t else tm_ok 0 8100 t"
    and "c < 0 \<or> 0x7ff0 + word_of_int c \<notin> set [0x7ff8, 0x7ff9, 0x7ffa, 0x7ffb, 0x7ffd, 0x7ffe, 0x7fff :: u32]"
    and "reg_bus (m48t5x_ops Q) view' 8 (\<lambda>r. r < 0x10000)" and "tm_cent_ok c' t'"
    and "c' < 0 \<or> word_of_int c' < (0x1ff8 :: u32)"
  shows "clock_roundtrip (set_m48t37 P c) (get_m48t37 (Suc n) P c) t t0 d \<and>
    clock_roundtrip (set_m48t5x (m48t5x_ops Q) c') (get_m48t5x (Suc n) (m48t5x_ops Q) c') t' t0 d'"
proof -
  have c': "cent_ok [0x1ff8, 0x1ff9, 0x1ffa, 0x1ffb, 0x1ffd, 0x1ffe, 0x1fff] c'"
    "c' < 0 \<or> word_of_int c' < (0x10000 :: u32)"
    using assms(6) order.strict_trans [of "word_of_int c'" "0x1ff8 :: u32" "0x10000"]
    by (auto simp: cent_ok_def)
  show ?thesis
    using clock_roundtrip_sim [OF reg_bus.chip_sims(7,8) [OF assms(1) refl TrueI] m48t37_reg [OF assms(2,3)]]
      clock_roundtrip_sim [OF reg_bus.m48t5x_sims [OF assms(4) refl _ c'(2)] m48t5x_reg [OF assms(5) c'(1)]]
    by blast
qed

lemma m48t_roundtrip_witness:
  "clock_roundtrip (set_m48t37 (real_ops mem_bus (mem_chip 0x8000)) (-1))
     (get_m48t37 (Suc 0) (real_ops mem_bus (mem_chip 0x8000)) (-1)) ex_tm ex_tm (\<lambda>_. 0xff) \<and>
   clock_roundtrip (set_m48t5x (m48t5x_ops latch_ops) (-1)) (get_m48t5x (Suc 0) (m48t5x_ops latch_ops) (-1))
     ex_tm ex_tm ((0, 0), \<lambda>_. 0)"
  by (rule m48t_roundtrip [OF mm8.reg_bus_axioms _ _ lt.reg_bus_axioms]) (simp_all add: ex_tm_ok tm_cent_ok_def)

text \<open>
  The registers of the RTC72423 hold one digit each: the years 1970 to 2069. The wait for the chip
  ends at once when the busy bit is clear.
\<close>

lemma rtc72423_roundtrip:
  assumes "reg_bus P view 8 (\<lambda>_. True)" and "tm_ok 70 170 t"
  shows "clock_roundtrip (set_rtc72423 P c) (get_rtc72423 (Suc n) P c) t t0 d"
  using clock_roundtrip_sim [OF reg_bus.chip_sims(9,10) [OF assms(1) refl TrueI] rtc72423_reg [OF assms(2)]] .

lemma rtc72423_roundtrip_witness:
  "clock_roundtrip (set_rtc72423 (real_ops mem_bus (mem_chip 0x8000)) 0)
     (get_rtc72423 (Suc 0) (real_ops mem_bus (mem_chip 0x8000)) 0) ex_tm ex_tm (\<lambda>_. 0xff)"
  by (rule rtc72423_roundtrip [OF mm8.reg_bus_axioms ex_tm_ok(1)])



end
