(* ===== verification/RtcAt.thy ===== *)
theory RtcAt
  imports RtcChips
begin

section \<open>The MC146818\<close>

text \<open>
  The PC's clock chip (\<open>clk_mc146818.c\<close>; its functions are in \<open>RtcChips\<close>) behind an index port
  and a data port. What the code relies on is that the two ports are a register file: the law of
  the locale \<open>index_bus\<close>, with the abstract chip \<open>cmos_file\<close>.
\<close>

definition cmos_rd :: "u32 \<Rightarrow> nat \<Rightarrow> (u32 \<times> (u32 \<Rightarrow> u32), u32) state" where
  "cmos_rd r sz = State (\<lambda>(k, V). (if r = 1 then take_bit 8 (V k) else k, (k, V)))"

definition cmos_wr :: "u32 \<Rightarrow> u32 \<Rightarrow> nat \<Rightarrow> (u32 \<times> (u32 \<Rightarrow> u32), unit) state" where
  "cmos_wr r v sz = State (\<lambda>(k, V). ((), if r = 1 then (k, V(k := take_bit 8 v)) else (take_bit 8 v, V)))"

definition cmos_file :: "(u32 \<times> (u32 \<Rightarrow> u32)) chip_ops" where
  "cmos_file = \<lparr>chip_rd = cmos_rd, chip_wr = cmos_wr\<rparr>"

locale index_bus =
  fixes P :: "'d chip_ops"
    and view :: "'d \<Rightarrow> u32 \<times> (u32 \<Rightarrow> u32)"
  assumes data_rd: "simulated view (chip_rd P 1 8) (cmos_rd 1 8)"
    and data_wr: "simulated view (chip_wr P 1 v 8) (cmos_wr 1 v 8)"
    and index_wr: "simulated view (chip_wr P 0 v 8) (cmos_wr 0 v 8)"
begin

lemma port_sims [sim_intros]:
  "simulated view (chip_read8 P 1) (chip_read8 cmos_file 1)"
  "simulated view (chip_write8 P 1 v) (chip_write8 cmos_file 1 v)"
  "simulated view (chip_write8 P 0 v) (chip_write8 cmos_file 0 v)"
  using data_rd data_wr index_wr by (simp_all add: chip_read8_def chip_write8_def cmos_file_def)

lemma cmos_sims [sim_intros]:
  "simulated view (cmos P i) (cmos cmos_file i)"
  "simulated view (cmos_set P i v) (cmos_set cmos_file i v)"
  unfolding cmos_def cmos_set_def by (intro sim_intros)+

lemma loop_sims [sim_intros]:
  "simulated view (uip_on n P x) (uip_on n cmos_file x)"
  "simulated view (uip_off n P x) (uip_off n cmos_file x)"
  "simulated view (read_clk P c) (read_clk cmos_file c)"
proof -
  show "simulated view (uip_on n P x) (uip_on n cmos_file x)"
    by (induction n arbitrary: x; simp only: uip_on.simps; (intro sim_intros | assumption | rule allI)+)
  show "simulated view (uip_off n P x) (uip_off n cmos_file x)"
    by (induction n arbitrary: x; simp only: uip_off.simps; (intro sim_intros | assumption)+)
  show "simulated view (read_clk P c) (read_clk cmos_file c)"
    unfolding read_clk_def by (intro sim_intros)
qed

lemma stable_sim [sim_intros]: "simulated view (stable_clk n P c b) (stable_clk n cmos_file c b)"
  by (induction n arbitrary: b; simp only: stable_clk.simps; (intro sim_intros | assumption)+)

lemma mc146818_sims:
  "simulated view (set_mc146818 P c t) (set_mc146818 cmos_file c t)"
  "simulated view (get_mc146818 n P c t) (get_mc146818 n cmos_file c t)"
  unfolding set_mc146818_def get_mc146818_def by (intro sim_intros)+

end

text \<open>
  The documented chip on the port space: its index latch and its 256 bytes of RAM, reached
  through \<open>chip_read\<close> and \<open>chip_write\<close>.
\<close>

definition at_rd :: "u32 \<Rightarrow> access_type \<Rightarrow> u32 \<Rightarrow> nat \<Rightarrow> (u8 \<times> (u8 \<Rightarrow> u8), u32) state" where
  "at_rd base a p sz = State (\<lambda>(k, m). (if p = base + 1 then ucast (m k) else ucast k, (k, m)))"

definition at_wr :: "u32 \<Rightarrow> access_type \<Rightarrow> u32 \<Rightarrow> u32 \<Rightarrow> nat \<Rightarrow> (u8 \<times> (u8 \<Rightarrow> u8), unit) state" where
  "at_wr base a p v sz = State (\<lambda>(k, m). ((), if p = base + 1 then (k, m(k := ucast v)) else (ucast v, m)))"

definition at_bus :: "u32 \<Rightarrow> (u8 \<times> (u8 \<Rightarrow> u8)) bus" where
  "at_bus base = \<lparr>bus_rd = at_rd base, bus_wr = at_wr base\<rparr>"

definition at_chip :: "u32 \<Rightarrow> chip_loc" where
  "at_chip base = (mem_chip base)\<lparr>chip_access := IOMAPPED\<rparr>"

definition at_view :: "u8 \<times> (u8 \<Rightarrow> u8) \<Rightarrow> u32 \<times> (u32 \<Rightarrow> u32)" where
  "at_view d = (ucast (fst d), \<lambda>j. if j < 256 then ucast (snd d (ucast j)) else 0)"

lemma ucast_u8_less: "ucast (k :: u8) < (256 :: u32)"
proof -
  have "unat (ucast k :: u32) = unat k"
    by (simp add: unsigned_ucast_eq take_bit_eq_mod less_le_trans [OF unsigned_less])
  then show ?thesis using unsigned_less [of k, where 'a = nat] by (simp add: word_less_nat_alt)
qed

lemma ucast_u8_id [simp]: "ucast (ucast k :: u32) = (k :: u8)"
  by (rule bit_word_eqI) (simp add: bit_simps)

lemma ucast_u8_eq: "j < 256 \<Longrightarrow> (ucast (j :: u32) :: u8) = k \<longleftrightarrow> j = ucast k"
proof -
  assume "j < 256"
  then have "take_bit 8 j = j" by (intro take_bit_small) (simp add: word_less_nat_alt)
  then have "(ucast (ucast j :: u8) :: u32) = j" by (simp add: ucast_ucast8)
  then show ?thesis by auto
qed

interpretation ix: index_bus "real_ops (at_bus base) (at_chip base)" at_view
proof unfold_locales
  fix v :: u32
  let ?P = "real_ops (at_bus base) (at_chip base)"
  have rd: "chip_rd ?P r 8 = at_rd base IOMAPPED (base + r) 8" and
    wr: "chip_wr ?P r v 8 = at_wr base IOMAPPED (base + r) v 8" for r v
    by (simp_all add: real_ops_def chip_read_def chip_write_def at_bus_def at_chip_def mem_chip_def Let_def)
  show "simulated at_view (chip_rd ?P 1 8) (cmos_rd 1 8)"
    unfolding rd by (auto simp: simulated_def at_rd_def cmos_rd_def at_view_def ucast_u8_less)
  show "simulated at_view (chip_wr ?P 1 v 8) (cmos_wr 1 v 8)"
    unfolding wr by (auto simp: simulated_def at_wr_def cmos_wr_def at_view_def fun_eq_iff ucast_u8_less
        ucast_u8_eq ucast_ucast8)
  show "simulated at_view (chip_wr ?P 0 v 8) (cmos_wr 0 v 8)"
    unfolding wr by (auto simp: simulated_def at_wr_def cmos_wr_def at_view_def ucast_ucast8)
qed

subsection \<open>On the abstract chip\<close>

lemma run_cmos [simp]:
  "run_state (cmos cmos_file i) (k, V) = (V (i AND 0xff) AND 0xff, (i AND 0xff, V))"
  "run_state (cmos_set cmos_file i v) (k, V) = ((), (i AND 0xff, V(i AND 0xff := v AND 0xff)))"
  "run_state (chip_write8 cmos_file 1 v) (k, V) = ((), (k, V(k := v AND 0xff)))"
  by (simp_all add: cmos_def cmos_set_def chip_read8_def chip_write8_def cmos_file_def cmos_rd_def cmos_wr_def take8)

lemma uip_on_idle:
  assumes "V 10 AND 0x80 = 0" and "x AND 0x80 = 0"
  shows "\<exists>y k'. run_state (uip_on n cmos_file x) (k, V) = (y, (k', V)) \<and> y AND 0x80 = 0"
  using assms(2)
proof (induction n arbitrary: x k)
  case 0
  then show ?case by simp
next
  case (Suc n)
  have "(V 10 AND 0xff) AND 0x80 = 0" using assms(1) by (simp add: and_norm)
  from Suc.IH [OF this, of 10] show ?case using Suc.prems by simp
qed

lemma uip_off_idle:
  assumes "V 10 AND 0x80 = 0"
  shows "run_state (uip_off CMOS_CNT cmos_file 0x80) (k, V) = (True, (10, V))"
proof -
  obtain n where n: "CMOS_CNT = Suc (Suc n)"
    using that [of "0xfffd"] by (simp add: CMOS_CNT_def)
  have "(V 10 AND 0xff) AND 0x80 = 0" using assms by (simp add: and_norm)
  then show ?thesis by (simp add: n)
qed

lemma read_clk_run:
  "run_state (read_clk cmos_file c) (k, V) =
    (([V 0 AND 0xff, V 2 AND 0xff, V 4 AND 0xff, V 7 AND 0xff, V 8 AND 0xff, V 9 AND 0xff,
       if c \<ge> 0 then V (word_of_int c AND 0xff) AND 0xff else 0], V 11 AND 0xff), (11, V))"
  by (simp add: read_clk_def)

lemma stable_clk_run:
  assumes "V 10 AND 0x80 = 0"
  shows "run_state (stable_clk (Suc (Suc n)) cmos_file c b) (k, V) =
    (Some (fst (run_state (read_clk cmos_file c) (k, V))), (11, V))"
  using uip_off_idle [of V] assms by (simp add: read_clk_run)

text \<open>What \<open>get_mc146818\<close> makes of a chip that is running and not about to update.\<close>

definition at_time :: "(u32 \<Rightarrow> u32) \<Rightarrow> int \<Rightarrow> tm \<Rightarrow> tm" where
  "at_time V c t = (let b = [V 0 AND 0xff, V 2 AND 0xff, V 4 AND 0xff, V 7 AND 0xff, V 8 AND 0xff, V 9 AND 0xff,
       if c \<ge> 0 then V (word_of_int c AND 0xff) AND 0xff else 0]; x = V 11 AND 0xff; f = clk_fields b x;
       hour = sint (f ! 2 AND 0x7f); year = sint (f ! 5)
   in t\<lparr>tm_sec := sint (f ! 0), tm_min := sint (f ! 1),
        tm_hour := (if x AND 2 = 0 \<and> b ! 2 AND 0x80 \<noteq> 0 then hour + 12 else hour),
        tm_mday := sint (f ! 3), tm_mon := sint (f ! 4 - 1),
        tm_year := (if c \<ge> 0 then if f ! 6 \<noteq> 0 then year + 100 else year
                    else if year < 70 then year + 100 else year)\<rparr>)"

lemma get_mc146818_run:
  assumes "V 10 AND 0xe0 = 0x20"
  shows "run_state (get_mc146818 (Suc (Suc n)) cmos_file c t) (k, V) = (Some (at_time V c t), (11, V))"
proof -
  have a: "V 10 AND 0x60 = 0x20" "V 10 AND 0x80 = 0"
    using arg_cong [OF assms, of "\<lambda>x. x AND 0x60"] arg_cong [OF assms, of "\<lambda>x. x AND 0x80"]
    by (simp_all add: and_norm)
  obtain x k1 where 1: "run_state (uip_on CMOS_CNT cmos_file 0) (10, V) = (x, (k1, V))" "x AND 0x80 = 0"
    using uip_on_idle [where V = V and x = 0 and n = CMOS_CNT and k = 10] a(2) by auto
  obtain y k2 where 2: "run_state (uip_on CMOS_CNT cmos_file x) (k1, V) = (y, (k2, V))"
    using uip_on_idle [where V = V and x = x and n = CMOS_CNT and k = k1] a(2) 1(2) by auto
  have s: "run_state (stable_clk (Suc (Suc n)) cmos_file c b) (k2, V) =
    (Some (fst (run_state (read_clk cmos_file c) (k2, V))), (11, V))" for b
    by (rule stable_clk_run [where V = V]) (rule a(2))
  have u: "(V 10 AND 0xff) AND 0x60 = 0x20" using a(1) by (simp add: and_norm)
  show ?thesis
    unfolding get_mc146818_def
    using 1 2 s u by (simp add: read_clk_run at_time_def Let_def del: stable_clk.simps)
qed

text \<open>The two data modes of the chip: an encoded number is decoded.\<close>

definition at_dec :: "bool \<Rightarrow> u32 \<Rightarrow> u32" where
  "at_dec bin w = (if bin then w else BCD2BIN w)"

lemma uint_small: "0 \<le> n \<Longrightarrow> n < 2 ^ 32 \<Longrightarrow> uint (word_of_int n :: u32) = n"
  by (simp add: unsigned_of_int take_bit_int_eq_self)

lemma word_of_int_and: "0 \<le> n \<Longrightarrow> n < 100 \<Longrightarrow> (word_of_int n :: u32) AND 0xff = word_of_int n"
  "0 \<le> n \<Longrightarrow> n < 100 \<Longrightarrow> (word_of_int n :: u32) AND 0x7f = word_of_int n"
proof -
  have u: "unat (word_of_int n :: u32) = nat n" if "0 \<le> n" "n < 100"
  proof -
    have "uint (word_of_int n :: u32) = n" using that by (intro uint_small) simp_all
    then show ?thesis by (simp only: unat_eq_nat_uint)
  qed
  show "0 \<le> n \<Longrightarrow> n < 100 \<Longrightarrow> (word_of_int n :: u32) AND 0xff = word_of_int n"
    "0 \<le> n \<Longrightarrow> n < 100 \<Longrightarrow> (word_of_int n :: u32) AND 0x7f = word_of_int n"
    unfolding and_mask_take by (rule take_bit_small, simp add: u)+
qed

lemma at_enc_byte: "0 \<le> n \<Longrightarrow> n < 100 \<Longrightarrow> at_enc bin n AND 0xff = at_enc bin n"
  by (cases bin) (simp_all add: at_enc_def uint_small bcd_and word_of_int_and)

lemma at_dec_enc: "0 \<le> n \<Longrightarrow> n < 100 \<Longrightarrow> at_dec bin (at_enc bin n) = word_of_int n"
  by (simp add: at_enc_def at_dec_def uint_small BCD2BIN_bcd)

lemma at_time_dec:
  "at_time V c t = (let bin = (V 11 AND 4 \<noteq> 0); dec = at_dec bin; hb = V 4 AND 0xff;
     hour = sint (if bin then hb AND 0x7f else BCD2BIN (hb AND 0x7f) AND 0x7f); year = sint (dec (V 9 AND 0xff))
   in t\<lparr>tm_sec := sint (dec (V 0 AND 0xff)), tm_min := sint (dec (V 2 AND 0xff)),
        tm_hour := (if V 11 AND 2 = 0 \<and> hb AND 0x80 \<noteq> 0 then hour + 12 else hour),
        tm_mday := sint (dec (V 7 AND 0xff)), tm_mon := sint (dec (V 8 AND 0xff) - 1),
        tm_year := (if c \<ge> 0 then if dec (V (word_of_int c AND 0xff) AND 0xff) \<noteq> 0 then year + 100 else year
                    else if year < 70 then year + 100 else year)\<rparr>)"
  by (simp add: at_time_def clk_fields_def at_dec_def Let_def and_norm)

text \<open>The registers after \<open>set_mc146818\<close>.\<close>

definition at_set :: "(u32 \<Rightarrow> u32) \<Rightarrow> int \<Rightarrow> tm \<Rightarrow> u32 \<Rightarrow> u32" where
  "at_set V c t = (let x2 = (V 11 AND 0xff) OR 0x82; e = (\<lambda>n. at_enc (x2 AND 4 \<noteq> 0) n AND 0xff);
       V1 = V(10 := ((((V 10 AND 0xff) AND 0xf) OR 0x20) AND 0xff), 11 := x2 AND 0xff, 7 := e (tm_mday t), 8 := e (tm_mon t + 1),
              9 := e (tm_year t smod 100));
       V2 = (if c \<ge> 0 then V1(word_of_int c AND 0xff := e (tm_year t sdiv 100 + 19)) else V1)
   in V2(4 := e (tm_hour t), 2 := e (tm_min t), 0 := e (tm_sec t), 11 := (x2 AND NOT 0x80) AND 0xff))"

lemma set_mc146818_run:
  assumes "c < 0 \<or> word_of_int c AND 0xff \<notin> set [0, 2, 4, 7, 8, 9, 10, 11 :: u32]"
  shows "run_state (set_mc146818 cmos_file c t) (k, V) = (Some (), (11, at_set V c t))"
  by (cases "c \<ge> 0") (simp_all add: set_mc146818_def at_set_def Let_def)

lemma mc146818_reg:
  assumes t: "if c < 0 then tm_ok 70 170 t else tm_ok 100 200 t"
    and c: "c < 0 \<or> word_of_int c AND 0xff \<notin> set [0, 2, 4, 7, 8, 9, 10, 11 :: u32]"
  shows "clock_roundtrip (set_mc146818 cmos_file c) (get_mc146818 (Suc (Suc n)) cmos_file c) t t0 (k, V)"
proof -
  let ?V = "at_set V c t"
  define bin where "bin \<longleftrightarrow> V 11 AND 4 \<noteq> 0"
  have x: "((V 11 AND 0xff) OR 0x82) AND 4 = V 11 AND 4" by (simp add: and_norm)
  let ?e = "\<lambda>n. at_enc bin n AND 0xff"
  have V: "?V 10 AND 0xe0 = 0x20" "?V 11 AND 2 \<noteq> 0" "?V 11 AND 4 = V 11 AND 4"
      "?V 0 = ?e (tm_sec t)" "?V 2 = ?e (tm_min t)" "?V 4 = ?e (tm_hour t)"
      "?V 7 = ?e (tm_mday t)" "?V 8 = ?e (tm_mon t + 1)" "?V 9 = ?e (tm_year t smod 100)"
    using c by (auto simp: at_set_def Let_def x bin_def and_norm)
  have Vc: "?V (word_of_int c AND 0xff) = ?e (tm_year t sdiv 100 + 19)" if "c \<ge> 0"
    using c that by (auto simp: at_set_def Let_def x bin_def)
  have dec: "at_dec b (at_enc b m AND 0xff) = word_of_int m" if "0 \<le> m" "m < 100" for b m
    using that by (simp add: at_enc_byte at_dec_enc)
  have hour: "(at_enc True m AND 0xff) AND 0x7f = word_of_int m"
    "BCD2BIN ((at_enc False m AND 0xff) AND 0x7f) AND 0x7f = word_of_int m" if "0 \<le> m" "m < 24" for m
    using that by (simp_all add: at_enc_byte, simp_all add: at_enc_def uint_small bcd_and BCD2BIN_bcd word_of_int_and)
  have f: "0 \<le> tm_sec t" "tm_sec t < 60" "0 \<le> tm_min t" "tm_min t < 60" "0 \<le> tm_hour t" "tm_hour t < 24"
    "1 \<le> tm_mday t" "tm_mday t \<le> 31" "0 \<le> tm_mon t" "tm_mon t < 12" "0 \<le> tm_year t" "tm_year t < 200"
    "c < 0 \<Longrightarrow> 70 \<le> tm_year t \<and> tm_year t < 170" "\<not> c < 0 \<Longrightarrow> 100 \<le> tm_year t"
    using t by (auto simp: tm_ok_def split: if_splits)
  have y: "tm_year t smod 100 = tm_year t mod 100" "tm_year t sdiv 100 = tm_year t div 100" using f by (simp_all add: cent_parts)
  have same: "same_time (at_time ?V c t0) t"
  proof (cases "c < 0")
    case True
    have "tm_year t mod 100 < 70 \<longrightarrow> tm_year t mod 100 + 100 = tm_year t"
      "\<not> tm_year t mod 100 < 70 \<longrightarrow> tm_year t mod 100 = tm_year t"
      using f(13) [OF True] by (auto intro: year_window)
    with True f show ?thesis
      by (cases bin) (simp_all add: same_time_def at_time_dec Let_def V bin_def [symmetric] dec hour y sint_small)
  next
    case False
    have "tm_year t div 100 + 19 = 20" "tm_year t mod 100 + 100 = tm_year t"
      using f(12) f(14) [OF False] by presburger+
    with False f show ?thesis
      by (cases bin) (simp_all add: same_time_def at_time_dec Let_def V Vc bin_def [symmetric] dec hour y sint_small)
  qed
  show ?thesis
    using same by (simp add: clock_roundtrip_def set_mc146818_run [OF c] get_mc146818_run [where V = ?V, OF V(1)])
qed

subsection \<open>Properties\<close>

text \<open>C15: reading an MC146818 after setting it gives the same date and time, in both data modes:
  for the years 2000 to 2099 with a century register, 1970 to 2069 without. The waiting loops end
  and the function returns within two readings when no update is in progress.\<close>

theorem mc146818_roundtrip:
  assumes "index_bus P view" and "if c < 0 then tm_ok 70 170 t else tm_ok 100 200 t"
    and "c < 0 \<or> word_of_int c AND 0xff \<notin> set [0, 2, 4, 7, 8, 9, 10, 11 :: u32]"
  shows "clock_roundtrip (set_mc146818 P c) (get_mc146818 (Suc (Suc n)) P c) t t0 d"
proof -
  have "clock_roundtrip (set_mc146818 cmos_file c) (get_mc146818 (Suc (Suc n)) cmos_file c) t t0 (view d)"
    using mc146818_reg [OF assms(2,3), of n t0 "fst (view d)" "snd (view d)"] by simp
  from clock_roundtrip_sim [OF index_bus.mc146818_sims [OF assms(1)] this] show ?thesis .
qed

lemma mc146818_roundtrip_witness:
  "clock_roundtrip (set_mc146818 (real_ops (at_bus 0x70) (at_chip 0x70)) (-1))
     (get_mc146818 (Suc (Suc 0)) (real_ops (at_bus 0x70) (at_chip 0x70)) (-1)) ex_tm ex_tm (0, \<lambda>_. 0xff)"
  by (rule mc146818_roundtrip [OF ix.index_bus_axioms]) (simp_all add: ex_tm_ok)

text \<open>
  With a century register the code sets 19 or 20 there, but reads any number but 0 as 20: years
  before 2000 come back a century late.
\<close>

lemma mc146818_century:
  assumes "c \<ge> 0" and "word_of_int c AND 0xff \<notin> set [0, 2, 4, 7, 8, 9, 10, 11 :: u32]" and "tm_ok 0 100 t"
  shows "\<exists>t1 s. run_state (set_mc146818 cmos_file c t \<bind> (\<lambda>_. get_mc146818 (Suc (Suc n)) cmos_file c t0)) (k, V) =
    (Some t1, s) \<and> tm_year t1 = tm_year t + 100"
proof -
  let ?V = "at_set V c t"
  define bin where "bin \<longleftrightarrow> V 11 AND 4 \<noteq> 0"
  have c: "c < 0 \<or> word_of_int c AND 0xff \<notin> set [0, 2, 4, 7, 8, 9, 10, 11 :: u32]" using assms(2) by simp
  have x: "((V 11 AND 0xff) OR 0x82) AND 4 = V 11 AND 4" by (simp add: and_norm)
  have V: "?V 10 AND 0xe0 = 0x20" "?V 11 AND 4 = V 11 AND 4" "?V 9 = at_enc bin (tm_year t smod 100) AND 0xff"
    "?V (word_of_int c AND 0xff) = at_enc bin (tm_year t sdiv 100 + 19) AND 0xff"
    using assms(1,2) by (auto simp: at_set_def Let_def x bin_def and_norm)
  have y: "0 \<le> tm_year t" "tm_year t < 100" "tm_year t smod 100 = tm_year t" "tm_year t sdiv 100 = 0"
    using assms(3) by (simp_all add: tm_ok_def cent_parts)
  have dec: "at_dec b (at_enc b m AND 0xff) = word_of_int m" if "0 \<le> m" "m < 100" for b m
    using that by (simp add: at_enc_byte at_dec_enc)
  have "tm_year (at_time ?V c t0) = tm_year t + 100"
    using assms(1) y by (simp add: at_time_dec Let_def V bin_def [symmetric] dec sint_small)
  then show ?thesis
    by (simp add: set_mc146818_run [OF c] get_mc146818_run [where V = ?V, OF V(1)])
qed

end
