(* ===== verification/RtcI2c.thy ===== *)
theory RtcI2c
  imports RtcAt
begin

section \<open>Clock chips on the I2C bus\<close>

text \<open>
  \<open>utils/r/rtc/clk_ds1337.c\<close>, \<open>clk_ds3232.c\<close>, \<open>clk_m41t00.c\<close>, \<open>clk_m41t6x.c\<close>,
  \<open>clk_mc9s08dz60.c\<close>, \<open>clk_pcf2127at.c\<close>, \<open>clk_isl1208.c\<close>, \<open>clk_s35390a.c\<close> and
  \<open>nto/arm/clk_rtc8564.c\<close>. The \<open>devctl\<close> calls of the I2C driver are a parameter (\<open>i2c\<close>): a
  transfer may fail. Most chips keep their registers behind an address byte; the law the code
  relies on is the locale \<open>i2c_regs\<close>. The S-35390A has a bus address per register block
  (locale \<open>i2c_banks\<close>).
\<close>

record i2c_hdr =
  slave_addr :: u32
  send_len :: nat
  recv_len :: nat
  stop_bit :: bool

record 'd i2c =
  i2c_sendrecv :: "i2c_hdr \<Rightarrow> u8 \<Rightarrow> ('d, u8 list option) state"
  i2c_send :: "i2c_hdr \<Rightarrow> u8 list \<Rightarrow> ('d, bool) state"
  i2c_recv :: "i2c_hdr \<Rightarrow> ('d, u8 list option) state"

text \<open>
  The read and write functions of each chip differ only in the slave address. \<open>None\<close> and
  \<open>False\<close> are a result other than \<open>EOK\<close>.
\<close>

definition chip_i2c_read :: "'d i2c \<Rightarrow> u32 \<Rightarrow> u8 \<Rightarrow> nat \<Rightarrow> ('d, u8 list option) state" where
  "chip_i2c_read I addr reg num =
     i2c_sendrecv I \<lparr>slave_addr = addr, send_len = 1, recv_len = num, stop_bit = True\<rparr> reg"

definition chip_i2c_write :: "'d i2c \<Rightarrow> u32 \<Rightarrow> u8 \<Rightarrow> u8 list \<Rightarrow> ('d, bool) state" where
  "chip_i2c_write I addr reg val =
     i2c_send I \<lparr>slave_addr = addr, send_len = length val + 1, recv_len = 0, stop_bit = True\<rparr> (reg # val)"

definition bcd8 :: "int \<Rightarrow> u8" where
  "bcd8 n = word_of_int (BIN2BCD n)"

definition bin8 :: "u8 \<Rightarrow> int" where
  "bin8 b = sint (BCD2BIN (ucast b))"

subsection \<open>DS1337\<close>

definition ds1337_i2c_read :: "'d i2c \<Rightarrow> u8 \<Rightarrow> nat \<Rightarrow> ('d, u8 list option) state" where
  "ds1337_i2c_read I = chip_i2c_read I 0x68"

definition ds1337_i2c_write :: "'d i2c \<Rightarrow> u8 \<Rightarrow> u8 list \<Rightarrow> ('d, bool) state" where
  "ds1337_i2c_write I = chip_i2c_write I 0x68"

text \<open>
  The result of the read is not looked at: after a failed transfer the code would use an
  uninitialised buffer. That case is \<open>None\<close> here.
\<close>

definition get_ds1337 :: "'d i2c \<Rightarrow> int \<Rightarrow> tm \<Rightarrow> ('d, tm option) state" where
  "get_ds1337 I cent_reg t = do {
     r \<leftarrow> ds1337_i2c_read I 0 7;
     State_Monad.return (case r of None \<Rightarrow> None | Some d \<Rightarrow>
       Some (t\<lparr>tm_sec := bin8 (d ! 0), tm_min := bin8 (d ! 1), tm_hour := bin8 (d ! 2), tm_mday := bin8 (d ! 4),
         tm_mon := bin8 (d ! 5) - 1,
         tm_year := (if bin8 (d ! 6) < 70 then bin8 (d ! 6) + 100 else bin8 (d ! 6)),
         tm_wday := bin8 (d ! 3) - 1\<rparr>)) }"

definition set_ds1337 :: "'d i2c \<Rightarrow> int \<Rightarrow> tm \<Rightarrow> ('d, unit option) state" where
  "set_ds1337 I cent_reg t = do {
     ds1337_i2c_write I 0 [bcd8 (tm_sec t), bcd8 (tm_min t), bcd8 (tm_hour t), bcd8 (tm_wday t + 1),
       bcd8 (tm_mday t), bcd8 (tm_mon t + 1), bcd8 (tm_year t smod 100)];
     ok }"

subsection \<open>DS3232\<close>

definition ds3232_i2c_read :: "'d i2c \<Rightarrow> u8 \<Rightarrow> nat \<Rightarrow> ('d, u8 list option) state" where
  "ds3232_i2c_read I = chip_i2c_read I 0x68"

definition ds3232_i2c_write :: "'d i2c \<Rightarrow> u8 \<Rightarrow> u8 list \<Rightarrow> ('d, bool) state" where
  "ds3232_i2c_write I = chip_i2c_write I 0x68"

definition ds3232_hour :: "u8 \<Rightarrow> int" where
  "ds3232_hour h =
     (if h AND 0x40 \<noteq> 0
      then let hour = bin8 (h AND 0x1f)
           in if h AND 0x20 \<noteq> 0 then (if hour = 12 then 12 else hour + 12) else (if hour = 12 then 0 else hour)
      else bin8 (h AND 0x3f))"

definition get_ds3232 :: "'d i2c \<Rightarrow> int \<Rightarrow> tm \<Rightarrow> ('d, tm option) state" where
  "get_ds3232 I cent_reg t = do {
     r \<leftarrow> ds3232_i2c_read I 0 7;
     State_Monad.return (case r of None \<Rightarrow> None | Some d \<Rightarrow>
       Some (t\<lparr>tm_sec := bin8 (d ! 0 AND 0x7f), tm_min := bin8 (d ! 1 AND 0x7f), tm_hour := ds3232_hour (d ! 2),
         tm_mday := bin8 (d ! 4 AND 0x3f), tm_mon := bin8 (d ! 5 AND 0x1f) - 1,
         tm_year := (if d ! 5 AND 0x80 \<noteq> 0 then bin8 (d ! 6 AND 0xff) + 100 else bin8 (d ! 6 AND 0xff)),
         tm_wday := bin8 (d ! 3 AND 7) - 1\<rparr>)) }"

definition set_ds3232 :: "'d i2c \<Rightarrow> int \<Rightarrow> tm \<Rightarrow> ('d, unit option) state" where
  "set_ds3232 I cent_reg t = do {
     ds3232_i2c_write I 0 [bcd8 (tm_sec t), bcd8 (tm_min t), bcd8 (tm_hour t), bcd8 (tm_wday t + 1), bcd8 (tm_mday t),
       (if tm_year t \<ge> 100 then bcd8 (tm_mon t + 1) OR 0x80 else bcd8 (tm_mon t + 1)), bcd8 (tm_year t smod 100)];
     ok }"

subsection \<open>M41T00\<close>

definition m41t00_i2c_read :: "'d i2c \<Rightarrow> u8 \<Rightarrow> nat \<Rightarrow> ('d, u8 list option) state" where
  "m41t00_i2c_read I = chip_i2c_read I 0x68"

definition m41t00_i2c_write :: "'d i2c \<Rightarrow> u8 \<Rightarrow> u8 list \<Rightarrow> ('d, bool) state" where
  "m41t00_i2c_write I = chip_i2c_write I 0x68"

definition m41t00_year :: "u8 \<Rightarrow> int \<Rightarrow> int" where
  "m41t00_year h y =
     (if h AND 0x80 \<noteq> 0
      then if h AND 0x40 \<noteq> 0 then (if y < 70 then y + 200 else y) else y + 100
      else if y < 70 then y + 100 else y)"

definition get_m41t00 :: "'d i2c \<Rightarrow> int \<Rightarrow> tm \<Rightarrow> ('d, tm option) state" where
  "get_m41t00 I cent_reg t = do {
     r \<leftarrow> m41t00_i2c_read I 0 7;
     State_Monad.return (case r of None \<Rightarrow> None | Some d \<Rightarrow>
       Some (t\<lparr>tm_sec := bin8 (d ! 0 AND NOT 0x80), tm_min := bin8 (d ! 1), tm_hour := bin8 (d ! 2 AND NOT 0xc0),
         tm_mday := bin8 (d ! 4), tm_mon := bin8 (d ! 5) - 1, tm_year := m41t00_year (d ! 2) (bin8 (d ! 6)),
         tm_wday := bin8 (d ! 3) - 1\<rparr>)) }"

text \<open>\<open>century\<close> is a \<open>char\<close>: the comparison with 0 is on eight bits.\<close>

definition set_m41t00 :: "'d i2c \<Rightarrow> int \<Rightarrow> tm \<Rightarrow> ('d, unit option) state" where
  "set_m41t00 I cent_reg t = do {
     century \<leftarrow> State_Monad.return (word_of_int (tm_year t sdiv 100 - 1) :: u8);
     m41t00_i2c_write I 0 [bcd8 (tm_sec t), bcd8 (tm_min t),
       (if century \<noteq> 0 then (bcd8 (tm_hour t) OR 0x80) OR 0x40 else bcd8 (tm_hour t) OR 0x80),
       bcd8 (tm_wday t + 1), bcd8 (tm_mday t), bcd8 (tm_mon t + 1), bcd8 (tm_year t smod 100)];
     ok }"

subsection \<open>M41T6x\<close>

definition m41t6x_i2c_read :: "'d i2c \<Rightarrow> u8 \<Rightarrow> nat \<Rightarrow> ('d, u8 list option) state" where
  "m41t6x_i2c_read I = chip_i2c_read I 0x68"

definition m41t6x_i2c_write :: "'d i2c \<Rightarrow> u8 \<Rightarrow> u8 list \<Rightarrow> ('d, bool) state" where
  "m41t6x_i2c_write I = chip_i2c_write I 0x68"

definition m41t6x_century :: "u8 \<Rightarrow> int" where
  "m41t6x_century m =
     (let c = m AND 0xc0
      in if c = 0 then 100 else if c = 0x40 then 200 else if c = 0x80 then 300 else if c = 0xc0 then 400 else 0)"

definition get_m41t6x :: "'d i2c \<Rightarrow> int \<Rightarrow> tm \<Rightarrow> ('d, tm option) state" where
  "get_m41t6x I cent_reg t = do {
     r \<leftarrow> m41t6x_i2c_read I 1 7;
     State_Monad.return (case r of None \<Rightarrow> None | Some d \<Rightarrow>
       Some (t\<lparr>tm_sec := bin8 (d ! 0 AND NOT 0x80), tm_min := bin8 (d ! 1 AND NOT 0x80),
         tm_hour := bin8 (d ! 2 AND 0x3f), tm_mday := bin8 (d ! 4 AND 0x3f), tm_mon := bin8 (d ! 5 AND 0x1f) - 1,
         tm_year := bin8 (d ! 6) + m41t6x_century (d ! 5), tm_wday := bin8 (d ! 3 AND 7) - 1\<rparr>)) }"

definition set_m41t6x :: "'d i2c \<Rightarrow> int \<Rightarrow> tm \<Rightarrow> ('d, unit option) state" where
  "set_m41t6x I cent_reg t = do {
     century \<leftarrow> State_Monad.return (word_of_int (tm_year t sdiv 100 - 1) :: u8);
     m41t6x_i2c_write I 1 [bcd8 (tm_sec t), bcd8 (tm_min t), bcd8 (tm_hour t), bcd8 (tm_wday t + 1), bcd8 (tm_mday t),
       bcd8 (tm_mon t + 1) OR push_bit 6 century, bcd8 (tm_year t smod 100)];
     ok }"

subsection \<open>MC9S08DZ60\<close>

definition mc9s08dz60_i2c_read :: "'d i2c \<Rightarrow> u8 \<Rightarrow> nat \<Rightarrow> ('d, u8 list option) state" where
  "mc9s08dz60_i2c_read I = chip_i2c_read I 0x69"

definition mc9s08dz60_i2c_write :: "'d i2c \<Rightarrow> u8 \<Rightarrow> u8 list \<Rightarrow> ('d, bool) state" where
  "mc9s08dz60_i2c_write I = chip_i2c_write I 0x69"

text \<open>\<open>opened\<close> tells whether \<open>open\<close> of the bus device succeeded.\<close>

definition init_mc9s08dz60 :: "bool \<Rightarrow> 'd i2c \<Rightarrow> ('d, int) state" where
  "init_mc9s08dz60 opened I =
     (if \<not> opened then State_Monad.return (-1)
      else do {
        r \<leftarrow> mc9s08dz60_i2c_read I 2 1;
        (case r of None \<Rightarrow> State_Monad.return (-1) | Some d \<Rightarrow> do {
           w \<leftarrow> mc9s08dz60_i2c_write I 2 [d ! 0 OR 0x80];
           State_Monad.return (if w then 0 else -1) }) })"

definition get_mc9s08dz60 :: "'d i2c \<Rightarrow> int \<Rightarrow> tm \<Rightarrow> ('d, tm option) state" where
  "get_mc9s08dz60 I cent_reg t = do {
     r \<leftarrow> mc9s08dz60_i2c_read I 2 7;
     State_Monad.return (case r of None \<Rightarrow> None | Some d \<Rightarrow>
       Some (t\<lparr>tm_sec := bin8 (d ! 0 AND 0x7f), tm_min := bin8 (d ! 1 AND 0x7f), tm_hour := bin8 (d ! 2 AND 0x3f),
         tm_mday := bin8 (d ! 4 AND 0x3f) + 1, tm_mon := bin8 (d ! 5 AND 0x1f),
         tm_year := (if bin8 (d ! 6) < 70 then bin8 (d ! 6) + 100 else bin8 (d ! 6)),
         tm_wday := bin8 (d ! 3 AND 7) - 1\<rparr>)) }"

definition set_mc9s08dz60 :: "'d i2c \<Rightarrow> int \<Rightarrow> tm \<Rightarrow> ('d, unit option) state" where
  "set_mc9s08dz60 I cent_reg t = do {
     w \<leftarrow> mc9s08dz60_i2c_write I 2 [bcd8 (tm_sec t) OR 0x80, bcd8 (tm_min t), bcd8 (tm_hour t), bcd8 (tm_wday t + 1),
       bcd8 (tm_mday t - 1), bcd8 (tm_mon t), bcd8 (tm_year t smod 100)];
     State_Monad.return (if w then Some () else None) }"

subsection \<open>PCF2127AT\<close>

text \<open>\<open>ctrl_value\<close> is a static variable that no function changes: 0.\<close>

definition pcf2127at_ctrl_value :: u8 where
  "pcf2127at_ctrl_value = 0"

definition pcf2127at_i2c_read :: "'d i2c \<Rightarrow> u8 \<Rightarrow> nat \<Rightarrow> ('d, u8 list option) state" where
  "pcf2127at_i2c_read I = chip_i2c_read I 0x51"

definition pcf2127at_i2c_write :: "'d i2c \<Rightarrow> u8 \<Rightarrow> u8 list \<Rightarrow> ('d, bool) state" where
  "pcf2127at_i2c_write I = chip_i2c_write I 0x51"

definition get_pcf2127at :: "'d i2c \<Rightarrow> int \<Rightarrow> tm \<Rightarrow> ('d, tm option) state" where
  "get_pcf2127at I cent_reg t = do {
     r \<leftarrow> pcf2127at_i2c_read I 0x02 7;
     State_Monad.return (case r of None \<Rightarrow> None | Some d \<Rightarrow>
       Some (t\<lparr>tm_sec := bin8 (d ! 0 AND 0x7f), tm_min := bin8 (d ! 1 AND 0x7f),
         tm_hour := (if pcf2127at_ctrl_value AND 4 \<noteq> 0 \<and> d ! 2 AND 0x20 \<noteq> 0 then bin8 (d ! 2 AND 0x3f) + 12
                     else bin8 (d ! 2 AND 0x3f)),
         tm_mday := bin8 (d ! 3 AND 0x3f), tm_wday := bin8 (d ! 4 AND 7), tm_mon := bin8 (d ! 5 AND 0x1f) - 1,
         tm_year := (if bin8 (d ! 6 AND 0xff) < 70 then bin8 (d ! 6 AND 0xff) + 100 else bin8 (d ! 6 AND 0xff))\<rparr>)) }"

definition set_pcf2127at :: "'d i2c \<Rightarrow> int \<Rightarrow> tm \<Rightarrow> ('d, unit option) state" where
  "set_pcf2127at I cent_reg t = do {
     hour \<leftarrow> State_Monad.return
       (if pcf2127at_ctrl_value AND 4 \<noteq> 0 \<and> tm_hour t = 12 then bcd8 (tm_hour t) OR 0x20
        else if pcf2127at_ctrl_value AND 4 \<noteq> 0 \<and> tm_hour t > 12 then bcd8 (tm_hour t - 12) OR 0x20
        else bcd8 (tm_hour t));
     (if tm_year t < 100 then State_Monad.return None
      else do {
        w \<leftarrow> pcf2127at_i2c_write I (0x02 + 1) [bcd8 (tm_sec t), bcd8 (tm_min t), hour, bcd8 (tm_mday t),
          word_of_int (tm_wday t) AND 7, bcd8 (tm_mon t + 1), bcd8 (tm_year t smod 100)];
        State_Monad.return (if w then Some () else None) }) }"

subsection \<open>ISL1208\<close>

text \<open>The slave address is an option of the command line (default 0x6f).\<close>

definition isl1208_i2c_read :: "u32 \<Rightarrow> 'd i2c \<Rightarrow> u8 \<Rightarrow> nat \<Rightarrow> ('d, u8 list option) state" where
  "isl1208_i2c_read slave I = chip_i2c_read I slave"

definition isl1208_i2c_write :: "u32 \<Rightarrow> 'd i2c \<Rightarrow> u8 \<Rightarrow> u8 list \<Rightarrow> ('d, bool) state" where
  "isl1208_i2c_write slave I = chip_i2c_write I slave"

text \<open>The part of \<open>init\<close> behind the option parsing and \<open>open\<close>.\<close>

definition enable_isl1208 :: "u32 \<Rightarrow> 'd i2c \<Rightarrow> ('d, int) state" where
  "enable_isl1208 slave I = do {
     r \<leftarrow> isl1208_i2c_read slave I 7 1;
     (case r of None \<Rightarrow> State_Monad.return (-1) | Some d \<Rightarrow>
        (if d ! 0 AND 0x10 = 0
         then do {
           w \<leftarrow> isl1208_i2c_write slave I 7 [d ! 0 OR 0x10];
           State_Monad.return (if w then 0 else -1) }
         else State_Monad.return 0)) }"

definition get_isl1208 :: "u32 \<Rightarrow> 'd i2c \<Rightarrow> int \<Rightarrow> tm \<Rightarrow> ('d, tm option) state" where
  "get_isl1208 slave I cent_reg t = do {
     r \<leftarrow> isl1208_i2c_read slave I 0 7;
     State_Monad.return (case r of None \<Rightarrow> None | Some d \<Rightarrow>
       Some (t\<lparr>tm_sec := bin8 (d ! 0 AND 0x7f), tm_min := bin8 (d ! 1 AND 0x7f), tm_hour := bin8 (d ! 2 AND 0x3f),
         tm_mday := bin8 (d ! 3 AND 0x3f), tm_mon := bin8 (d ! 4 AND 0x1f) - 1,
         tm_year := bin8 (d ! 5 AND 0xff) + 2000 - 1900, tm_wday := bin8 (d ! 6 AND 7)\<rparr>)) }"

definition set_isl1208 :: "u32 \<Rightarrow> 'd i2c \<Rightarrow> int \<Rightarrow> tm \<Rightarrow> ('d, unit option) state" where
  "set_isl1208 slave I cent_reg t =
     (if tm_year t < 100 \<or> tm_year t > 199 then State_Monad.return None
      else do {
        w \<leftarrow> isl1208_i2c_write slave I 0 [bcd8 (tm_sec t), bcd8 (tm_min t), bcd8 (tm_hour t) OR 0x80, bcd8 (tm_mday t),
          bcd8 (tm_mon t + 1), bcd8 (tm_year t smod 100), bcd8 (tm_wday t)];
        State_Monad.return (if w then Some () else None) })"

subsection \<open>RTC8564\<close>

definition rtc8564_i2c_read :: "'d i2c \<Rightarrow> u8 \<Rightarrow> nat \<Rightarrow> ('d, u8 list option) state" where
  "rtc8564_i2c_read I = chip_i2c_read I 0x51"

definition rtc8564_i2c_write :: "'d i2c \<Rightarrow> u8 \<Rightarrow> u8 list \<Rightarrow> ('d, bool) state" where
  "rtc8564_i2c_write I = chip_i2c_write I 0x51"

definition get_rtc8564 :: "'d i2c \<Rightarrow> int \<Rightarrow> tm \<Rightarrow> ('d, tm option) state" where
  "get_rtc8564 I cent_reg t = do {
     r \<leftarrow> rtc8564_i2c_read I 2 7;
     State_Monad.return (case r of None \<Rightarrow> None | Some d \<Rightarrow>
       Some (t\<lparr>tm_sec := bin8 (d ! 0 AND 0x7f), tm_min := bin8 (d ! 1 AND 0x7f), tm_hour := bin8 (d ! 2 AND 0x3f),
         tm_mday := bin8 (d ! 3 AND 0x3f), tm_wday := uint (d ! 4 AND 7), tm_mon := uint (d ! 5 AND 0x1f) - 1,
         tm_year := (if bin8 (d ! 6) < 70 then bin8 (d ! 6) + 100 else bin8 (d ! 6))\<rparr>)) }"

definition set_rtc8564 :: "'d i2c \<Rightarrow> int \<Rightarrow> tm \<Rightarrow> ('d, unit option) state" where
  "set_rtc8564 I cent_reg t = do {
     rtc8564_i2c_write I 2 [bcd8 (tm_sec t), bcd8 (tm_min t), bcd8 (tm_hour t), bcd8 (tm_mday t),
       bcd8 (tm_wday t AND 7), bcd8 (tm_mon t + 1), bcd8 (tm_year t smod 100)];
     ok }"

subsection \<open>S-35390A\<close>

text \<open>The chip sends the low bit first: \<open>s35390_fixup\<close> turns every byte round, bit by bit.\<close>

primrec fixup_bits :: "nat \<Rightarrow> u8 \<Rightarrow> u8 \<Rightarrow> u8" where
  "fixup_bits 0 v temp1 = temp1"
| "fixup_bits (Suc n) v temp1 =
     (let j = 7 - n; temp2 = drop_bit j v AND 1
      in fixup_bits n v (temp1 OR push_bit (7 - j) temp2))"

definition s35390_fixup :: "u8 list \<Rightarrow> u8 list" where
  "s35390_fixup val = map (\<lambda>v. fixup_bits 8 v 0) val"

definition s35390_i2c_read :: "'d i2c \<Rightarrow> u32 \<Rightarrow> nat \<Rightarrow> ('d, u8 list option) state" where
  "s35390_i2c_read I reg num =
     i2c_recv I \<lparr>slave_addr = 0x30 + reg, send_len = 0, recv_len = num, stop_bit = True\<rparr>"

definition s35390_i2c_write :: "'d i2c \<Rightarrow> u32 \<Rightarrow> u8 list \<Rightarrow> ('d, bool) state" where
  "s35390_i2c_write I reg val =
     i2c_send I \<lparr>slave_addr = 0x30 + reg, send_len = length val, recv_len = 0, stop_bit = True\<rparr> val"

definition get_s35390 :: "'d i2c \<Rightarrow> int \<Rightarrow> tm \<Rightarrow> ('d, tm option) state" where
  "get_s35390 I cent_reg t = do {
     r \<leftarrow> s35390_i2c_read I 2 7;
     (case r of None \<Rightarrow> State_Monad.return None | Some b \<Rightarrow> do {
        q \<leftarrow> s35390_i2c_read I 0 1;
        State_Monad.return (case q of None \<Rightarrow> None | Some st \<Rightarrow>
          let d = s35390_fixup b; status = s35390_fixup st ! 0
          in Some (t\<lparr>tm_sec := bin8 (d ! 6), tm_min := bin8 (d ! 5),
               tm_hour := (if status AND 2 = 0 \<and> d ! 4 AND 0x40 \<noteq> 0 then bin8 (d ! 4 AND 0x3f) + 12
                           else bin8 (d ! 4 AND 0x3f)),
               tm_mday := bin8 (d ! 2), tm_mon := bin8 (d ! 1) - 1,
               tm_year := (if bin8 (d ! 0) < 70 then bin8 (d ! 0) + 100 else bin8 (d ! 0)),
               tm_wday := bin8 (d ! 3)\<rparr>)) }) }"

definition set_s35390 :: "'d i2c \<Rightarrow> int \<Rightarrow> tm \<Rightarrow> ('d, unit option) state" where
  "set_s35390 I cent_reg t = do {
     q \<leftarrow> s35390_i2c_read I 0 1;
     (case q of None \<Rightarrow> State_Monad.return None | Some st \<Rightarrow> do {
        hour \<leftarrow> State_Monad.return
          (if s35390_fixup st ! 0 AND 2 \<noteq> 0 then bcd8 (tm_hour t)
           else if tm_hour t < 12 then bcd8 (tm_hour t) else 0x40 OR bcd8 (tm_hour t - 12));
        w \<leftarrow> s35390_i2c_write I 2 (s35390_fixup [bcd8 (tm_year t smod 100), bcd8 (tm_mon t + 1), bcd8 (tm_mday t),
          bcd8 (tm_wday t), hour, bcd8 (tm_min t), bcd8 (tm_sec t)]);
        State_Monad.return (if w then Some () else None) }) }"

subsection \<open>The abstract bus: register files by slave address\<close>

fun put_regs :: "(u8 \<Rightarrow> u8) \<Rightarrow> u8 \<Rightarrow> u8 list \<Rightarrow> u8 \<Rightarrow> u8" where
  "put_regs f reg [] = f"
| "put_regs f reg (v # vs) = put_regs (f(reg := v)) (reg + 1) vs"

definition get_regs :: "(u8 \<Rightarrow> u8) \<Rightarrow> u8 \<Rightarrow> nat \<Rightarrow> u8 list" where
  "get_regs f reg n = map (\<lambda>i. f (reg + of_nat i)) [0..<n]"

definition regs_sendrecv :: "i2c_hdr \<Rightarrow> u8 \<Rightarrow> (u32 \<Rightarrow> u8 \<Rightarrow> u8, u8 list option) state" where
  "regs_sendrecv h reg = State (\<lambda>V. (Some (get_regs (V (slave_addr h)) reg (recv_len h)), V))"

definition regs_send :: "i2c_hdr \<Rightarrow> u8 list \<Rightarrow> (u32 \<Rightarrow> u8 \<Rightarrow> u8, bool) state" where
  "regs_send h bytes = State (\<lambda>V. (True,
     case bytes of [] \<Rightarrow> V | reg # val \<Rightarrow> V(slave_addr h := put_regs (V (slave_addr h)) reg val)))"

definition banks_recv :: "i2c_hdr \<Rightarrow> (u32 \<Rightarrow> u8 \<Rightarrow> u8, u8 list option) state" where
  "banks_recv h = State (\<lambda>V. (Some (get_regs (V (slave_addr h)) 0 (recv_len h)), V))"

definition banks_send :: "i2c_hdr \<Rightarrow> u8 list \<Rightarrow> (u32 \<Rightarrow> u8 \<Rightarrow> u8, bool) state" where
  "banks_send h bytes = State (\<lambda>V. (True, V(slave_addr h := put_regs (V (slave_addr h)) 0 bytes)))"

definition i2c_file :: "(u32 \<Rightarrow> u8 \<Rightarrow> u8) i2c" where
  "i2c_file = \<lparr>i2c_sendrecv = regs_sendrecv, i2c_send = regs_send, i2c_recv = banks_recv\<rparr>"

definition bank_file :: "(u32 \<Rightarrow> u8 \<Rightarrow> u8) i2c" where
  "bank_file = \<lparr>i2c_sendrecv = regs_sendrecv, i2c_send = banks_send, i2c_recv = banks_recv\<rparr>"

locale i2c_regs =
  fixes I :: "'d i2c" and view :: "'d \<Rightarrow> u32 \<Rightarrow> u8 \<Rightarrow> u8"
  assumes sendrecv_law: "simulated view (i2c_sendrecv I h reg) (regs_sendrecv h reg)"
    and send_law: "simulated view (i2c_send I h bytes) (regs_send h bytes)"
begin

lemma rw_sims [sim_intros]:
  "simulated view (chip_i2c_read I a reg n) (chip_i2c_read i2c_file a reg n)"
  "simulated view (chip_i2c_write I a reg v) (chip_i2c_write i2c_file a reg v)"
  using sendrecv_law send_law by (simp_all add: chip_i2c_read_def chip_i2c_write_def i2c_file_def)

lemma i2c_sims:
  "simulated view (set_ds1337 I c t) (set_ds1337 i2c_file c t)"
  "simulated view (get_ds1337 I c t) (get_ds1337 i2c_file c t)"
  "simulated view (set_ds3232 I c t) (set_ds3232 i2c_file c t)"
  "simulated view (get_ds3232 I c t) (get_ds3232 i2c_file c t)"
  "simulated view (set_m41t00 I c t) (set_m41t00 i2c_file c t)"
  "simulated view (get_m41t00 I c t) (get_m41t00 i2c_file c t)"
  "simulated view (set_m41t6x I c t) (set_m41t6x i2c_file c t)"
  "simulated view (get_m41t6x I c t) (get_m41t6x i2c_file c t)"
  "simulated view (set_mc9s08dz60 I c t) (set_mc9s08dz60 i2c_file c t)"
  "simulated view (get_mc9s08dz60 I c t) (get_mc9s08dz60 i2c_file c t)"
  "simulated view (set_pcf2127at I c t) (set_pcf2127at i2c_file c t)"
  "simulated view (get_pcf2127at I c t) (get_pcf2127at i2c_file c t)"
  "simulated view (set_isl1208 s I c t) (set_isl1208 s i2c_file c t)"
  "simulated view (get_isl1208 s I c t) (get_isl1208 s i2c_file c t)"
  "simulated view (set_rtc8564 I c t) (set_rtc8564 i2c_file c t)"
  "simulated view (get_rtc8564 I c t) (get_rtc8564 i2c_file c t)"
  unfolding set_ds1337_def get_ds1337_def ds1337_i2c_read_def ds1337_i2c_write_def
    set_ds3232_def get_ds3232_def ds3232_i2c_read_def ds3232_i2c_write_def
    set_m41t00_def get_m41t00_def m41t00_i2c_read_def m41t00_i2c_write_def
    set_m41t6x_def get_m41t6x_def m41t6x_i2c_read_def m41t6x_i2c_write_def
    set_mc9s08dz60_def get_mc9s08dz60_def mc9s08dz60_i2c_read_def mc9s08dz60_i2c_write_def
    set_pcf2127at_def get_pcf2127at_def pcf2127at_i2c_read_def pcf2127at_i2c_write_def
    set_isl1208_def get_isl1208_def isl1208_i2c_read_def isl1208_i2c_write_def
    set_rtc8564_def get_rtc8564_def rtc8564_i2c_read_def rtc8564_i2c_write_def
  by (intro sim_intros)+

end

locale i2c_banks =
  fixes I :: "'d i2c" and view :: "'d \<Rightarrow> u32 \<Rightarrow> u8 \<Rightarrow> u8"
  assumes recv_law: "simulated view (i2c_recv I h) (banks_recv h)"
    and bank_send_law: "simulated view (i2c_send I h bytes) (banks_send h bytes)"
begin

lemma bank_sims [sim_intros]:
  "simulated view (s35390_i2c_read I r n) (s35390_i2c_read bank_file r n)"
  "simulated view (s35390_i2c_write I r v) (s35390_i2c_write bank_file r v)"
  using recv_law bank_send_law by (simp_all add: s35390_i2c_read_def s35390_i2c_write_def bank_file_def)

lemma s35390_sims:
  "simulated view (set_s35390 I c t) (set_s35390 bank_file c t)"
  "simulated view (get_s35390 I c t) (get_s35390 bank_file c t)"
  unfolding set_s35390_def get_s35390_def by (intro sim_intros)+

end

subsection \<open>Devices with a register pointer\<close>

text \<open>
  The devices the interfaces are interpreted on: each has a pointer that the first byte of a
  transfer loads (or the start of the transfer, for a bank) and that moves on by one with every
  byte written or read.
\<close>

record i2c_dev =
  ptr :: u8
  cells :: "u8 \<Rightarrow> u8"

fun dev_put :: "i2c_dev \<Rightarrow> u8 list \<Rightarrow> i2c_dev" where
  "dev_put D [] = D"
| "dev_put D (v # vs) = dev_put (D\<lparr>ptr := ptr D + 1, cells := (cells D)(ptr D := v)\<rparr>) vs"

primrec dev_take :: "i2c_dev \<Rightarrow> nat \<Rightarrow> u8 list \<times> i2c_dev" where
  "dev_take D 0 = ([], D)"
| "dev_take D (Suc n) =
     (case dev_take (D\<lparr>ptr := ptr D + 1\<rparr>) n of (vs, E) \<Rightarrow> (cells D (ptr D) # vs, E))"

definition ptr_bus :: "(u32 \<Rightarrow> i2c_dev) i2c" where
  "ptr_bus = \<lparr>
     i2c_sendrecv = (\<lambda>h reg. State (\<lambda>W.
       case dev_take ((W (slave_addr h))\<lparr>ptr := reg\<rparr>) (recv_len h) of
         (vs, D) \<Rightarrow> (Some vs, W(slave_addr h := D)))),
     i2c_send = (\<lambda>h bytes. State (\<lambda>W. (True, case bytes of [] \<Rightarrow> W
       | reg # val \<Rightarrow> W(slave_addr h := dev_put ((W (slave_addr h))\<lparr>ptr := reg\<rparr>) val)))),
     i2c_recv = (\<lambda>h. State (\<lambda>W.
       case dev_take ((W (slave_addr h))\<lparr>ptr := 0\<rparr>) (recv_len h) of
         (vs, D) \<Rightarrow> (Some vs, W(slave_addr h := D))))\<rparr>"

definition bank_bus :: "(u32 \<Rightarrow> i2c_dev) i2c" where
  "bank_bus = ptr_bus\<lparr>
     i2c_send := (\<lambda>h bytes. State (\<lambda>W.
       (True, W(slave_addr h := dev_put ((W (slave_addr h))\<lparr>ptr := 0\<rparr>) bytes))))\<rparr>"

definition dev_view :: "(u32 \<Rightarrow> i2c_dev) \<Rightarrow> u32 \<Rightarrow> u8 \<Rightarrow> u8" where
  "dev_view W a = cells (W a)"

lemma cells_dev_put: "cells (dev_put D vs) = put_regs (cells D) (ptr D) vs"
  by (induction D vs rule: dev_put.induct) (simp_all add: fun_upd_def)

lemma dev_take_regs: "\<exists>E. dev_take D n = (get_regs (cells D) (ptr D) n, E) \<and> cells E = cells D"
proof (induction n arbitrary: D)
  case 0
  then show ?case by (simp add: get_regs_def)
next
  case (Suc n)
  have "get_regs f r (Suc n) = f r # get_regs f (r + 1) n" for f r
    unfolding get_regs_def upt_conv_Cons [OF zero_less_Suc] map_Suc_upt [symmetric]
    by (simp add: comp_def algebra_simps)
  then show ?case using Suc.IH [of "D\<lparr>ptr := ptr D + 1\<rparr>"] by auto
qed

lemma dev_view_upd: "dev_view (W(a := D)) = (dev_view W)(a := cells D)"
  by (simp add: dev_view_def fun_eq_iff)

lemma dev_view_same: "cells D = cells (W a) \<Longrightarrow> dev_view (W(a := D)) = dev_view W"
  by (simp add: dev_view_def fun_eq_iff)

lemma simulated_take:
  "simulated dev_view (State (\<lambda>W. case dev_take ((W a)\<lparr>ptr := r\<rparr>) n of (vs, D) \<Rightarrow> (Some vs, W(a := D))))
     (State (\<lambda>V. (Some (get_regs (V a) r n), V)))"
  unfolding simulated_def
proof
  fix W :: "u32 \<Rightarrow> i2c_dev"
  obtain E where "dev_take ((W a)\<lparr>ptr := r\<rparr>) n = (get_regs (cells (W a)) r n, E)" "cells E = cells (W a)"
    using dev_take_regs [of "(W a)\<lparr>ptr := r\<rparr>" n] by auto
  then show "map_prod id dev_view
      (run_state (State (\<lambda>W. case dev_take ((W a)\<lparr>ptr := r\<rparr>) n of (vs, D) \<Rightarrow> (Some vs, W(a := D)))) W) =
    run_state (State (\<lambda>V. (Some (get_regs (V a) r n), V))) (dev_view W)"
    using dev_view_same [of E W a] by (simp add: dev_view_def [of W a])
qed

interpretation rg: i2c_regs ptr_bus dev_view
proof unfold_locales
  show "simulated dev_view (i2c_sendrecv ptr_bus h reg) (regs_sendrecv h reg)" for h reg
    using simulated_take by (simp add: ptr_bus_def regs_sendrecv_def)
  show "simulated dev_view (i2c_send ptr_bus h bytes) (regs_send h bytes)" for h bytes
    by (cases bytes) (simp_all add: simulated_def ptr_bus_def regs_send_def dev_view_upd cells_dev_put dev_view_def)
qed

interpretation bk: i2c_banks bank_bus dev_view
proof unfold_locales
  show "simulated dev_view (i2c_recv bank_bus h) (banks_recv h)" for h
    using simulated_take by (simp add: ptr_bus_def bank_bus_def banks_recv_def)
  show "simulated dev_view (i2c_send bank_bus h bytes) (banks_send h bytes)" for h bytes
    by (simp add: simulated_def bank_bus_def banks_send_def dev_view_upd cells_dev_put dev_view_def)
qed

subsection \<open>On the abstract bus\<close>

lemma run_i2c [simp]:
  "run_state (chip_i2c_read i2c_file a reg n) V = (Some (get_regs (V a) reg n), V)"
  "run_state (chip_i2c_write i2c_file a reg v) V = (True, V(a := put_regs (V a) reg v))"
  by (simp_all add: chip_i2c_read_def chip_i2c_write_def i2c_file_def regs_sendrecv_def regs_send_def)

lemma regs_seven [simp]: "get_regs f r 7 = [f r, f (r + 1), f (r + 2), f (r + 3), f (r + 4), f (r + 5), f (r + 6)]"
  by (simp add: get_regs_def upt_rec numeral_eq_Suc)

text \<open>
  The decimal digits of a field are few: what the masks of the chips do to them is checked for
  each value.
\<close>

lemma each_of: "list_all P [0..k] \<Longrightarrow> 0 \<le> n \<Longrightarrow> n \<le> k \<Longrightarrow> P n" for n :: int
  by (simp add: list_all_iff)

lemma bin8_all: "list_all (\<lambda>n. bin8 (bcd8 n) = n) [0..99]"
  by code_simp

lemma bin8_masked_all:
  "list_all (\<lambda>n. bin8 (bcd8 n AND 0x7f) = n) [0..79]"
  "list_all (\<lambda>n. bin8 (bcd8 n AND 0x3f) = n \<and> bcd8 n AND 0x40 = 0) [0..39]"
  "list_all (\<lambda>n. bin8 (bcd8 n AND 0x1f) = n \<and> bcd8 n AND 0x80 = 0) [0..19]"
  "list_all (\<lambda>n. bin8 (bcd8 n AND 7) = n) [0..7]"
  by code_simp+

lemma bin8_bcd8 [simp]:
  "0 \<le> n \<Longrightarrow> n < 100 \<Longrightarrow> bin8 (bcd8 n) = n"
  "0 \<le> n \<Longrightarrow> n < 80 \<Longrightarrow> bin8 (bcd8 n AND 0x7f) = n"
  "0 \<le> n \<Longrightarrow> n < 40 \<Longrightarrow> bin8 (bcd8 n AND 0x3f) = n"
  "0 \<le> n \<Longrightarrow> n < 40 \<Longrightarrow> bcd8 n AND 0x40 = 0"
  "0 \<le> n \<Longrightarrow> n < 20 \<Longrightarrow> bin8 (bcd8 n AND 0x1f) = n"
  "0 \<le> n \<Longrightarrow> n < 20 \<Longrightarrow> bcd8 n AND 0x80 = 0"
  "0 \<le> n \<Longrightarrow> n < 8 \<Longrightarrow> bin8 (bcd8 n AND 7) = n"
  using each_of [OF bin8_all] bin8_masked_all [THEN each_of] by simp_all

lemma and_norm8: "(x OR y) AND z = (x AND z) OR (y AND z)" "(x AND y) AND z = x AND (y AND z)"
  for x y z :: u8
  by (simp_all add: bit.conj_disj_distrib2 and.assoc)

lemma masks8 [simp]: "x AND - 129 = x AND 0x7f" "x AND - 193 = x AND 0x3f" "x AND 0xff = x" for x :: u8
proof -
  have "(- 129 :: u8) = 0x7f" "(- 193 :: u8) = 0x3f" "(0xff :: u8) = - 1" by code_simp+
  then show "x AND - 129 = x AND 0x7f" "x AND - 193 = x AND 0x3f" "x AND 0xff = x" by (metis bit.conj_one_right)+
qed

lemma or_zero8 [simp]: "x OR y = 0 \<longleftrightarrow> x = 0 \<and> y = 0" for x y :: u8
  by (auto simp: bit_eq_iff bit_simps)

lemma year_split: "0 \<le> y mod 100" "y mod 100 < 100" "100 \<le> y \<Longrightarrow> y < 200 \<Longrightarrow> y mod 100 + 100 = y"
  "100 \<le> y \<Longrightarrow> y < 200 \<Longrightarrow> 100 + y mod 100 = y"
  "0 \<le> y \<Longrightarrow> y < 100 \<Longrightarrow> y mod 100 = y" for y :: int
  by presburger+

lemmas i2c_simps = tm_ok_def cent_parts clock_roundtrip_def same_time_def and_norm8 year_split

lemma ds1337_reg:
  assumes "tm_ok 70 170 t"
  shows "clock_roundtrip (set_ds1337 i2c_file c) (get_ds1337 i2c_file c) t t0 V"
  using assms
  by (auto simp: set_ds1337_def get_ds1337_def ds1337_i2c_read_def ds1337_i2c_write_def i2c_simps
     split: if_splits intro: year_facts)

lemma ds3232_reg:
  assumes "tm_ok 0 200 t"
  shows "clock_roundtrip (set_ds3232 i2c_file c) (get_ds3232 i2c_file c) t t0 V"
  using assms
  by (simp add: set_ds3232_def get_ds3232_def ds3232_i2c_read_def ds3232_i2c_write_def ds3232_hour_def i2c_simps)

lemma mc9s08dz60_reg:
  assumes "tm_ok 70 170 t"
  shows "clock_roundtrip (set_mc9s08dz60 i2c_file c) (get_mc9s08dz60 i2c_file c) t t0 V"
  using assms
  by (auto simp: set_mc9s08dz60_def get_mc9s08dz60_def mc9s08dz60_i2c_read_def mc9s08dz60_i2c_write_def i2c_simps
     split: if_splits intro: year_facts)

lemma isl1208_reg:
  assumes "tm_ok 100 200 t"
  shows "clock_roundtrip (set_isl1208 sl i2c_file c) (get_isl1208 sl i2c_file c) t t0 V"
  using assms
  by (simp add: set_isl1208_def get_isl1208_def isl1208_i2c_read_def isl1208_i2c_write_def i2c_simps)

lemma centuries: "70 \<le> y \<Longrightarrow> y < 270 \<Longrightarrow>
    y div 100 = 0 \<and> y mod 100 = y \<and> 70 \<le> y \<or> y div 100 = 1 \<and> y mod 100 + 100 = y \<or>
    y div 100 = 2 \<and> y mod 100 < 70 \<and> y mod 100 + 200 = y" for y :: int
  by presburger

lemma m41t00_reg:
  assumes "tm_ok 70 270 t"
  shows "clock_roundtrip (set_m41t00 i2c_file c) (get_m41t00 i2c_file c) t t0 V"
proof -
  have "70 \<le> tm_year t" "tm_year t < 270" using assms by (simp_all add: tm_ok_def)
  from centuries [OF this] consider (a) "tm_year t div 100 = 0" "tm_year t mod 100 = tm_year t" "70 \<le> tm_year t"
      "tm_year t < 100"
    | (b) "tm_year t div 100 = 1" "tm_year t mod 100 + 100 = tm_year t"
    | (c) "tm_year t div 100 = 2" "tm_year t mod 100 < 70" "tm_year t mod 100 + 200 = tm_year t"
    by fastforce
  then show ?thesis
    by cases (use assms in \<open>simp add: set_m41t00_def get_m41t00_def m41t00_i2c_read_def m41t00_i2c_write_def
      m41t00_year_def i2c_simps\<close>)+
qed

lemma four_centuries: "100 \<le> y \<Longrightarrow> y < 500 \<Longrightarrow>
    y div 100 = 1 \<and> y mod 100 + 100 = y \<or> y div 100 = 2 \<and> y mod 100 + 200 = y \<or>
    y div 100 = 3 \<and> y mod 100 + 300 = y \<or> y div 100 = 4 \<and> y mod 100 + 400 = y" for y :: int
  by presburger

lemma month_top_all: "list_all (\<lambda>n. bcd8 n AND 0xc0 = 0) [0..39]"
  by code_simp

lemma month_top [simp]: "0 \<le> n \<Longrightarrow> n < 40 \<Longrightarrow> bcd8 n AND 0xc0 = 0"
  using each_of [OF month_top_all] by simp

lemma m41t6x_reg:
  assumes "tm_ok 100 500 t"
  shows "clock_roundtrip (set_m41t6x i2c_file c) (get_m41t6x i2c_file c) t t0 V"
proof -
  have "100 \<le> tm_year t" "tm_year t < 500" using assms by (simp_all add: tm_ok_def)
  from four_centuries [OF this] consider (a) "tm_year t div 100 = 1" "tm_year t mod 100 + 100 = tm_year t"
    | (b) "tm_year t div 100 = 2" "tm_year t mod 100 + 200 = tm_year t"
    | (c) "tm_year t div 100 = 3" "tm_year t mod 100 + 300 = tm_year t"
    | (d) "tm_year t div 100 = 4" "tm_year t mod 100 + 400 = tm_year t"
    by fastforce
  then show ?thesis
    by cases (use assms in \<open>simp add: set_m41t6x_def get_m41t6x_def m41t6x_i2c_read_def m41t6x_i2c_write_def
      m41t6x_century_def i2c_simps\<close>)+
qed

lemma pcf2127at_reg:
  assumes "tm_ok 100 200 t" and "run_state (set_pcf2127at i2c_file c t) V = (r, V1)"
    and "run_state (get_pcf2127at i2c_file c t0) V1 = (q, V2)"
  shows "r = Some () \<and> (\<exists>t1. q = Some t1 \<and> tm_min t1 = tm_sec t \<and> tm_year t1 = tm_mon t + 101)"
  using assms
  by (auto simp: set_pcf2127at_def get_pcf2127at_def pcf2127at_i2c_read_def pcf2127at_i2c_write_def
      pcf2127at_ctrl_value_def i2c_simps)

lemma late_months_all: "list_all (\<lambda>n. uint (bcd8 n AND 0x1f) = (if n < 10 then n else n + 6)) [0..12]"
  by code_simp

lemma late_months [simp]: "0 \<le> n \<Longrightarrow> n < 12 \<Longrightarrow> uint (bcd8 (n + 1) AND 0x1f) = (if n < 9 then n + 1 else n + 7)"
  using each_of [OF late_months_all, of "n + 1"] by simp

lemma rtc8564_reg:
  assumes "tm_ok 70 170 t" and "run_state (set_rtc8564 i2c_file c t) V = (r, V1)"
    and "run_state (get_rtc8564 i2c_file c t0) V1 = (q, V2)"
  shows "\<exists>t1. q = Some t1 \<and> same_time (t1\<lparr>tm_mon := tm_mon t\<rparr>) t \<and>
    tm_mon t1 = (if tm_mon t < 9 then tm_mon t else tm_mon t + 6)"
  using assms
  by (auto simp: set_rtc8564_def get_rtc8564_def rtc8564_i2c_read_def rtc8564_i2c_write_def i2c_simps
      intro: year_facts)

subsection \<open>The S-35390A on the abstract bus\<close>

lemma run_banks [simp]:
  "run_state (s35390_i2c_read bank_file r n) V = (Some (get_regs (V (0x30 + r)) 0 n), V)"
  "run_state (s35390_i2c_write bank_file r v) V = (True, V(0x30 + r := put_regs (V (0x30 + r)) 0 v))"
  by (simp_all add: s35390_i2c_read_def s35390_i2c_write_def bank_file_def banks_recv_def banks_send_def)

lemma get_one [simp]: "get_regs f r (Suc 0) = [f r]"
  by (simp add: get_regs_def)

lemma bit_fixup_bits:
  "n \<le> 8 \<Longrightarrow> bit (fixup_bits n v t) k \<longleftrightarrow> bit t k \<or> k < n \<and> bit v (7 - k)"
proof (induction n arbitrary: t)
  case (Suc n)
  have "bit (push_bit n (drop_bit (7 - n) v AND 1)) k \<longleftrightarrow> k = n \<and> bit v (7 - n)"
    using Suc.prems by (cases "k = n") (auto simp: bit_simps)
  moreover have "7 - (7 - n) = n" using Suc.prems by simp
  ultimately show ?case using Suc by (auto simp: Let_def bit_or_iff less_Suc_eq)
qed simp

lemma bit_fixup: "bit (fixup_bits 8 v 0) k \<longleftrightarrow> k < 8 \<and> bit v (7 - k)"
  using bit_fixup_bits [of 8 v 0 k] by simp

text \<open>Turning a byte round twice gives the byte.\<close>

lemma fixup_fixup [simp]: "fixup_bits 8 (fixup_bits 8 v 0) 0 = v"
  by (rule bit_word_eqI) (auto simp: bit_fixup)

lemma s35390_reg:
  assumes "tm_ok 70 170 t"
  shows "clock_roundtrip (set_s35390 bank_file c) (get_s35390 bank_file c) t t0 V"
  using assms
  by (auto simp: set_s35390_def get_s35390_def s35390_fixup_def Let_def or.commute [of 0x40] i2c_simps
     split: if_splits intro: year_facts)

subsection \<open>On every bus\<close>

text \<open>C16: on every I2C bus whose devices keep their registers, the DS1337 and the MC9S08DZ60 give
  back the date and time they were set to, for the years 1970 to 2069.\<close>

theorem i2c_window_roundtrip:
  assumes "i2c_regs I view" and "tm_ok 70 170 t"
  shows "clock_roundtrip (set_ds1337 I c) (get_ds1337 I c) t t0 d \<and>
    clock_roundtrip (set_mc9s08dz60 I c) (get_mc9s08dz60 I c) t t0 d"
proof -
  note sims = i2c_regs.i2c_sims [OF assms(1)]
  show ?thesis
    using clock_roundtrip_sim [OF sims(1,2) ds1337_reg [OF assms(2)]]
      clock_roundtrip_sim [OF sims(9,10) mc9s08dz60_reg [OF assms(2)]] by simp
qed

lemma i2c_window_roundtrip_witness:
  "clock_roundtrip (set_ds1337 ptr_bus UNSET) (get_ds1337 ptr_bus UNSET) ex_tm ex_tm (\<lambda>_. \<lparr>ptr = 3, cells = \<lambda>_. 0xff\<rparr>)"
  using i2c_window_roundtrip [OF rg.i2c_regs_axioms ex_tm_ok(1)] by blast

text \<open>C17: the chips that keep the century give back the date and time for as many years as their
  century bits tell apart: the DS3232 from 1900 to 2099, the M41T00 from 1970 to 2169, the M41T6x
  from 2000 to 2399, the ISL1208 from 2000 to 2099.\<close>

theorem i2c_century_roundtrip:
  assumes "i2c_regs I view"
  shows "(tm_ok 0 200 t \<longrightarrow> clock_roundtrip (set_ds3232 I c) (get_ds3232 I c) t t0 d) \<and>
    (tm_ok 70 270 t \<longrightarrow> clock_roundtrip (set_m41t00 I c) (get_m41t00 I c) t t0 d) \<and>
    (tm_ok 100 500 t \<longrightarrow> clock_roundtrip (set_m41t6x I c) (get_m41t6x I c) t t0 d) \<and>
    (tm_ok 100 200 t \<longrightarrow> clock_roundtrip (set_isl1208 sl I c) (get_isl1208 sl I c) t t0 d)"
proof (intro conjI impI)
  note sims = i2c_regs.i2c_sims [OF assms]
  show "clock_roundtrip (set_ds3232 I c) (get_ds3232 I c) t t0 d" if "tm_ok 0 200 t"
    by (rule clock_roundtrip_sim [OF sims(3,4) ds3232_reg [OF that]])
  show "clock_roundtrip (set_m41t00 I c) (get_m41t00 I c) t t0 d" if "tm_ok 70 270 t"
    by (rule clock_roundtrip_sim [OF sims(5,6) m41t00_reg [OF that]])
  show "clock_roundtrip (set_m41t6x I c) (get_m41t6x I c) t t0 d" if "tm_ok 100 500 t"
    by (rule clock_roundtrip_sim [OF sims(7,8) m41t6x_reg [OF that]])
  show "clock_roundtrip (set_isl1208 sl I c) (get_isl1208 sl I c) t t0 d" if "tm_ok 100 200 t"
    by (rule clock_roundtrip_sim [OF sims(13,14) isl1208_reg [OF that]])
qed

lemma i2c_century_roundtrip_witness:
  "clock_roundtrip (set_ds3232 ptr_bus UNSET) (get_ds3232 ptr_bus UNSET) ex_tm ex_tm
     (\<lambda>_. \<lparr>ptr = 3, cells = \<lambda>_. 0xff\<rparr>) \<and>
   clock_roundtrip (set_m41t6x ptr_bus UNSET) (get_m41t6x ptr_bus UNSET) (ex_tm\<lparr>tm_year := 311\<rparr>) ex_tm
     (\<lambda>_. \<lparr>ptr = 3, cells = \<lambda>_. 0xff\<rparr>)"
proof
  note w = i2c_century_roundtrip [OF rg.i2c_regs_axioms, where sl = "0x6f"]
  show "clock_roundtrip (set_ds3232 ptr_bus UNSET) (get_ds3232 ptr_bus UNSET) ex_tm ex_tm
     (\<lambda>_. \<lparr>ptr = 3, cells = \<lambda>_. 0xff\<rparr>)"
    using w ex_tm_ok by blast
  have "tm_ok 100 500 (ex_tm\<lparr>tm_year := 311\<rparr>)" by (simp add: ex_tm_def tm_ok_def)
  then show "clock_roundtrip (set_m41t6x ptr_bus UNSET) (get_m41t6x ptr_bus UNSET) (ex_tm\<lparr>tm_year := 311\<rparr>) ex_tm
     (\<lambda>_. \<lparr>ptr = 3, cells = \<lambda>_. 0xff\<rparr>)"
    using w by blast
qed

text \<open>C18: the S-35390A, which sends every byte with its bits the other way round and keeps hours
  either in 24-hour or in 12-hour form, gives back the date and time it was set to, for the years
  1970 to 2069, whichever form its status register selects.\<close>

theorem s35390_roundtrip:
  assumes "i2c_banks I view" and "tm_ok 70 170 t"
  shows "clock_roundtrip (set_s35390 I c) (get_s35390 I c) t t0 d"
  by (rule clock_roundtrip_sim [OF i2c_banks.s35390_sims [OF assms(1)] s35390_reg [OF assms(2)]])

lemma s35390_roundtrip_witness:
  "clock_roundtrip (set_s35390 bank_bus UNSET) (get_s35390 bank_bus UNSET) ex_tm ex_tm
     (\<lambda>_. \<lparr>ptr = 3, cells = \<lambda>_. 0\<rparr>)"
  by (rule s35390_roundtrip [OF bk.i2c_banks_axioms ex_tm_ok(1)])

text \<open>C19: the RTC8564 gives back the date and time it was set to but for the month, which is
  written in decimal digits and read as a binary number: October to December come back six months
  too late.\<close>

theorem rtc8564_months:
  assumes "i2c_regs I view" and "tm_ok 70 170 t"
    and "run_state (set_rtc8564 I c t \<bind> (\<lambda>_. get_rtc8564 I c t0)) d = (q, d')"
  shows "\<exists>t1. q = Some t1 \<and> same_time (t1\<lparr>tm_mon := tm_mon t\<rparr>) t \<and>
    tm_mon t1 = (if tm_mon t < 9 then tm_mon t else tm_mon t + 6)"
proof -
  obtain r V1 where 1: "run_state (set_rtc8564 i2c_file c t) (view d) = (r, V1)" by fastforce
  obtain p V2 where 2: "run_state (get_rtc8564 i2c_file c t0) V1 = (p, V2)" by fastforce
  have "simulated view (set_rtc8564 I c t \<bind> (\<lambda>_. get_rtc8564 I c t0))
      (set_rtc8564 i2c_file c t \<bind> (\<lambda>_. get_rtc8564 i2c_file c t0))"
    by (intro sim_intros i2c_regs.i2c_sims(15,16) [OF assms(1)])
  moreover have "run_state (set_rtc8564 i2c_file c t \<bind> (\<lambda>_. get_rtc8564 i2c_file c t0)) (view d) = (p, V2)"
    using 1 2 by simp
  ultimately have "q = p" using simulated_run assms(3) by fastforce
  with rtc8564_reg [OF assms(2) 1 2] show ?thesis by simp
qed

lemma rtc8564_months_witness:
  "\<exists>t1. fst (run_state (set_rtc8564 ptr_bus UNSET ex_tm \<bind> (\<lambda>_. get_rtc8564 ptr_bus UNSET ex_tm))
       (\<lambda>_. \<lparr>ptr = 3, cells = \<lambda>_. 0xff\<rparr>)) = Some t1 \<and> tm_mon t1 = 17"
proof -
  obtain q d' where "run_state (set_rtc8564 ptr_bus UNSET ex_tm \<bind> (\<lambda>_. get_rtc8564 ptr_bus UNSET ex_tm))
       (\<lambda>_. \<lparr>ptr = 3, cells = \<lambda>_. 0xff\<rparr>) = (q, d')" by fastforce
  from rtc8564_months [OF rg.i2c_regs_axioms ex_tm_ok(1) this] this show ?thesis
    by (auto simp: ex_tm_def)
qed

text \<open>C20: the PCF2127AT is written one register after the one it is read from: setting it
  succeeds, but what comes back has the seconds as its minutes and the month as its year.\<close>

theorem pcf2127at_shifted:
  assumes "i2c_regs I view" and "tm_ok 100 200 t"
    and "run_state (set_pcf2127at I c t) d = (r, d1)" and "run_state (get_pcf2127at I c t0) d1 = (q, d2)"
  shows "r = Some () \<and> (\<exists>t1. q = Some t1 \<and> tm_min t1 = tm_sec t \<and> tm_year t1 = tm_mon t + 101)"
proof -
  note sims = i2c_regs.i2c_sims(11,12) [OF assms(1)]
  obtain r' V1 where 1: "run_state (set_pcf2127at i2c_file c t) (view d) = (r', V1)" by fastforce
  from simulated_run [OF sims(1) 1] assms(3) have d1: "r' = r" "view d1 = V1" by auto
  obtain q' V2 where 2: "run_state (get_pcf2127at i2c_file c t0) V1 = (q', V2)" by fastforce
  then have "run_state (get_pcf2127at i2c_file c t0) (view d1) = (q', V2)" by (simp add: d1)
  from simulated_run [OF sims(2) this] assms(4) have "q' = q" by auto
  with pcf2127at_reg [OF assms(2) 1 2] d1(1) show ?thesis by simp
qed

lemma pcf2127at_shifted_witness:
  "\<exists>t1. fst (run_state (get_pcf2127at ptr_bus UNSET ex_tm) (snd (run_state
       (set_pcf2127at ptr_bus UNSET (ex_tm\<lparr>tm_year := 124\<rparr>)) (\<lambda>_. \<lparr>ptr = 3, cells = \<lambda>_. 0xff\<rparr>)))) = Some t1 \<and>
     tm_min t1 = 59 \<and> tm_year t1 = 112"
proof -
  have ok2: "tm_ok 100 200 (ex_tm\<lparr>tm_year := 124\<rparr>)" by (simp add: ex_tm_def tm_ok_def)
  obtain r d1 where 1: "run_state (set_pcf2127at ptr_bus UNSET (ex_tm\<lparr>tm_year := 124\<rparr>))
      (\<lambda>_. \<lparr>ptr = 3, cells = \<lambda>_. 0xff\<rparr>) = (r, d1)" by fastforce
  obtain q d2 where 2: "run_state (get_pcf2127at ptr_bus UNSET ex_tm) d1 = (q, d2)" by fastforce
  from pcf2127at_shifted [OF rg.i2c_regs_axioms ok2 1 2] 1 2 show ?thesis
    by (simp add: ex_tm_def)
qed

end
