(* ===== verification/Syspage.thy ===== *)
theory Syspage
  imports Lsp
begin

section \<open>The memory of the system page\<close>

text \<open>
  \<open>syspage_memory.c\<close>: the sections of the system page lie next to each other in one block of
  memory, and growing a section moves all that is behind it. The state holds the memory itself,
  byte by byte, with the address and size of every section (\<open>lsp\<close>) and the addresses
  registered with \<open>callout_register_data\<close>. The fields \<open>total_size\<close> and \<open>size\<close> of the
  page's header are kept beside the memory. The lemmas show that the sections stay apart, and
  that growing one appends zeros to its contents and leaves the contents of every other section,
  and the place within it that a registered address means, as they were.
\<close>

datatype sect_id =
    Sect_syspage | Sect_system_private | Sect_meminfo | Sect_asinfo | Sect_hwinfo | Sect_cpuinfo
  | Sect_cacheattr | Sect_qtime | Sect_callout | Sect_callin | Sect_typed_strings | Sect_strings
  | Sect_intrinfo | Sect_smp | Sect_pminfo | Sect_mdriver | Sect_arm_boxinfo | Sect_arm_cpu

record syspage =
  pg_mem :: "u32 \<Rightarrow> u8"
  pg_ptr :: "sect_id \<Rightarrow> u32"
  pg_size :: "sect_id \<Rightarrow> u32"
  pg_total :: u32
  pg_max :: u32
  pg_fixed :: u32
  pg_patch :: "(u32 \<times> u32) list"

subsection \<open>Moving memory\<close>

text \<open>
  \<open>memmove\<close> and \<open>memset\<close> on a block given by its address and length; the length of the
  way from the start of the block tells whether an address is in it.
\<close>

definition mem_move :: "u32 \<Rightarrow> u32 \<Rightarrow> u32 \<Rightarrow> (u32 \<Rightarrow> u8) \<Rightarrow> u32 \<Rightarrow> u8" where
  "mem_move dst src len m a = (if a - dst < len then m (src + (a - dst)) else m a)"

definition mem_set :: "u32 \<Rightarrow> u8 \<Rightarrow> u32 \<Rightarrow> (u32 \<Rightarrow> u8) \<Rightarrow> u32 \<Rightarrow> u8" where
  "mem_set dst c len m a = (if a - dst < len then c else m a)"

definition callout_reloc_data :: "u32 \<Rightarrow> u32 \<Rightarrow> u32 \<Rightarrow> (u32 \<times> u32) list \<Rightarrow> (u32 \<times> u32) list" where
  "callout_reloc_data base len diff pds =
     map (\<lambda>(owner, data). (if base \<le> owner \<and> base + len > owner then owner + diff else owner, data)) pds"

text \<open>The list is searched from its front, where the last registration stands.\<close>

definition callout_register_data :: "bool \<Rightarrow> u32 \<Rightarrow> u32 \<Rightarrow> (u32 \<times> u32) list \<Rightarrow> (u32 \<times> u32) list" where
  "callout_register_data has_patcher rp data pds =
     (if data \<noteq> 0 \<and> has_patcher \<and> rp \<notin> fst ` set pds then (rp, data) # pds else pds)"

subsection \<open>Growing a section\<close>

definition grow_syspage_section :: "sect_id \<Rightarrow> u32 \<Rightarrow> syspage \<Rightarrow> (u32 \<times> syspage) res" where
  "grow_syspage_section sect add P =
     (if add > 0
      then let add = ROUND add 8; new_size = pg_total P + add
           in if new_size > pg_max P then Inl ''Syspage memory request exceeds maximum''
              else let bottom = pg_ptr P sect + pg_size P sect;
                       moved = (\<lambda>s2. if s2 \<noteq> sect \<and> pg_ptr P s2 \<ge> bottom then pg_ptr P s2 + add else pg_ptr P s2);
                       len = pg_total P - (bottom - moved Sect_syspage)
                   in Inr (moved sect, P\<lparr>
                         pg_ptr := moved,
                         pg_mem := mem_set bottom 0 add (mem_move (bottom + add) bottom len (pg_mem P)),
                         pg_patch := callout_reloc_data bottom len add (pg_patch P),
                         pg_size := (pg_size P)(sect := pg_size P sect + add),
                         pg_total := new_size\<rparr>)
      else Inr (pg_ptr P sect, P))"






subsection \<open>Well-formed pages\<close>

text \<open>
  Offsets from the start of the page are natural numbers. On a well-formed page no address
  computation wraps around, every section is inside the page, and no two of them overlap.
\<close>

definition sect_off :: "syspage \<Rightarrow> sect_id \<Rightarrow> nat" where
  "sect_off P s = unat (pg_ptr P s - pg_ptr P Sect_syspage)"

definition sect_len :: "syspage \<Rightarrow> sect_id \<Rightarrow> nat" where
  "sect_len P s = unat (pg_size P s)"

definition page_ok :: "syspage \<Rightarrow> bool" where
  "page_ok P \<longleftrightarrow> pg_size P Sect_syspage > 0 \<and>
     unat (pg_ptr P Sect_syspage) + unat (pg_max P) < 2 ^ 32 \<and> pg_total P \<le> pg_max P \<and> 8 dvd unat (pg_total P) \<and>
     (\<forall>s. sect_off P s + sect_len P s \<le> unat (pg_total P)) \<and>
     (\<forall>s. s \<noteq> Sect_syspage \<longrightarrow> sect_len P Sect_syspage \<le> sect_off P s) \<and>
     (\<forall>s t. s \<noteq> t \<longrightarrow> sect_off P s + sect_len P s \<le> sect_off P t \<or> sect_off P t + sect_len P t \<le> sect_off P s)"

text \<open>What a section holds.\<close>

definition contents :: "syspage \<Rightarrow> sect_id \<Rightarrow> u8 list" where
  "contents P s = map (\<lambda>k. pg_mem P (pg_ptr P s + of_nat k)) [0..<sect_len P s]"

lemma unat_offset:
  "unat b + n < 2 ^ 32 \<Longrightarrow> unat (b + of_nat n) = unat b + n" for b :: u32
  by (simp add: unat_word_ariths unsigned_of_nat take_bit_eq_mod)

lemma off_offset: "n < 2 ^ 32 \<Longrightarrow> unat (b + of_nat n - b) = n" for b :: u32
  by (simp add: unsigned_of_nat take_bit_eq_mod)

lemma in_block:
  fixes b len :: u32
  assumes "n < 2 ^ 32" and "k < 2 ^ 32"
  shows "b + of_nat n - (b + of_nat k) < len \<longleftrightarrow>
    (if k \<le> n then n - k < unat len else n + 2 ^ 32 - k < unat len)"
proof -
  have "b + of_nat n - (b + of_nat k) = (of_nat n - of_nat k :: u32)" by simp
  moreover have "unat (of_nat n - of_nat k :: u32) = (if k \<le> n then n - k else n + 2 ^ 32 - k)"
  proof (cases "k \<le> n")
    case True
    then have "(of_nat n - of_nat k :: u32) = of_nat (n - k)" by (simp add: of_nat_diff)
    then show ?thesis using True assms by (simp add: unat_of_nat_small del: of_nat_diff)
  next
    case False
    then have "(of_nat n - of_nat k :: u32) = of_nat (n + 2 ^ 32 - k)"
      using assms by (simp add: of_nat_diff)
    then show ?thesis using False assms by (simp add: unat_of_nat_small del: of_nat_diff)
  qed
  ultimately show ?thesis by (simp add: word_less_nat_alt)
qed

lemma ptr_off: "pg_ptr P t = pg_ptr P Sect_syspage + of_nat (sect_off P t)"
  by (simp add: sect_off_def)

text \<open>One growth, read off in offsets.\<close>

lemma grow_step:
  assumes ok: "page_ok P" and g: "grow_syspage_section s add P = Inr (q, P')" and add: "add > 0"
    and small: "unat (pg_total P) + unat add + 7 < 2 ^ 32"
  defines "n \<equiv> unat (ROUND add 8)" and "b \<equiv> sect_off P s + sect_len P s"
  shows "unat (pg_total P') = unat (pg_total P) + n" and "pg_max P' = pg_max P" and "pg_total P' \<le> pg_max P"
    and "8 dvd n" and "n \<ge> unat add" and "n < unat add + 8"
    and "pg_ptr P' Sect_syspage = pg_ptr P Sect_syspage"
    and "q = pg_ptr P' s"
    and "sect_off P' t = (if t \<noteq> s \<and> b \<le> sect_off P t then sect_off P t + n else sect_off P t)"
    and "sect_len P' t = (if t = s then sect_len P s + n else sect_len P t)"
    and "pg_fixed P' = pg_fixed P"
    and "k < unat (pg_total P) + n \<Longrightarrow> pg_mem P' (pg_ptr P Sect_syspage + of_nat k) =
      (if k < b then pg_mem P (pg_ptr P Sect_syspage + of_nat k) else if k < b + n then 0
       else pg_mem P (pg_ptr P Sect_syspage + of_nat (k - n)))"
    and "pg_patch P' = callout_reloc_data (pg_ptr P Sect_syspage + of_nat b)
      (of_nat (unat (pg_total P) - b)) (of_nat n) (pg_patch P)"
proof -
  let ?B = "pg_ptr P Sect_syspage" and ?T = "unat (pg_total P)"
  have n: "n = (unat add + 7) div 8 * 8"
    unfolding n_def using small by (subst unat_ROUND [where k = 3]) simp_all
  show d: "8 dvd n" by (simp add: n)
  show "n \<ge> unat add" "n < unat add + 8" using n by linarith+
  have T: "?T + n < 2 ^ 32" using small n by linarith
  have bT: "b \<le> ?T" using ok by (simp add: page_ok_def b_def)
  have addw: "ROUND add 8 = of_nat n" by (simp add: n_def)
  have new: "unat (pg_total P + ROUND add 8) = ?T + n"
    using T by (simp add: unat_word_ariths n_def)
  have le: "\<not> pg_total P + ROUND add 8 > pg_max P" using g add by (auto simp: grow_syspage_section_def Let_def split: if_splits)
  then have M: "?T + n \<le> unat (pg_max P)" by (simp add: not_less word_le_nat_alt new)
  have BM: "unat ?B + unat (pg_max P) < 2 ^ 32" using ok by (simp add: page_ok_def)
  have bottom: "pg_ptr P s + pg_size P s = ?B + of_nat b"
    by (simp add: b_def ptr_off [of P s] sect_len_def)
  have ge: "?B + of_nat b \<le> pg_ptr P t \<longleftrightarrow> b \<le> sect_off P t" for t
  proof -
    have "sect_off P t \<le> ?T" using ok by (simp add: page_ok_def) (metis add_leD1)
    then have "unat (?B + of_nat (sect_off P t)) = unat ?B + sect_off P t"
      using BM M by (intro unat_offset) linarith
    moreover have "unat (?B + of_nat b) = unat ?B + b" using BM M bT by (intro unat_offset) linarith
    ultimately show ?thesis by (simp add: ptr_off [of P t] word_le_nat_alt)
  qed
  have b0: "b > 0"
  proof (cases "s = Sect_syspage")
    case True
    then show ?thesis using ok by (simp add: page_ok_def b_def sect_len_def word_less_nat_alt)
  next
    case False
    have "sect_len P Sect_syspage > 0" using ok by (simp add: page_ok_def sect_len_def word_less_nat_alt)
    moreover have "sect_len P Sect_syspage \<le> sect_off P s" using ok False by (simp add: page_ok_def)
    ultimately show ?thesis by (simp add: b_def)
  qed
  have base: "\<not> ?B + of_nat b \<le> ?B" using ge [of Sect_syspage] b0 by (simp add: sect_off_def)
  have len: "pg_total P - (?B + of_nat b - ?B) = of_nat (?T - b)"
    using bT by (simp add: of_nat_diff)
  define moved where "moved = (\<lambda>t. if t \<noteq> s \<and> b \<le> sect_off P t then pg_ptr P t + of_nat n else pg_ptr P t)"
  have P': "P' = P\<lparr>pg_ptr := moved,
      pg_mem := mem_set (?B + of_nat b) 0 (of_nat n) (mem_move (?B + of_nat b + of_nat n) (?B + of_nat b) (of_nat (?T - b)) (pg_mem P)),
      pg_patch := callout_reloc_data (?B + of_nat b) (of_nat (?T - b)) (of_nat n) (pg_patch P),
      pg_size := (pg_size P)(s := pg_size P s + of_nat n),
      pg_total := pg_total P + of_nat n\<rparr>" and q: "q = moved s"
    using g add le base len
    by (simp_all add: grow_syspage_section_def Let_def bottom ge addw moved_def split: if_splits)
  show "unat (pg_total P') = ?T + n" using new by (simp add: P' addw)
  show "pg_max P' = pg_max P" "pg_fixed P' = pg_fixed P" by (simp_all add: P')
  show "pg_total P' \<le> pg_max P" using le by (simp add: P' addw)
  show B': "pg_ptr P' Sect_syspage = ?B" using b0 by (simp add: P' moved_def sect_off_def)
  show "q = pg_ptr P' s" using q by (simp add: P')
  have offT: "sect_off P t + sect_len P t \<le> ?T" using ok by (simp add: page_ok_def)
  have "pg_ptr P' t - ?B = (if t \<noteq> s \<and> b \<le> sect_off P t
      then of_nat (sect_off P t) + of_nat n else of_nat (sect_off P t))"
    using ptr_off [of P t] by (cases "t = s") (simp_all add: P' moved_def)
  moreover have "sect_off P' t = unat (pg_ptr P' t - ?B)" by (simp only: sect_off_def B')
  moreover have "unat (of_nat (sect_off P t) + of_nat n :: u32) = sect_off P t + n"
    using offT T by (simp only: of_nat_add [symmetric]) (simp add: unat_of_nat_small del: of_nat_add)
  moreover have "unat (of_nat (sect_off P t) :: u32) = sect_off P t" by (simp add: sect_off_def)
  ultimately show "sect_off P' t = (if t \<noteq> s \<and> b \<le> sect_off P t then sect_off P t + n else sect_off P t)"
    by presburger
  show "sect_len P' t = (if t = s then sect_len P s + n else sect_len P t)"
  proof -
    have "unat (pg_size P s) + n < 2 ^ 32" using bT T by (simp add: b_def sect_len_def)
    then show ?thesis by (simp add: sect_len_def P' unat_offset)
  qed
  show "pg_mem P' (?B + of_nat k) =
      (if k < b then pg_mem P (?B + of_nat k) else if k < b + n then 0 else pg_mem P (?B + of_nat (k - n)))"
    if k: "k < ?T + n"
  proof -
    have k': "k < 2 ^ 32" "b < 2 ^ 32" "b + n < 2 ^ 32" "n < 2 ^ 32" "?T - b < 2 ^ 32" using k T bT by linarith+
    note in1 = in_block [OF k'(1,2), of ?B "of_nat n"]
    note in2 = in_block [OF k'(1,3), of ?B "of_nat (?T - b)"]
    have u: "unat (of_nat n :: u32) = n" "unat (of_nat (?T - b) :: u32) = ?T - b"
      using k' by (simp_all add: unat_of_nat_small del: of_nat_diff)
    consider "k < b" | "b \<le> k" "k < b + n" | "b + n \<le> k" by linarith
    then show ?thesis
    proof cases
      case 1
      then have "\<not> ?B + of_nat k - (?B + of_nat b) < of_nat n" "\<not> ?B + of_nat k - (?B + of_nat (b + n)) < of_nat (?T - b)"
        using in1 in2 T bT u by (simp_all del: of_nat_diff of_nat_add)
      then show ?thesis using 1 by (simp add: P' mem_set_def mem_move_def add.assoc del: of_nat_diff)
    next
      case 2
      then have "?B + of_nat k - (?B + of_nat b) < of_nat n"
        using in1 u by (auto simp del: of_nat_diff of_nat_add)
      then show ?thesis using 2 by (simp add: P' mem_set_def)
    next
      case 3
      then have "\<not> ?B + of_nat k - (?B + of_nat b) < of_nat n" using in1 u by (auto simp del: of_nat_diff of_nat_add)
      moreover have "?B + of_nat k - (?B + of_nat (b + n)) < of_nat (?T - b)"
        using in2 u 3 k by (auto simp del: of_nat_diff of_nat_add)
      moreover have "?B + of_nat b + (?B + of_nat k - (?B + of_nat b + of_nat n)) = ?B + of_nat (k - n)"
        using 3 by (simp add: of_nat_diff)
      ultimately show ?thesis using 3 by (simp add: P' mem_set_def mem_move_def add.assoc del: of_nat_diff)
    qed
  qed
  show "pg_patch P' = callout_reloc_data (?B + of_nat b) (of_nat (?T - b)) (of_nat n) (pg_patch P)"
    by (simp add: P')
qed

text \<open>Growing keeps a page well-formed, and the contents of every section.\<close>

lemma grow_page_ok:
  assumes ok: "page_ok P" and g: "grow_syspage_section s add P = Inr (q, P')" and add: "add > 0"
    and small: "unat (pg_total P) + unat add + 7 < 2 ^ 32"
  shows "page_ok P'"
proof -
  note st = grow_step [OF ok g add small]
  define n where "n = unat (ROUND add 8)"
  define b where "b = sect_off P s + sect_len P s"
  have O: "sect_off P' t = (if t \<noteq> s \<and> b \<le> sect_off P t then sect_off P t + n else sect_off P t)" for t
    unfolding n_def b_def by (rule st(9))
  have L: "sect_len P' t = (if t = s then sect_len P s + n else sect_len P t)" for t
    unfolding n_def by (rule st(10))
  have T: "unat (pg_total P') = unat (pg_total P) + n" unfolding n_def by (rule st(1))
  have ok1: "\<And>t. sect_off P t + sect_len P t \<le> unat (pg_total P)"
    and ok2: "\<And>t. t \<noteq> Sect_syspage \<Longrightarrow> sect_len P Sect_syspage \<le> sect_off P t"
    and ok3: "\<And>t u. t \<noteq> u \<Longrightarrow> sect_off P t + sect_len P t \<le> sect_off P u \<or> sect_off P u + sect_len P u \<le> sect_off P t"
    using ok by (simp_all add: page_ok_def)
  have h: "sect_len P Sect_syspage > 0" using ok by (simp add: page_ok_def sect_len_def word_less_nat_alt)
  have in_page: "sect_off P' t + sect_len P' t \<le> unat (pg_total P')" for t
    using ok1 [of t] by (auto simp: O L T)
  have below: "sect_off P t + sect_len P t \<le> sect_off P s" if "t \<noteq> s" "\<not> b \<le> sect_off P t" for t
    using ok3 [OF that(1)] that(2) by (simp add: b_def)
  have apart: "sect_off P' t + sect_len P' t \<le> sect_off P' u \<or> sect_off P' u + sect_len P' u \<le> sect_off P' t"
    if tu: "t \<noteq> u" for t u
  proof -
    consider "t = s" "u \<noteq> s" | "t \<noteq> s" "u = s" | "t \<noteq> s" "u \<noteq> s" using tu by blast
    then show ?thesis
    proof cases
      case 1
      then show ?thesis using below [of u] by (auto simp: O L b_def)
    next
      case 2
      then show ?thesis using below [of t] by (auto simp: O L b_def)
    next
      case 3
      then show ?thesis using ok3 [OF tu] below [of u] below [of t] by (auto simp: O L b_def)
    qed
  qed
  have first: "sect_len P' Sect_syspage \<le> sect_off P' t" if "t \<noteq> Sect_syspage" for t
    using ok2 [OF that] ok3 [OF that] h by (auto simp: O L b_def sect_off_def [of P Sect_syspage])
  have "pg_size P' Sect_syspage > 0" using L [of Sect_syspage] h by (simp add: sect_len_def word_less_nat_alt)
  moreover have "8 dvd unat (pg_total P')" using ok st(4) by (simp add: T page_ok_def n_def)
  ultimately show ?thesis
    using in_page apart first st(2,3,7) ok by (simp add: page_ok_def)
qed

lemma grow_contents:
  assumes ok: "page_ok P" and g: "grow_syspage_section s add P = Inr (q, P')" and add: "add > 0"
    and small: "unat (pg_total P) + unat add + 7 < 2 ^ 32"
  shows "page_ok P' \<and> q = pg_ptr P' s \<and>
    contents P' t = (if t = s then contents P s @ replicate (unat (ROUND add 8)) 0 else contents P t)"
proof -
  note st = grow_step [OF ok g add small]
  define n where "n = unat (ROUND add 8)"
  define b where "b = sect_off P s + sect_len P s"
  let ?B = "pg_ptr P Sect_syspage"
  have O: "sect_off P' t = (if t \<noteq> s \<and> b \<le> sect_off P t then sect_off P t + n else sect_off P t)" for t
    unfolding n_def b_def by (rule st(9))
  have L: "sect_len P' t = (if t = s then sect_len P s + n else sect_len P t)" for t
    unfolding n_def by (rule st(10))
  have M: "pg_mem P' (?B + of_nat k) = (if k < b then pg_mem P (?B + of_nat k) else if k < b + n then 0
       else pg_mem P (?B + of_nat (k - n)))" if "k < unat (pg_total P) + n" for k
    using st(12) that unfolding n_def b_def by blast
  have ok1: "\<And>t. sect_off P t + sect_len P t \<le> unat (pg_total P)"
    and ok3: "\<And>t u. t \<noteq> u \<Longrightarrow> sect_off P t + sect_len P t \<le> sect_off P u \<or> sect_off P u + sect_len P u \<le> sect_off P t"
    using ok by (simp_all add: page_ok_def)
  have c: "contents Q t = map (\<lambda>k. pg_mem Q (pg_ptr Q Sect_syspage + of_nat (sect_off Q t + k))) [0..<sect_len Q t]"
    for Q t
    by (simp add: contents_def ptr_off [of Q t] add.assoc)
  have "contents P' t = (if t = s then contents P s @ replicate n 0 else contents P t)"
  proof (cases "t = s")
    case True
    show ?thesis
    proof (rule nth_equalityI)
      show "length (contents P' t) = length (if t = s then contents P s @ replicate n 0 else contents P t)"
        using True by (simp add: c L)
      fix i assume "i < length (contents P' t)"
      then have i: "i < sect_len P s + n" using True by (simp add: c L)
      have "sect_off P s + i < unat (pg_total P) + n" using i ok1 [of s] by linarith
      from M [OF this] i True show "contents P' t ! i = (if t = s then contents P s @ replicate n 0 else contents P t) ! i"
        by (simp add: c L O st(7) nth_append b_def del: of_nat_add)
    qed
  next
    case False
    show ?thesis
    proof (rule nth_equalityI)
      show "length (contents P' t) = length (if t = s then contents P s @ replicate n 0 else contents P t)"
        using False by (simp add: c L)
      fix i assume "i < length (contents P' t)"
      then have i: "i < sect_len P t" using False by (simp add: c L)
      have lt: "sect_off P' t + i < unat (pg_total P) + n" using i ok1 [of t] False by (auto simp: O)
      have "\<not> b \<le> sect_off P t \<Longrightarrow> sect_off P t + i < b"
        using ok3 [OF False] i by (auto simp: b_def)
      with M [OF lt] i False show "contents P' t ! i = (if t = s then contents P s @ replicate n 0 else contents P t) ! i"
        by (auto simp: c L O st(7) simp del: of_nat_add of_nat_diff)
    qed
  qed
  then show ?thesis using grow_page_ok [OF assms] st(8) by (simp add: n_def)
qed

text \<open>A registered address keeps its place in its section.\<close>

lemma grow_patch:
  assumes ok: "page_ok P" and g: "grow_syspage_section s add P = Inr (q, P')" and add: "add > 0"
    and small: "unat (pg_total P) + unat add + 7 < 2 ^ 32"
    and reg: "i < length (pg_patch P)" "pg_patch P ! i = (pg_ptr P t + of_nat k, d)" and k: "k < sect_len P t"
  shows "pg_patch P' ! i = (pg_ptr P' t + of_nat k, d)"
proof -
  note st = grow_step [OF ok g add small]
  define n where "n = unat (ROUND add 8)"
  define b where "b = sect_off P s + sect_len P s"
  let ?B = "pg_ptr P Sect_syspage" and ?T = "unat (pg_total P)"
  have O: "sect_off P' t = (if t \<noteq> s \<and> b \<le> sect_off P t then sect_off P t + n else sect_off P t)"
    unfolding n_def b_def by (rule st(9))
  have R: "pg_patch P' = callout_reloc_data (?B + of_nat b) (of_nat (?T - b)) (of_nat n) (pg_patch P)"
    unfolding n_def b_def by (rule st(13))
  have T: "sect_off P t + sect_len P t \<le> ?T" "b \<le> ?T" using ok by (simp_all add: page_ok_def b_def)
  have B: "unat ?B + ?T < 2 ^ 32" using ok by (simp add: page_ok_def word_le_nat_alt)
  have tk: "sect_off P t + k < ?T" using T k by linarith
  have u: "unat (?B + of_nat (sect_off P t + k)) = unat ?B + (sect_off P t + k)" "unat (?B + of_nat b) = unat ?B + b"
    "unat (?B + of_nat ?T) = unat ?B + ?T"
    using B tk T by (intro unat_offset, linarith)+
  have in_block: "?B + of_nat b \<le> ?B + of_nat (sect_off P t + k) \<longleftrightarrow> b \<le> sect_off P t + k"
    "?B + of_nat ?T > ?B + of_nat (sect_off P t + k)"
    using u tk by (simp_all only: word_le_nat_alt word_less_nat_alt) simp_all
  have T': "?B + of_nat b + of_nat (?T - b) = ?B + of_nat ?T" using T by (simp add: of_nat_diff)
  have "b \<le> sect_off P t + k \<longleftrightarrow> t \<noteq> s \<and> b \<le> sect_off P t"
  proof (cases "t = s")
    case True
    then show ?thesis using k by (simp add: b_def)
  next
    case False
    then have "sect_off P t + sect_len P t \<le> sect_off P s \<or> b \<le> sect_off P t"
      using ok by (auto simp: page_ok_def b_def)
    then show ?thesis using False k by (auto simp: b_def)
  qed
  moreover have "pg_ptr P t + of_nat k = ?B + of_nat (sect_off P t + k)" using ptr_off [of P t] by (simp add: add.assoc)
  then have "pg_patch P' ! i = (if ?B + of_nat b \<le> ?B + of_nat (sect_off P t + k) \<and>
      ?B + of_nat ?T > ?B + of_nat (sect_off P t + k)
    then ?B + of_nat (sect_off P t + k) + of_nat n else ?B + of_nat (sect_off P t + k), d)"
    unfolding R callout_reloc_data_def by (simp only: nth_map reg prod.case T')
  ultimately have "pg_patch P' ! i = (?B + of_nat (sect_off P' t) + of_nat k, d)"
    using in_block by (simp add: O add_ac)
  then show ?thesis using ptr_off [of P' t] st(7) by simp
qed









lemma grow_succeeds:
  assumes "unat (pg_total P) + unat add + 7 \<le> unat (pg_max P)"
  shows "\<exists>q P'. grow_syspage_section s add P = Inr (q, P')"
proof -
  have m: "unat (pg_max P) < 2 ^ 32" using unsigned_less [of "pg_max P", where 'a = nat] by simp
  have "unat (ROUND add 8) = (unat add + 7) div 8 * 8" using assms m by (subst unat_ROUND [where k = 3]) simp_all
  then have r: "unat (ROUND add 8) \<le> unat add + 7" by simp
  then have "unat (pg_total P + ROUND add 8) = unat (pg_total P) + unat (ROUND add 8)"
    using assms m by (simp add: unat_word_ariths)
  then have "\<not> pg_total P + ROUND add 8 > pg_max P"
    using assms r by (simp add: word_less_nat_alt)
  then show ?thesis by (simp add: grow_syspage_section_def Let_def)
qed






subsection \<open>The interface the sections' users rely on\<close>

text \<open>
  Code that fills a section only needs to know that growing it appends zeros and touches no
  other section.
\<close>

locale section_store =
  fixes grow :: "'k \<Rightarrow> u32 \<Rightarrow> 'p \<Rightarrow> (u32 \<times> 'p) res"
    and cont :: "'p \<Rightarrow> 'k \<Rightarrow> u8 list"
    and inv :: "'p \<Rightarrow> bool"
    and zeros :: "u32 \<Rightarrow> nat"
    and fits :: "u32 \<Rightarrow> bool"
  assumes grow_inv: "inv P \<Longrightarrow> fits n \<Longrightarrow> grow s n P = Inr (q, P') \<Longrightarrow> inv P'"
    and grow_self: "inv P \<Longrightarrow> fits n \<Longrightarrow> grow s n P = Inr (q, P') \<Longrightarrow> cont P' s = cont P s @ replicate (zeros n) 0"
    and grow_other: "inv P \<Longrightarrow> fits n \<Longrightarrow> grow s n P = Inr (q, P') \<Longrightarrow> t \<noteq> s \<Longrightarrow> cont P' t = cont P t"
    and zeros_enough: "fits n \<Longrightarrow> unat n \<le> zeros n"
begin

lemma grow_room:
  "inv P \<Longrightarrow> fits n \<Longrightarrow> grow s n P = Inr (q, P') \<Longrightarrow> length (cont P s) + unat n \<le> length (cont P' s)"
  using grow_self zeros_enough by fastforce

lemma grow_prefix:
  "inv P \<Longrightarrow> fits n \<Longrightarrow> grow s n P = Inr (q, P') \<Longrightarrow> take (length (cont P t)) (cont P' t) = cont P t"
  using grow_self grow_other by (cases "t = s") fastforce+

text \<open>Two growths leave the same contents in either order.\<close>

lemma grow_commute:
  assumes "inv P" and "fits m" and "fits n" and "s \<noteq> t"
    and "grow s m P = Inr (q1, P1)" and "grow t n P1 = Inr (q2, P2)"
    and "grow t n P = Inr (q3, P3)" and "grow s m P3 = Inr (q4, P4)"
  shows "cont P2 u = cont P4 u"
proof -
  have i: "inv P1" "inv P3" using grow_inv assms by blast+
  note a = grow_self [OF assms(1,2,5)] grow_other [OF assms(1,2,5)]
  note b = grow_self [OF i(1) assms(3,6)] grow_other [OF i(1) assms(3,6)]
  note c = grow_self [OF assms(1,3,7)] grow_other [OF assms(1,3,7)]
  note d = grow_self [OF i(2) assms(2,8)] grow_other [OF i(2) assms(2,8)]
  show ?thesis using a b c d assms(4) by (cases "u = s"; cases "u = t") simp_all
qed

end

definition page_inv :: "syspage \<Rightarrow> bool" where
  "page_inv P \<longleftrightarrow> page_ok P \<and> pg_max P < 0x80000000"

definition grow_zeros :: "u32 \<Rightarrow> nat" where
  "grow_zeros n = (if n = 0 then 0 else unat (ROUND n 8))"

lemma page_inv_small: "page_inv P \<Longrightarrow> n < 0x40000000 \<Longrightarrow> unat (pg_total P) + unat n + 7 < 2 ^ 32" for n :: u32
  by (auto simp: page_inv_def page_ok_def word_less_nat_alt word_le_nat_alt)

interpretation pg: section_store grow_syspage_section contents page_inv grow_zeros "\<lambda>n. n < 0x40000000"
proof unfold_locales
  fix P n s q P' t
  assume inv: "page_inv P" and n: "n < (0x40000000 :: u32)" and g: "grow_syspage_section s n P = Inr (q, P')"
  have P0: "n = 0 \<Longrightarrow> P' = P" using g by (simp add: grow_syspage_section_def)
  have ok: "page_ok P" using inv by (simp add: page_inv_def)
  note small = page_inv_small [OF inv n]
  show "page_inv P'"
    using P0 inv grow_page_ok [OF ok g _ small] grow_step(2) [OF ok g _ small]
    by (cases "n = 0") (auto simp: page_inv_def word_neq_0_conv)
  show "contents P' s = contents P s @ replicate (grow_zeros n) 0"
    using P0 grow_contents [OF ok g _ small, of s] by (cases "n = 0") (auto simp: grow_zeros_def word_neq_0_conv)
  assume "t \<noteq> s"
  then show "contents P' t = contents P t"
    using P0 grow_contents [OF ok g _ small, of t] by (cases "n = 0") (auto simp: word_neq_0_conv)
next
  fix n :: u32
  assume "n < 0x40000000"
  then have "unat n + 7 < 2 ^ 32" by (simp add: word_less_nat_alt)
  then have "unat (ROUND n 8) = (unat n + 7) div 8 * 8" by (subst unat_ROUND [where k = 3]) simp_all
  then show "unat n \<le> grow_zeros n" by (simp add: grow_zeros_def, linarith)
qed

subsection \<open>Properties\<close>







definition ex_small :: syspage where
  "ex_small = \<lparr>pg_mem = ucast, pg_ptr = (\<lambda>_. 0x1010)(Sect_syspage := 0x1000),
     pg_size = (\<lambda>_. 0)(Sect_syspage := 0x10, Sect_strings := 8), pg_total = 0x18, pg_max = 0x100, pg_fixed = 0x10,
     pg_patch = [(0x1012, 7)]\<rparr>"

lemma ex_small_ok: "page_ok ex_small"
  unfolding page_ok_def ex_small_def by (auto simp: sect_off_def sect_len_def)

lemma ex_small_grow: "\<exists>q P'. grow_syspage_section Sect_asinfo 20 ex_small = Inr (q, P')"
  by (rule grow_succeeds) (simp add: ex_small_def)


text \<open>C23: an address registered with \<open>callout_register_data\<close> that points into a section still
  points to the same place of the same section after any growth.\<close>

theorem grow_keeps_registered:
  assumes "page_ok P" and "grow_syspage_section s add P = Inr (q, P')"
    and "unat (pg_total P) + unat add + 7 < 2 ^ 32"
    and "i < length (pg_patch P)" and "pg_patch P ! i = (pg_ptr P t + of_nat k, d)" and "k < sect_len P t"
  shows "pg_patch P' ! i = (pg_ptr P' t + of_nat k, d)"
proof (cases "add = 0")
  case True
  then show ?thesis using assms by (simp add: grow_syspage_section_def)
next
  case False
  then show ?thesis using grow_patch [OF assms(1,2) _ assms(3-6)] by (simp add: word_neq_0_conv)
qed

lemma grow_keeps_registered_witness:
  "\<exists>q P'. grow_syspage_section Sect_asinfo 20 ex_small = Inr (q, P') \<and>
     pg_patch P' ! 0 = (pg_ptr P' Sect_strings + of_nat 2, 7)"
proof -
  obtain q P' where g: "grow_syspage_section Sect_asinfo 20 ex_small = Inr (q, P')" using ex_small_grow by blast
  have "pg_patch P' ! 0 = (pg_ptr P' Sect_strings + of_nat 2, 7)"
    by (rule grow_keeps_registered [OF ex_small_ok g]) (simp_all add: ex_small_def sect_len_def)
  with g show ?thesis by blast
qed



end
