(* ===== verification/TypedStrings.thy ===== *)
theory TypedStrings
  imports Strings
begin

section \<open>Typed strings\<close>

text \<open>
  The first part of \<open>strings.c\<close>: the section of configuration strings (host name, time zone and
  so on). An entry is a four-byte type, the string with its NUL, and padding to four bytes; the
  type \<open>_CS_NONE\<close> ends the list. The section is a list of bytes beside the rest of the state, of
  which only the budget of \<open>grow_syspage_section\<close> matters. \<open>_CS_NONE\<close> is declared in
  \<open><confname.h>\<close>, which is not part of the repository; it is the parameter \<open>none\<close>, and what the
  code relies on, that a word of zeros is that type, is a hypothesis. Indexes are natural
  numbers. A search that would run off the section returns \<open>None\<close>.
\<close>

definition rd32 :: "u8 list \<Rightarrow> nat \<Rightarrow> u32" where
  "rd32 p i = ucast (p ! i) OR push_bit 8 (ucast (p ! (i + 1))) OR push_bit 16 (ucast (p ! (i + 2))) OR
     push_bit 24 (ucast (p ! (i + 3)))"

definition le32 :: "u32 \<Rightarrow> u8 list" where
  "le32 w = [ucast w, ucast (drop_bit 8 w), ucast (drop_bit 16 w), ucast (drop_bit 24 w)]"

definition write_bytes :: "u8 list \<Rightarrow> nat \<Rightarrow> u8 list \<Rightarrow> u8 list" where
  "write_bytes p i vs = take i p @ vs @ drop (i + length vs) p"

definition round4 :: "nat \<Rightarrow> nat" where
  "round4 n = (n + 3) div 4 * 4"

definition c_strlen :: "u8 list \<Rightarrow> nat \<Rightarrow> nat option" where
  "c_strlen p i = (if 0 \<in> set (drop i p) then Some (length (takeWhile (\<lambda>c. c \<noteq> 0) (drop i p))) else None)"

lemma round4_le: "n \<le> round4 n"
  unfolding round4_def by presburger

function find_typed_from :: "u32 \<Rightarrow> u8 list \<Rightarrow> u32 \<Rightarrow> nat \<Rightarrow> int option" where
  "find_typed_from none p type_index i =
     (if i + 4 \<le> length p
      then let type = rd32 p i
           in if type = type_index then Some (int i)
              else if type = none then Some (-1)
              else case c_strlen p (i + 4) of None \<Rightarrow> None
                   | Some n \<Rightarrow> find_typed_from none p type_index (round4 (i + 4 + (n + 1)))
      else None)"
  by pat_completeness auto
termination
proof (relation "measure (\<lambda>(none, p, t, i). length p - i)", simp)
  fix none p t i type n
  assume "i + 4 \<le> length (p :: u8 list)"
  then show "((none, p, t, round4 (i + 4 + (n + 1))), none, p, t, i) \<in> measure (\<lambda>(none, p, t, i). length p - i)"
    for none :: u32 and t :: u32
    using round4_le [of "i + 4 + (n + 1)"] by simp
qed

declare find_typed_from.simps [simp del]

definition find_typed_string :: "u32 \<Rightarrow> u8 list \<Rightarrow> u32 \<Rightarrow> int option" where
  "find_typed_string none p type_index = find_typed_from none p type_index 0"

text \<open>The two loops of \<open>del_typed_string\<close>: move the bytes from \<open>j\<close> to \<open>end\<close> down to \<open>i\<close>, then clear.\<close>

function move_down :: "u8 list \<Rightarrow> nat \<Rightarrow> nat \<Rightarrow> nat \<Rightarrow> u8 list \<times> nat \<times> nat" where
  "move_down p i j stop = (if j < stop then move_down (p[i := p ! j]) (i + 1) (j + 1) stop else (p, i, j))"
  by pat_completeness auto
termination by (relation "measure (\<lambda>(p, i, j, stop). stop - j)") auto

function clear_up :: "u8 list \<Rightarrow> nat \<Rightarrow> nat \<Rightarrow> u8 list" where
  "clear_up p i j = (if i < j then clear_up (p[i := 0]) (i + 1) j else p)"
  by pat_completeness auto
termination by (relation "measure (\<lambda>(p, i, j). j - i)") auto

declare move_down.simps [simp del] clear_up.simps [simp del]

text \<open>The result is \<open>None\<close> where a search runs off the section.\<close>

definition del_typed_string :: "u32 \<Rightarrow> u8 list \<Rightarrow> u32 \<Rightarrow> (bool \<times> u8 list) option" where
  "del_typed_string none p type_index =
     Option.bind (find_typed_string none p type_index) (\<lambda>i.
       if i < 0 then Some (False, p)
       else Option.bind (c_strlen p (nat i + 4)) (\<lambda>n.
              let j = round4 (nat i + n + 1)
              in Option.bind (find_typed_string none p none) (\<lambda>stop.
                   let (p1, i1, j1) = move_down p (nat i) j (nat stop)
                   in Some (True, clear_up p1 i1 j1))))"

definition add_typed_string :: "u32 \<Rightarrow> u32 \<Rightarrow> u8 list \<Rightarrow> u8 list \<times> lsp \<Rightarrow> (nat \<times> u8 list \<times> lsp) res option" where
  "add_typed_string none type_index name st =
     Option.bind (del_typed_string none (fst st) type_index) (\<lambda>(_, p).
     Option.bind (find_typed_string none p none) (\<lambda>i.
       let len = round4 (length name + 1); need = len + 2 * 4; spare = length p - nat i
       in Some (bind_res
            (if spare < need
             then bind_res (grow_budget (of_nat (need - spare)) (snd st)) (\<lambda>s1.
                    Inr (p @ replicate (unat (ROUND (of_nat (need - spare)) 8 :: u32)) 0, s1))
             else Inr (p, snd st))
            (\<lambda>(p1, s1). Inr (nat i,
               write_bytes (write_bytes p1 (nat i) (le32 type_index)) (nat i + 4) (name @ [0]), s1)))))"

subsection \<open>The list a section stands for\<close>

definition enc_entry :: "u32 \<times> u8 list \<Rightarrow> u8 list" where
  "enc_entry e = le32 (fst e) @ snd e @ replicate (round4 (length (snd e) + 1) - length (snd e)) 0"

definition enc_list :: "(u32 \<times> u8 list) list \<Rightarrow> u8 list" where
  "enc_list es = concat (map enc_entry es)"

definition entry_ok :: "u32 \<times> u8 list \<Rightarrow> bool" where
  "entry_ok e \<longleftrightarrow> fst e \<noteq> 0 \<and> 0 \<notin> set (snd e)"

definition typed_inv :: "u8 list \<Rightarrow> (u32 \<times> u8 list) list \<Rightarrow> bool" where
  "typed_inv p es \<longleftrightarrow> (\<forall>e\<in>set es. entry_ok e) \<and> (\<exists>z\<ge>4. p = enc_list es @ replicate z 0)"

text \<open>Where a search finds a type.\<close>

fun entry_off :: "nat \<Rightarrow> (u32 \<times> u8 list) list \<Rightarrow> u32 \<Rightarrow> int" where
  "entry_off k [] ty = -1"
| "entry_off k (e # es) ty =
     (if fst e = ty then int k else entry_off (k + 4 + round4 (length (snd e) + 1)) es ty)"

lemma le32_length [simp]: "length (le32 w) = 4"
  by (simp add: le32_def)

lemma rd32_le32: "rd32 (pre @ le32 w @ rest) (length pre) = w"
proof -
  have "rd32 (pre @ le32 w @ rest) (length pre) =
    ucast (ucast w :: u8) OR push_bit 8 (ucast (ucast (drop_bit 8 w) :: u8)) OR
    push_bit 16 (ucast (ucast (drop_bit 16 w) :: u8)) OR push_bit 24 (ucast (ucast (drop_bit 24 w) :: u8))"
    by (simp add: rd32_def le32_def nth_append)
  also have "\<dots> = w"
  proof (rule bit_word_eqI)
    fix n assume "n < LENGTH(32)"
    then show "bit (ucast (ucast w :: u8) OR push_bit 8 (ucast (ucast (drop_bit 8 w) :: u8)) OR
        push_bit 16 (ucast (ucast (drop_bit 16 w) :: u8)) OR push_bit 24 (ucast (ucast (drop_bit 24 w) :: u8)) :: u32) n = bit w n"
      by (cases "n < 8"; cases "n < 16"; cases "n < 24") (auto simp: bit_simps)
  qed
  finally show ?thesis .
qed

lemma zeros_word: "4 \<le> z \<Longrightarrow> \<exists>r. replicate z 0 = le32 0 @ replicate r 0"
proof -
  assume "4 \<le> z"
  then have "replicate z (0 :: u8) = replicate 4 0 @ replicate (z - 4) 0" by (simp flip: replicate_add)
  then show ?thesis by (auto simp: le32_def numeral_eq_Suc)
qed

lemma c_strlen_at:
  assumes "0 \<notin> set s"
  shows "c_strlen (pre @ s @ 0 # rest) (length pre) = Some (length s)"
proof -
  have "takeWhile (\<lambda>c. c \<noteq> 0) (s @ 0 # rest) = s"
    using assms by (subst takeWhile_append2) auto
  then show ?thesis by (simp add: c_strlen_def)
qed

lemma round4_add: "4 dvd k \<Longrightarrow> round4 (k + n) = k + round4 n"
  unfolding round4_def by presburger

lemma round4_dvd [simp]: "4 dvd round4 n"
  by (simp add: round4_def)

lemma round4_gt: "n < round4 (n + 1)"
  unfolding round4_def by presburger

lemma enc_entry_length: "length (enc_entry e) = 4 + round4 (length (snd e) + 1)"
  using round4_gt [of "length (snd e)"] by (simp add: enc_entry_def)

lemma enc_list_simps [simp]:
  "enc_list [] = []" "enc_list (e # es) = enc_entry e @ enc_list es" "enc_list (xs @ ys) = enc_list xs @ enc_list ys"
  by (simp_all add: enc_list_def)

lemma enc_list_dvd: "4 dvd length (enc_list es)"
  by (induction es) (simp_all add: enc_entry_length)

lemma find_from_inv:
  assumes "\<forall>e\<in>set es. entry_ok e" and "4 \<le> z" and "4 dvd length pre"
  shows "find_typed_from 0 (pre @ enc_list es @ replicate z 0) ty (length pre) =
    Some (if ty = 0 then int (length pre + length (enc_list es)) else entry_off (length pre) es ty)"
  using assms
proof (induction es arbitrary: pre)
  case Nil
  then obtain r where "replicate z (0 :: u8) = le32 0 @ replicate r 0" using zeros_word by blast
  then show ?case
    using Nil rd32_le32 [of pre 0 "replicate r 0"] by (subst find_typed_from.simps) (simp add: Let_def)
next
  case (Cons e es)
  obtain t s where e: "e = (t, s)" by fastforce
  have ts: "t \<noteq> 0" "0 \<notin> set s" using Cons.prems(1) by (simp_all add: e entry_ok_def)
  define pad where "pad = round4 (length s + 1) - length s"
  have pad: "pad = Suc (pad - 1)" "length s + pad = round4 (length s + 1)"
    using round4_gt [of "length s"] by (simp_all add: pad_def)
  let ?p = "pre @ enc_list (e # es) @ replicate z 0"
  have p1: "?p = pre @ le32 t @ (s @ replicate pad 0 @ enc_list es @ replicate z 0)"
    by (simp add: e enc_entry_def pad_def)
  have p2: "?p = (pre @ le32 t) @ s @ 0 # (replicate (pad - 1) 0 @ enc_list es @ replicate z 0)"
    unfolding p1 using pad(1) by (metis append.assoc append_Cons replicate_Suc)
  have p3: "?p = (pre @ enc_entry e) @ enc_list es @ replicate z 0" by simp
  have type: "rd32 ?p (length pre) = t" unfolding p1 by (rule rd32_le32)
  have len: "c_strlen ?p (length pre + 4) = Some (length s)"
    unfolding p2 using c_strlen_at [OF ts(2), of "pre @ le32 t"] by simp
  have step: "round4 (length pre + 4 + (length s + 1)) = length (pre @ enc_entry e)"
    using round4_add [of "length pre + 4" "length s + 1"] Cons.prems(3) by (simp add: e enc_entry_length)
  have "4 dvd length (pre @ enc_entry e)" using Cons.prems(3) by (simp add: enc_entry_length)
  note IH = Cons.IH [OF _ Cons.prems(2) this]
  have room: "length pre + 4 \<le> length ?p" using Cons.prems(2) by simp
  have "find_typed_from 0 ?p ty (length pre) =
      (if t = ty then Some (int (length pre)) else find_typed_from 0 ?p ty (length (pre @ enc_entry e)))"
    by (subst find_typed_from.simps) (simp only: room type len step Let_def ts if_True option.case if_False)
  also have "\<dots> = Some (if ty = 0 then int (length pre + length (enc_list (e # es))) else entry_off (length pre) (e # es) ty)"
    unfolding p3 using IH ts Cons.prems(1) by (simp add: e enc_entry_length add.assoc)
  finally show ?case .
qed

lemma find_inv:
  assumes "typed_inv p es"
  shows "find_typed_string 0 p ty =
    Some (if ty = 0 then int (length (enc_list es)) else entry_off 0 es ty)"
proof -
  obtain z where "4 \<le> z" "p = enc_list es @ replicate z 0" "\<forall>e\<in>set es. entry_ok e"
    using assms by (auto simp: typed_inv_def)
  then show ?thesis using find_from_inv [of es z "[]" ty] by (simp add: find_typed_string_def)
qed

lemma entry_off_none: "entry_off k es ty = -1 \<longleftrightarrow> ty \<notin> fst ` set es"
  by (induction es arbitrary: k) auto

lemma entry_off_snoc:
  "entry_off k (es @ [e]) ty =
    (if ty \<in> fst ` set es then entry_off k es ty else if fst e = ty then int (k + length (enc_list es)) else -1)"
  by (induction es arbitrary: k) (auto simp: enc_entry_length)

text \<open>Entering a type that is not there yet.\<close>

lemma write_bytes_append:
  "write_bytes (a @ b @ c) (length a) b' = a @ b' @ c" if "length b' = length b"
  using that by (simp add: write_bytes_def)

lemma add_writes:
  assumes "n + 8 \<le> z" and "n = round4 (length name + 1)"
  shows "write_bytes (write_bytes (a @ replicate z 0) (length a) (le32 ty)) (length a + 4) (name @ [0]) =
    a @ enc_entry (ty, name) @ replicate (z - 4 - n) 0"
proof -
  have g: "length name < n" using round4_gt [of "length name"] assms(2) by simp
  have z: "replicate z (0 :: u8) = replicate 4 0 @ replicate (length name + 1) 0 @ replicate (n - length name - 1) 0 @ replicate (z - 4 - n) 0"
    using assms(1) g by (simp flip: replicate_add replicate_Suc)
  have 1: "write_bytes (a @ replicate z 0) (length a) (le32 ty) =
      a @ le32 ty @ replicate (length name + 1) 0 @ replicate (n - length name - 1) 0 @ replicate (z - 4 - n) 0"
    unfolding z by (rule write_bytes_append) simp
  have "write_bytes ((a @ le32 ty) @ replicate (length name + 1) 0 @ replicate (n - length name - 1) 0 @ replicate (z - 4 - n) 0)
      (length (a @ le32 ty)) (name @ [0]) =
    (a @ le32 ty) @ (name @ [0]) @ replicate (n - length name - 1) 0 @ replicate (z - 4 - n) 0"
    by (rule write_bytes_append) simp
  moreover have "enc_entry (ty, name) = le32 ty @ name @ [0] @ replicate (n - length name - 1) 0"
    using g by (simp add: enc_entry_def assms(2) flip: replicate_Suc)
  ultimately show ?thesis unfolding 1 by simp
qed

lemma grow_enough:
  assumes "m < 2 ^ 31"
  shows "m \<le> unat (ROUND (of_nat m) 8 :: u32)"
proof -
  have "unat (of_nat m :: u32) = m" using assms by (simp add: unat_of_nat_small)
  moreover have "unat (ROUND (of_nat m :: u32) 8) = (unat (of_nat m :: u32) + 7) div 8 * 8"
    using assms calculation by (subst unat_ROUND [where k = 3]) simp_all
  ultimately show ?thesis by simp
qed

lemma add_typed:
  assumes inv: "typed_inv p es" and new: "ty \<noteq> 0" "ty \<notin> fst ` set es" and name: "0 \<notin> set name" "length name < 2 ^ 30"
  shows "case add_typed_string 0 ty name (p, s) of
      None \<Rightarrow> False
    | Some (Inl e) \<Rightarrow> True
    | Some (Inr (i, p', s')) \<Rightarrow> i = length (enc_list es) \<and> typed_inv p' (es @ [(ty, name)])"
proof -
  obtain z where z: "4 \<le> z" "p = enc_list es @ replicate z 0" and es: "\<forall>e\<in>set es. entry_ok e"
    using inv by (auto simp: typed_inv_def)
  let ?i = "length (enc_list es)" and ?n = "round4 (length name + 1)"
  define need where "need = ?n + 2 * 4"
  define spare where "spare = length p - ?i"
  have spare: "spare = z" by (simp add: spare_def z)
  have "entry_off 0 es ty = -1" using new by (simp add: entry_off_none)
  then have del: "del_typed_string 0 p ty = Some (False, p)"
    using new by (simp add: del_typed_string_def find_inv [OF inv])
  have find0: "find_typed_string 0 p 0 = Some (int ?i)" by (simp add: find_inv [OF inv])
  have "?n \<le> length name + 4" unfolding round4_def by presburger
  then have m: "need - spare < 2 ^ 31" using name by (simp add: need_def)
  have fin: "typed_inv (write_bytes (write_bytes (enc_list es @ replicate k 0) ?i (le32 ty)) (?i + 4) (name @ [0]))
      (es @ [(ty, name)])" if "need \<le> k" for k
  proof -
    have "?n + 8 \<le> k" using that by (simp add: need_def)
    from add_writes [OF this refl, of "enc_list es" ty] es new name that
    show ?thesis by (auto simp: typed_inv_def entry_ok_def need_def)
  qed
  have eq: "add_typed_string 0 ty name (p, s) = Some (bind_res
      (if spare < need
       then bind_res (grow_budget (of_nat (need - spare)) s) (\<lambda>s1.
              Inr (p @ replicate (unat (ROUND (of_nat (need - spare)) 8 :: u32)) 0, s1))
       else Inr (p, s))
      (\<lambda>(p1, s1). Inr (?i, write_bytes (write_bytes p1 ?i (le32 ty)) (?i + 4) (name @ [0]), s1)))"
    by (simp add: add_typed_string_def del find0 Let_def need_def spare_def)
  show ?thesis
  proof (cases "spare < need")
    case False
    then have "need \<le> z" by (simp add: spare)
    with fin [OF this] False show ?thesis unfolding eq by (simp add: z(2))
  next
    case True
    have "need \<le> z + unat (ROUND (of_nat (need - spare)) 8 :: u32)"
      using grow_enough [OF m] True spare by linarith
    from fin [OF this] True show ?thesis
      unfolding eq
      by (cases "grow_budget (of_nat (need - spare)) s") (simp_all add: z(2) replicate_add del: of_nat_diff)
  qed
qed

subsection \<open>Properties\<close>

text \<open>C25: a string of a type that is not in the section yet is entered behind the others, and is
  found at the returned offset from then on; every other type is found where it was, and the
  section stays a well-formed list.\<close>

theorem add_typed_string_found:
  assumes "typed_inv p es" and "ty \<noteq> 0" and "ty \<notin> fst ` set es" and "0 \<notin> set name" and "length name < 2 ^ 30"
    and "add_typed_string 0 ty name (p, s) = Some (Inr (i, p', s'))"
  shows "typed_inv p' (es @ [(ty, name)]) \<and> find_typed_string 0 p' ty = Some (int i) \<and>
    (\<forall>ty'. ty' \<noteq> 0 \<longrightarrow> ty' \<noteq> ty \<longrightarrow> find_typed_string 0 p' ty' = find_typed_string 0 p ty')"
proof -
  have i: "i = length (enc_list es)" "typed_inv p' (es @ [(ty, name)])"
    using add_typed [OF assms(1-5), of s] assms(6) by simp_all
  show ?thesis
    using i assms(2,3) by (auto simp: find_inv [OF i(2)] find_inv [OF assms(1)] entry_off_snoc entry_off_none [THEN iffD2])
qed

definition host_page :: "u8 list" where
  "host_page = enc_list [(1, [97, 98, 99])] @ replicate 8 0"

lemma add_typed_string_found_witness:
  "\<exists>i p' s'. add_typed_string 0 2 [120, 121] (host_page, ex_lsp) = Some (Inr (i, p', s')) \<and>
     find_typed_string 0 p' 2 = Some (int i) \<and> find_typed_string 0 p' 1 = Some 0"
proof -
  have inv: "typed_inv host_page [(1, [97, 98, 99])]"
    by (auto simp: typed_inv_def host_page_def entry_ok_def)
  have "case add_typed_string 0 2 [120, 121] (host_page, ex_lsp) of Some (Inr _) \<Rightarrow> True | _ \<Rightarrow> False"
    by code_simp
  then obtain i p' s' where a: "add_typed_string 0 2 [120, 121] (host_page, ex_lsp) = Some (Inr (i, p', s'))"
    by (auto split: option.splits sum.splits)
  have f: "find_typed_string 0 host_page 1 = Some 0" by (simp add: find_inv [OF inv])
  from add_typed_string_found [OF inv _ _ _ _ a] a f show ?thesis by simp
qed


end
