(* ===== verification/NumParse.thy ===== *)
theory NumParse
  imports Prelude
begin

section \<open>Numbers as text\<close>

text \<open>
  \<open>strtoul.c\<close>, \<open>getsize.c\<close>, \<open>get_freq\<close> of \<open>common_options.c\<close>, \<open>ultoa_end.c\<close> and the
  formatted output of \<open>kprintf.c\<close>. A C string is a list of characters without its NUL; reading
  where the list ends gives the NUL. A function that returns a pointer into the string returns the
  rest of the string from there. The lemmas show that printing and parsing are inverse in every
  radix the code uses, and that the digits always fit the buffers they are written to.
\<close>

definition char_at :: "string \<Rightarrow> nat \<Rightarrow> char" where
  "char_at s i = (if i < length s then s ! i else CHR 0x00)"

subsection \<open>Parsing\<close>

definition hexstr :: "string \<Rightarrow> bool" where
  "hexstr p \<longleftrightarrow> char_at p 0 = CHR ''0'' \<and> (char_at p 1 = CHR ''x'' \<or> char_at p 1 = CHR ''X'')"

definition radix_value :: "char \<Rightarrow> nat" where
  "radix_value c =
     (let k = of_char c :: nat
      in if 48 \<le> k \<and> k \<le> 57 then k - 48
         else if 97 \<le> k \<and> k \<le> 102 then k - 97 + 10
         else if 65 \<le> k \<and> k \<le> 70 then k - 65 + 10
         else 37)"

fun scan_digits :: "nat \<Rightarrow> u32 \<Rightarrow> string \<Rightarrow> u32 \<times> string" where
  "scan_digits radix v [] = (v, [])"
| "scan_digits radix v (c # cs) =
     (if radix_value c \<ge> radix then (v, c # cs)
      else scan_digits radix (v * of_nat radix + of_nat (radix_value c)) cs)"

text \<open>The value and the rest of the string; with no digit the rest is the whole string.\<close>

definition strtopaddr :: "string \<Rightarrow> nat \<Rightarrow> u32 \<times> string" where
  "strtopaddr nptr radix =
     (let radix = (if radix = 0 then (if hexstr nptr then 16 else if char_at nptr 0 = CHR ''0'' then 8 else 10)
                  else radix);
          startp = (if radix = 16 \<and> hexstr nptr then drop 2 nptr else nptr);
          (value, p) = scan_digits radix 0 startp
      in (value, if p = startp then nptr else p))"

definition strtoul :: "string \<Rightarrow> nat \<Rightarrow> u32 \<times> string" where
  "strtoul nptr radix = strtopaddr nptr radix"


text \<open>\<open>get_freq\<close> works on the global \<open>optarg\<close>: the new frequency and the new \<open>optarg\<close>.\<close>

definition get_freq :: "u32 \<Rightarrow> string \<Rightarrow> u32 \<times> string" where
  "get_freq fp optarg =
     (let (freq, e) = strtoul optarg 10;
          (fp1, arg1) =
            (if optarg \<noteq> e
             then let c = char_at e 0
                  in if c = CHR ''m'' \<or> c = CHR ''M'' then (freq * 1000 * 1000, drop 1 e)
                     else if c = CHR ''k'' \<or> c = CHR ''K'' then (freq * 1000, drop 1 e)
                     else if c = CHR ''h'' \<or> c = CHR ''H'' then (freq, drop 1 e)
                     else (if freq < 1000 then freq * 1000000 else freq, e)
             else (fp, optarg))
      in (fp1, if char_at arg1 0 = CHR '','' then drop 1 arg1 else arg1))"

subsection \<open>Printing\<close>

definition digit_char :: "nat \<Rightarrow> char" where
  "digit_char d = ''0123456789abcdef'' ! d"

text \<open>
  The digit loops write backwards from the end of a buffer with room for \<open>n\<close> characters;
  \<open>None\<close> is a write before the start of the buffer.
\<close>

primrec put_digits :: "nat \<Rightarrow> 'a::len word \<Rightarrow> 'a word \<Rightarrow> string \<Rightarrow> string option" where
  "put_digits 0 v radix acc = None"
| "put_digits (Suc n) v radix acc =
     (let acc1 = digit_char (unat (v mod radix)) # acc; v1 = v div radix
      in if v1 \<noteq> 0 then put_digits n v1 radix acc1 else Some acc1)"


text \<open>
  The arguments of \<open>vmsg\<close> by the type \<open>va_arg\<close> takes them with. Taking an argument of the
  wrong type, or one that is not there, is undefined: \<open>None\<close>. So is a format that ends in
  a single \<open>%\<close>, after which the code goes on behind the end of the string.
\<close>

datatype karg = Arg32 u32 | Arg64 u64 | ArgStr string

definition one_char :: "char \<Rightarrow> string" where
  "one_char c = (if c = CHR 0x0A then [CHR 0x0D, c] else [c])"

definition conversion :: "char \<Rightarrow> (nat \<times> nat) option" where
  "conversion c =
     (if c = CHR ''b'' then Some (2, 16)
      else if c = CHR ''w'' then Some (4, 16)
      else if c \<in> set ''PxXl'' then Some (8, 16)
      else if c = CHR ''L'' then Some (16, 16)
      else if c = CHR ''d'' \<or> c = CHR ''u'' then Some (0, 10)
      else None)"

definition put_number :: "nat \<Rightarrow> nat \<Rightarrow> u64 \<Rightarrow> string option" where
  "put_number dig radix num =
     Option.bind (put_digits 63 num (of_nat radix) []) (\<lambda>vs.
       Some (replicate (dig - length vs) (CHR ''0'') @ vs))"

fun vmsg :: "string \<Rightarrow> karg list \<Rightarrow> string option" where
  "vmsg [] args = Some []"
| "vmsg (f # fmt) args =
     (if f \<noteq> CHR ''%'' then map_option ((@) (one_char f)) (vmsg fmt args)
      else case fmt of [] \<Rightarrow> None
         | c # fmt' \<Rightarrow>
             (case conversion c of
                Some (dig, radix) \<Rightarrow>
                  (case args of
                     Arg32 v # args' \<Rightarrow>
                       if c = CHR ''L'' then None
                       else Option.bind (put_number dig radix (ucast v)) (\<lambda>s. map_option ((@) s) (vmsg fmt' args'))
                   | Arg64 v # args' \<Rightarrow>
                       if c = CHR ''L'' then Option.bind (put_number dig radix v) (\<lambda>s. map_option ((@) s) (vmsg fmt' args'))
                       else None
                   | _ \<Rightarrow> None)
              | None \<Rightarrow>
                  if c = CHR ''s''
                  then (case args of
                          ArgStr s # args' \<Rightarrow> map_option ((@) (concat (map one_char s))) (vmsg fmt' args')
                        | _ \<Rightarrow> None)
                  else map_option ((@) (one_char c)) (vmsg fmt' args)))"

text \<open>What \<open>ksprintf\<close> writes to its buffer, without the final NUL.\<close>

definition ksprintf :: "string \<Rightarrow> karg list \<Rightarrow> string option" where
  "ksprintf fmt args = vmsg fmt args"

subsection \<open>The number a string stands for\<close>

fun num_string :: "nat \<Rightarrow> nat \<Rightarrow> string" where
  "num_string r n = (if r < 2 \<or> n < r then [digit_char n] else num_string r (n div r) @ [digit_char (n mod r)])"

declare num_string.simps [simp del]

lemma digit_value_all: "list_all (\<lambda>d. radix_value (digit_char d) = d) [0..<16]"
  by code_simp

lemma digit_value: "d < 16 \<Longrightarrow> radix_value (digit_char d) = d"
  using digit_value_all by (simp add: list_all_iff)

lemma put_digits_num:
  fixes v r :: "'a::len word"
  assumes "2 \<le> unat r" and "unat v < unat r ^ n" and "0 < n"
  shows "put_digits n v r acc = Some (num_string (unat r) (unat v) @ acc)"
  using assms
proof (induction n arbitrary: v acc)
  case (Suc n)
  have q: "unat (v div r) = unat v div unat r" "unat (v mod r) = unat v mod unat r"
    by (simp_all add: unat_div unat_mod)
  show ?case
  proof (cases "unat v < unat r")
    case True
    then have "v div r = 0" using q(1) by (simp add: unat_eq_0)
    then show ?thesis using True q(2) by (simp add: num_string.simps)
  next
    case False
    then have "0 < unat v div unat r" using Suc.prems(1) by (simp add: div_greater_zero_iff)
    then have nz: "v div r \<noteq> 0" using q(1) by force
    have "unat (v div r) < unat r ^ n"
      using Suc.prems(2) by (simp add: q less_mult_imp_div_less mult.commute)
    moreover have "0 < n" using False Suc.prems(2) by (cases n) simp_all
    ultimately have "put_digits n (v div r) r a = Some (num_string (unat r) (unat v div unat r) @ a)" for a
      using Suc.IH Suc.prems(1) q(1) by metis
    then show ?thesis
      using nz False Suc.prems(1) by (simp add: q num_string.simps [of "unat r" "unat v"])
  qed
qed simp

lemma scan_append:
  "list_all (\<lambda>c. radix_value c < r) s \<Longrightarrow> scan_digits r v (s @ t) = scan_digits r (fst (scan_digits r v s)) t"
  by (induction r v s rule: scan_digits.induct) auto

lemma num_string_digits: "2 \<le> r \<Longrightarrow> r \<le> 16 \<Longrightarrow> list_all (\<lambda>c. radix_value c < r) (num_string r n)"
proof (induction r n rule: num_string.induct)
  case (1 r n)
  then show ?case
    using digit_value [of n] digit_value [of "n mod r"]
    by (subst num_string.simps) (auto simp: order_less_le_trans [OF mod_less_divisor])
qed

lemma scan_num: "2 \<le> r \<Longrightarrow> r \<le> 16 \<Longrightarrow> fst (scan_digits r 0 (num_string r n)) = of_nat n"
proof (induction r n rule: num_string.induct)
  case (1 r n)
  show ?case
  proof (cases "n < r")
    case True
    then show ?thesis using 1 digit_value [of n] by (simp add: num_string.simps)
  next
    case False
    then have IH: "fst (scan_digits r 0 (num_string r (n div r))) = of_nat (n div r)" using 1 by simp
    have d: "\<not> r \<le> n mod r" "n mod r < 16" using 1 by (simp_all add: order_less_le_trans [OF mod_less_divisor] not_le)
    have "fst (scan_digits r 0 (num_string r n)) = of_nat (n div r) * of_nat r + of_nat (n mod r)"
      using False 1 d num_string_digits [of r "n div r"]
      by (subst num_string.simps) (simp add: scan_append IH digit_value)
    also have "\<dots> = (of_nat (n div r * r + n mod r) :: u32)" by (simp only: of_nat_add of_nat_mult)
    finally show ?thesis by simp
  qed
qed

lemma num_string_nonempty: "num_string r n \<noteq> []"
  by (subst num_string.simps) simp

lemma num_string_length: "2 \<le> r \<Longrightarrow> n < r ^ k \<Longrightarrow> 0 < k \<Longrightarrow> length (num_string r n) \<le> k"
proof (induction r n arbitrary: k rule: num_string.induct)
  case (1 r n)
  show ?case
  proof (cases "n < r")
    case True
    then show ?thesis using 1 by (simp add: num_string.simps)
  next
    case False
    then obtain j where k: "k = Suc j" "0 < j" using 1(3,4) by (cases k; cases "k - 1") auto
    then have "n div r < r ^ j" using 1(3) by (simp add: less_mult_imp_div_less mult.commute)
    with 1(1) [OF _ 1(2) this k(2)] False 1(2) show ?thesis by (subst num_string.simps) (simp add: k)
  qed
qed

definition stops :: "nat \<Rightarrow> string \<Rightarrow> bool" where
  "stops r rest \<longleftrightarrow> rest = [] \<or> r \<le> radix_value (hd rest) \<and> hd rest \<noteq> CHR ''x'' \<and> hd rest \<noteq> CHR ''X''"


lemma scan_number:
  assumes "2 \<le> r" "r \<le> 16" and "stops r rest"
  shows "scan_digits r 0 (num_string r n @ rest) = (of_nat n, rest)"
proof -
  have "scan_digits r v rest = (v, rest)" for v using assms(3) by (cases rest) (auto simp: stops_def)
  then show ?thesis using scan_append [OF num_string_digits [OF assms(1,2)]] scan_num [OF assms(1,2)] by simp
qed





subsection \<open>Properties\<close>






lemma digits_not_hexstr: "list_all (\<lambda>c. radix_value c < 16) s \<Longrightarrow> \<not> hexstr s"
proof
  assume s: "list_all (\<lambda>c. radix_value c < 16) s" and h: "hexstr s"
  have x: "radix_value (CHR ''x'') = 37" "radix_value (CHR ''X'') = 37" by code_simp+
  from h have "s \<noteq> []" "tl s \<noteq> []" by (cases s; cases "tl s"; simp add: hexstr_def char_at_def)+
  then obtain a b t where "s = a # b # t" by (metis list.collapse)
  with s h x show False by (auto simp: hexstr_def char_at_def)
qed

lemma digits_mono: "list_all (\<lambda>c. radix_value c < r) s \<Longrightarrow> r \<le> 16 \<Longrightarrow> list_all (\<lambda>c. radix_value c < 16) s"
  by (auto simp: list_all_iff)

lemma scan_zeros: "0 < r \<Longrightarrow> scan_digits r 0 (replicate k (CHR ''0'') @ t) = scan_digits r 0 t"
proof (induction k)
  case (Suc k)
  have "radix_value (CHR ''0'') = 0" by code_simp
  then show ?case using Suc by simp
qed simp

lemma strtopaddr_padded:
  assumes "2 \<le> r" "r \<le> 16"
  shows "strtopaddr (replicate k (CHR ''0'') @ num_string r n) r = (of_nat n, [])"
proof -
  have z: "radix_value (CHR ''0'') = 0" by code_simp
  have "list_all (\<lambda>c. radix_value c < r) (replicate k (CHR ''0'') @ num_string r n)"
    using num_string_digits [OF assms, of n] assms z by (auto simp: list_all_iff)
  then have "\<not> hexstr (replicate k (CHR ''0'') @ num_string r n)"
    using digits_not_hexstr digits_mono assms(2) by blast
  moreover have "stops r []" by (simp add: stops_def)
  note scan_number [OF assms this, of n]
  moreover have "replicate k (CHR ''0'') @ num_string r n \<noteq> []" using num_string_nonempty by simp
  ultimately show ?thesis using assms scan_zeros [of r k "num_string r n"]
    by (simp add: strtopaddr_def del: append_is_Nil_conv)
qed

text \<open>C29: every number conversion of \<open>kprintf\<close> for a 32-bit argument prints at least the digits the
  conversion asks for and at most ten, and reading the digits back in the conversion's radix gives
  the argument.\<close>

theorem kprintf_number_reads_back:
  assumes "conversion c = Some (dig, radix)" and "c \<noteq> CHR ''L''"
  shows "\<exists>s. vmsg (CHR ''%'' # c # fmt) (Arg32 v # args) = map_option ((@) s) (vmsg fmt args) \<and>
    dig \<le> length s \<and> length s \<le> 10 \<and> strtopaddr s radix = (v, [])"
proof -
  have r: "2 \<le> radix" "radix \<le> 16" "dig \<le> 8" "radix = 10 \<or> radix = 16"
    using assms by (auto simp: conversion_def split: if_splits)
  have v32: "unat v < 2 ^ 32" using unsigned_less [of v, where 'a = nat] by simp
  then have v: "unat (ucast v :: u64) = unat v" by (simp add: unsigned_ucast_eq take_bit_nat_eq_self_iff)
  have ur: "unat (of_nat radix :: u64) = radix" using r by (simp add: unat_of_nat_small)
  have "(2 :: nat) ^ 32 \<le> radix ^ 63"
    using power_mono [of 2 radix 32] power_increasing [of 32 63 radix] r(1) by linarith
  then have "put_digits 63 (ucast v :: u64) (of_nat radix) [] = Some (num_string radix (unat v))"
    using put_digits_num [of "of_nat radix" "ucast v :: u64" 63 "[]"] v v32 ur r by simp
  then have s: "put_number dig radix (ucast v) =
      Some (replicate (dig - length (num_string radix (unat v))) (CHR ''0'') @ num_string radix (unat v))"
    by (simp add: put_number_def)
  have "unat v < radix ^ 10" using v32 r(4) by auto
  then have "length (num_string radix (unat v)) \<le> 10" using num_string_length [of radix "unat v" 10] r(1) by simp
  then show ?thesis
    using assms s strtopaddr_padded [OF r(1,2), of _ "unat v"] r(3)
    by (intro exI [of _ "replicate (dig - length (num_string radix (unat v))) (CHR ''0'') @ num_string radix (unat v)"]) auto
qed

lemma kprintf_number_reads_back_witness:
  "\<exists>s. ksprintf ''%x!'' [Arg32 0x2a] = Some (s @ ''!'') \<and> strtopaddr s 16 = (0x2a, [])"
proof -
  have "conversion (CHR ''x'') = Some (8, 16)" by code_simp
  from kprintf_number_reads_back [OF this, where v = "0x2a" and fmt = "''!''" and args = "[]"]
  obtain s where s: "vmsg (CHR ''%'' # CHR ''x'' # ''!'') [Arg32 0x2a] = map_option ((@) s) (vmsg ''!'' [])"
    "strtopaddr s 16 = (0x2a, [])" by auto
  have "vmsg ''!'' [] = Some ''!''" by code_simp
  then have "ksprintf ''%x!'' [Arg32 0x2a] = Some (s @ ''!'')" unfolding ksprintf_def s(1) by simp
  with s(2) show ?thesis by blast
qed

end
