(* ===== verification/BootTime.thy ===== *)
theory BootTime
  imports Rtc
begin

section \<open>Time and timers of the startup library\<close>

text \<open>
  \<open>gmtime.c\<close>, \<open>calc_time_t.c\<close>, \<open>bcd2bin.c\<close>, \<open>invert_timer_freq.c\<close>, \<open>timer_tick2ns.c\<close> and
  \<open>timer_ns2tick.c\<close>. Broken-down time is the record \<open>tm\<close> of the \<open>rtc\<close> utility. \<open>unsigned long\<close>
  is 32 bits wide. \<open>gmtime\<close> computes with numbers below its argument, natural numbers here; all
  else is on words. A division by zero is \<open>None\<close>.
\<close>

definition bcd2bin :: "u32 \<Rightarrow> u32" where
  "bcd2bin a = drop_bit 12 (a AND 0xf000) * 1000 + drop_bit 8 (a AND 0xf00) * 100 +
     drop_bit 4 (a AND 0xf0) * 10 + (a AND 0xf)"

lemma bcd2bin_BCD2BIN: "bcd2bin = BCD2BIN"
  by (simp add: fun_eq_iff bcd2bin_def BCD2BIN_def)

subsection \<open>Calendar time\<close>

definition leap_bit :: "nat \<Rightarrow> nat" where
  "leap_bit year = (if (year + 2) mod 4 = 0 then 1 else 0)"

definition mdays :: "nat \<Rightarrow> nat list" where
  "mdays leap = (if leap = 0 then [31, 28, 31, 30, 31, 30, 31, 31, 30, 31, 30, 31]
                 else [31, 29, 31, 30, 31, 30, 31, 31, 30, 31, 30, 31])"

function find_year :: "nat \<Rightarrow> nat \<Rightarrow> nat \<times> nat" where
  "find_year year days =
     (let t = 365 + leap_bit year
      in if t > days then (year, days) else find_year (year + 1) (days - t))"
  by pat_completeness auto
termination by (relation "measure snd") (auto simp: leap_bit_def)

declare find_year.simps [simp del]

text \<open>The loop over the months of the table; it ends after twelve.\<close>

fun find_month :: "nat list \<Rightarrow> nat \<Rightarrow> nat \<Rightarrow> nat \<times> nat" where
  "find_month [] mon days = (mon, days)"
| "find_month (t # ts) mon days = (if t > days then (mon, days) else find_month ts (mon + 1) (days - t))"

text \<open>The time and the day of the year.\<close>

definition gmtime :: "nat \<Rightarrow> tm \<times> int" where
  "gmtime timer =
     (let days = timer div (60 * 60 * 24); secs = timer mod (60 * 60 * 24);
          (year, yday) = find_year 0 days;
          (mon, d) = find_month (mdays (leap_bit year)) 0 yday
      in (\<lparr>tm_sec = int (secs mod 60), tm_min = int (secs div 60 mod 60), tm_hour = int (secs div 60 div 60),
           tm_mday = int (d + 1), tm_mon = int mon, tm_year = int (year + 70),
           tm_wday = int ((days + 4) mod 7)\<rparr>, int yday))"

definition SEC_PER_MIN :: u32 where "SEC_PER_MIN = 60"
definition SEC_PER_HOUR :: u32 where "SEC_PER_HOUR = 60 * SEC_PER_MIN"
definition SEC_PER_DAY :: u32 where "SEC_PER_DAY = 24 * SEC_PER_HOUR"

definition month_sec :: "u32 list" where
  "month_sec = [0, 2678400, 5097600, 7776000, 10368000, 13046400,
     15638400, 18316800, 20995200, 23587200, 26265600, 28857600]"

definition calc_time_t :: "tm \<Rightarrow> u32" where
  "calc_time_t t =
     (let year = word_of_int (tm_year t - 70) :: u32;
          sec = (year * 365 + drop_bit 2 (year + 1)) * SEC_PER_DAY;
          sec = sec + month_sec ! nat (tm_mon t);
          year = word_of_int (tm_year t + 1900) :: u32;
          sec = (if tm_mon t \<ge> 2 \<and> year mod 4 = 0 \<and> (year mod 100 \<noteq> 0 \<or> year mod 400 = 0)
                 then sec + SEC_PER_DAY else sec);
          sec = sec + word_of_int (tm_mday t - 1) * SEC_PER_DAY;
          sec = sec + word_of_int (tm_hour t) * SEC_PER_HOUR;
          sec = sec + word_of_int (tm_min t) * SEC_PER_MIN
      in sec + word_of_int (tm_sec t))"

subsection \<open>Timer periods\<close>

definition ULONG_MAX :: u32 where
  "ULONG_MAX = - 1"

text \<open>The loop of \<open>invert_timer_freq\<close>, with fuel for the number of rounds.\<close>

primrec invert_loop :: "nat \<Rightarrow> u32 \<Rightarrow> u32 \<Rightarrow> u32 \<Rightarrow> int \<Rightarrow> (u32 \<times> int) option" where
  "invert_loop 0 freq quot rate scale = None"
| "invert_loop (Suc n) freq quot rate scale =
     (let d = quot div freq; rate = rate * 10 + d
      in if rate \<ge> ULONG_MAX div 10 - 10 then Some (rate, scale)
         else let rem = quot mod freq
              in if rem = 0 then Some (rate, scale)
                 else invert_loop n freq (rem * 10) rate (scale - 1))"

definition invert_timer_freq :: "nat \<Rightarrow> u32 \<Rightarrow> (u32 \<times> int) option res" where
  "invert_timer_freq fuel freq =
     (if freq = 0 then Inl ''Timer frequency is zero''
      else let big = freq > ULONG_MAX div 10
           in Inr (invert_loop fuel (if big then freq div 10 else freq) 1 0 (if big then -1 else 0)))"

text \<open>The two loops of \<open>timer_tick2ns\<close>; \<open>k\<close> is the power of ten that is left.\<close>

primrec tick_down :: "nat \<Rightarrow> u32 \<Rightarrow> u32 \<Rightarrow> u32 \<Rightarrow> u32 option" where
  "tick_down 0 ticks rate ns =
     (if ns \<noteq> 0 then Some ns
      else if rate = 0 then None
      else let p = rate * ticks in Some (if p div rate \<noteq> ticks then 0 else p))"
| "tick_down (Suc k) ticks rate ns =
     (if ns \<noteq> 0 then tick_down k ticks (rate div 10) (ns div 10)
      else if rate = 0 then None
      else let p = rate * ticks
           in tick_down k ticks (rate div 10) ((if p div rate \<noteq> ticks then 0 else p) div 10))"

definition timer_tick2ns :: "u32 \<times> int \<Rightarrow> u32 \<Rightarrow> u32 option" where
  "timer_tick2ns qtime ticks =
     (let power = -9 - snd qtime
      in map_option (\<lambda>ns. ns * 10 ^ nat (- power)) (tick_down (nat power) ticks (fst qtime) 0))"

definition timer_ns2tick :: "u32 \<times> int \<Rightarrow> u32 \<Rightarrow> u32 option" where
  "timer_ns2tick qtime ns =
     Option.bind (timer_tick2ns qtime 1) (\<lambda>t. if t = 0 then None else Some (ns div t))"

subsection \<open>Calendar time: the two directions fit\<close>

lemma find_year_sum:
  "find_year y d = (y', d') \<Longrightarrow> 365 * y' + (y' + 1) div 4 + d' = 365 * y + (y + 1) div 4 + d \<and> d' < 365 + leap_bit y'"
proof (induction y d rule: find_year.induct)
  case (1 y d)
  show ?case
  proof (cases "365 + leap_bit y > d")
    case True
    then show ?thesis using 1(2) by (subst (asm) find_year.simps) (simp add: Let_def)
  next
    case False
    have "find_year (y + 1) (d - (365 + leap_bit y)) = (y', d')"
      using 1(2) False by (subst (asm) find_year.simps) (simp add: Let_def)
    note IH = 1(1) [OF refl False this]
    have "(y + 2) div 4 = (y + 1) div 4 + leap_bit y"
      unfolding leap_bit_def by (simp, presburger)
    then show ?thesis using IH False by simp
  qed
qed

definition month_start :: "nat \<Rightarrow> nat \<Rightarrow> nat" where
  "month_start leap m = sum_list (take m (mdays leap))"

lemma find_month_sum:
  "d < sum_list ts \<Longrightarrow> find_month ts m d = (m', d') \<Longrightarrow>
    m \<le> m' \<and> m' < m + length ts \<and> sum_list (take (m' - m) ts) + d' = d \<and> d' < ts ! (m' - m)"
proof (induction ts m d rule: find_month.induct)
  case (2 t ts m d)
  show ?case
  proof (cases "t > d")
    case True
    then show ?thesis using 2 by simp
  next
    case False
    then have IH: "Suc m \<le> m' \<and> m' < Suc m + length ts \<and> sum_list (take (m' - Suc m) ts) + d' = d - t \<and> d' < ts ! (m' - Suc m)"
      using 2 by simp
    then have "m' - m = Suc (m' - Suc m)" by linarith
    with IH False show ?thesis by auto
  qed
qed simp

lemma mdays_sum: "leap \<le> 1 \<Longrightarrow> sum_list (mdays leap) = 365 + leap" "length (mdays leap) = 12"
  by (auto simp: mdays_def)

lemma month_sec_start:
  "m < 12 \<Longrightarrow> leap \<le> 1 \<Longrightarrow>
    month_sec ! m + (if 2 \<le> m then of_nat leap * SEC_PER_DAY else 0) = of_nat (month_start leap m * 86400)"
proof -
  assume m: "m < 12" and l: "leap \<le> 1"
  have "m = 0 \<or> m = 1 \<or> m = 2 \<or> m = 3 \<or> m = 4 \<or> m = 5 \<or> m = 6 \<or> m = 7 \<or> m = 8 \<or> m = 9 \<or> m = 10 \<or> m = 11"
    using m by presburger
  moreover have "leap = 0 \<or> leap = 1" using l by linarith
  ultimately show ?thesis
    by (elim disjE) (simp_all add: month_sec_def month_start_def mdays_def SEC_PER_DAY_def SEC_PER_HOUR_def SEC_PER_MIN_def)
qed

text \<open>The leap years \<open>gmtime\<close> counts are those of the calendar up to 2099.\<close>

lemma leap_rule:
  assumes "y < 130"
  shows "(word_of_int (int (y + 70) + 1900) :: u32) mod 4 = 0 \<and>
      ((word_of_int (int (y + 70) + 1900) :: u32) mod 100 \<noteq> 0 \<or> (word_of_int (int (y + 70) + 1900) :: u32) mod 400 = 0)
    \<longleftrightarrow> leap_bit y = 1"
proof -
  define w where "w = (word_of_int (int (y + 70) + 1900) :: u32)"
  have "w = of_nat (y + 1970)" by (simp add: w_def)
  then have u: "unat w = y + 1970" using assms unat_of_nat_small [of "y + 1970", where 'a = 32] by simp
  have z: "w mod k = 0 \<longleftrightarrow> (y + 1970) mod unat k = 0" for k
    by (simp add: unat_mod u flip: unat_eq_0)
  have "(y + 1970) mod 4 = 0 \<and> ((y + 1970) mod 100 \<noteq> 0 \<or> (y + 1970) mod 400 = 0) \<longleftrightarrow> (y + 2) mod 4 = 0"
    using assms by presburger
  then show ?thesis unfolding w_def [symmetric] z by (simp add: leap_bit_def)
qed

lemma gmtime_calc:
  assumes "unat t < 4102444800"
  shows "calc_time_t (fst (gmtime (unat t))) = t"
proof -
  define days where "days = unat t div 86400"
  define secs where "secs = unat t mod 86400"
  obtain y yd where y: "find_year 0 days = (y, yd)" by fastforce
  obtain m d where m: "find_month (mdays (leap_bit y)) 0 yd = (m, d)" by fastforce
  have days: "days = 365 * y + (y + 1) div 4 + yd" "yd < 365 + leap_bit y"
    using find_year_sum [OF y] by simp_all
  have l: "leap_bit y \<le> 1" by (simp add: leap_bit_def)
  have "yd < sum_list (mdays (leap_bit y))" using days(2) mdays_sum(1) [OF l] by simp
  from find_month_sum [OF this m] have md: "m < 12" "month_start (leap_bit y) m + d = yd"
    by (simp_all add: mdays_sum month_start_def)
  have "days < 47482" using assms by (simp add: days_def less_mult_imp_div_less)
  then have y130: "y < 130" using days(1) by linarith
  define sec_of_day where "sec_of_day = secs div 60 div 60 * 3600 + secs div 60 mod 60 * 60 + secs mod 60"
  have sod: "sec_of_day = secs"
    unfolding sec_of_day_def using div_mult_mod_eq [of secs 60] div_mult_mod_eq [of "secs div 60" 60] by linarith
  have year: "word_of_int (int (y + 70) - 70) = (of_nat y :: u32)" by simp
  have dr: "drop_bit 2 (of_nat y + 1 :: u32) = of_nat ((y + 1) div 4)"
  proof -
    have "(of_nat y + 1 :: u32) = of_nat (Suc y)" by simp
    moreover have "unat (of_nat (Suc y) :: u32) = Suc y" using y130 by (intro unat_of_nat_small) simp
    ultimately have "unat (of_nat y + 1 :: u32) = Suc y" by metis
    moreover have "unat (drop_bit 2 (of_nat y + 1 :: u32)) = drop_bit 2 (unat (of_nat y + 1 :: u32))"
      by (rule unat_drop_bit_eq)
    ultimately have "unat (drop_bit 2 (of_nat y + 1 :: u32)) = (y + 1) div 4"
      by (simp only: drop_bit_eq_div) simp
    moreover have "unat (of_nat ((y + 1) div 4) :: u32) = (y + 1) div 4" using y130 by (intro unat_of_nat_small) simp
    ultimately show ?thesis by (intro unsigned_word_eqI [where 'a = nat]) metis
  qed
  have leap: "(if int m \<ge> 2 \<and> (word_of_int (int (y + 70) + 1900) :: u32) mod 4 = 0 \<and>
      ((word_of_int (int (y + 70) + 1900) :: u32) mod 100 \<noteq> 0 \<or> (word_of_int (int (y + 70) + 1900) :: u32) mod 400 = 0)
     then s + SEC_PER_DAY else s) = s + (if 2 \<le> m then of_nat (leap_bit y) * SEC_PER_DAY else 0)" for s :: u32
    using leap_rule [OF y130] l by (auto simp: leap_bit_def)
  have wd: "word_of_int (int (d + 1) - 1) = (of_nat d :: u32)" by simp
  have g: "fst (gmtime (unat t)) = \<lparr>tm_sec = int (secs mod 60), tm_min = int (secs div 60 mod 60),
      tm_hour = int (secs div 60 div 60), tm_mday = int (d + 1), tm_mon = int m, tm_year = int (y + 70),
      tm_wday = int ((days + 4) mod 7)\<rparr>"
    unfolding gmtime_def by (simp add: days_def [symmetric] secs_def [symmetric] y m)
  have c: "calc_time_t (fst (gmtime (unat t))) =
      ((of_nat y * 365 + of_nat ((y + 1) div 4)) * SEC_PER_DAY + month_sec ! m +
        (if 2 \<le> m then of_nat (leap_bit y) * SEC_PER_DAY else 0)) + of_nat d * SEC_PER_DAY +
      of_nat (secs div 60 div 60) * SEC_PER_HOUR + of_nat (secs div 60 mod 60) * SEC_PER_MIN + of_nat (secs mod 60)"
    unfolding calc_time_t_def Let_def g
    by (simp only: tm.simps leap year dr wd nat_int of_int_of_nat_eq)
  have D: "SEC_PER_DAY = of_nat 86400" "SEC_PER_HOUR = of_nat 3600" "SEC_PER_MIN = of_nat 60"
    by (simp_all add: SEC_PER_DAY_def SEC_PER_HOUR_def SEC_PER_MIN_def)
  have ms: "month_sec ! m + (if 2 \<le> m then of_nat (leap_bit y) * SEC_PER_DAY else 0) = of_nat (month_start (leap_bit y) m * 86400)"
    by (rule month_sec_start [OF md(1) l])
  have "calc_time_t (fst (gmtime (unat t))) =
      of_nat ((y * 365 + (y + 1) div 4) * 86400 + month_start (leap_bit y) m * 86400 + d * 86400 + sec_of_day)"
    unfolding c add.assoc [of _ "month_sec ! m"] ms unfolding D sec_of_day_def
    by (simp only: of_nat_add of_nat_mult of_nat_numeral add.assoc)
  also have "(y * 365 + (y + 1) div 4) * 86400 + month_start (leap_bit y) m * 86400 + d * 86400 + sec_of_day = unat t"
  proof -
    have "y * 365 + (y + 1) div 4 + month_start (leap_bit y) m + d = days" using days(1) md(2) by simp
    then have "(y * 365 + (y + 1) div 4 + month_start (leap_bit y) m + d) * 86400 + sec_of_day = days * 86400 + secs"
      by (simp only: sod)
    also have "\<dots> = unat t" unfolding days_def secs_def by (rule div_mult_mod_eq)
    finally show ?thesis by (simp only: add_mult_distrib)
  qed
  finally show ?thesis by simp
qed

subsection \<open>Timer periods are the rounded-down inverse\<close>

definition RATE_LIMIT :: nat where
  "RATE_LIMIT = 429496719"

lemma ulong_limits: "unat (ULONG_MAX div 10 - 10) = RATE_LIMIT" "unat (ULONG_MAX div 10) = 429496729"
  by (simp_all add: ULONG_MAX_def RATE_LIMIT_def unat_div unat_sub word_le_nat_alt)

text \<open>
  In round \<open>j\<close> the loop holds the quotient of \<open>10 ^ (j - 1)\<close> by the frequency and ten times its
  remainder.
\<close>

lemma invert_step:
  fixes f quot rate :: u32
  assumes f: "0 < unat f" "unat f \<le> 429496729"
    and q: "unat quot = (if j = 0 then 1 else 10 * (10 ^ (j - 1) mod unat f))"
    and r: "unat rate = (if j = 0 then 0 else 10 ^ (j - 1) div unat f)" "unat rate < RATE_LIMIT"
  shows "unat (rate * 10 + quot div f) = 10 ^ j div unat f" and "unat (quot mod f) = 10 ^ j mod unat f"
    and "unat (quot mod f * 10) = 10 * (10 ^ j mod unat f)"
proof -
  let ?f = "unat f"
  have eq: "10 ^ j div ?f = 10 * unat rate + unat quot div ?f" "unat quot mod ?f = 10 ^ j mod ?f"
  proof -
    have 2: "10 * (10 ^ (j - 1)) = 10 * (10 ^ (j - 1) mod ?f) + 10 * (10 ^ (j - 1) div ?f) * ?f"
      by (metis add.commute distrib_left div_mult_mod_eq mult.assoc)
    show "10 ^ j div ?f = 10 * unat rate + unat quot div ?f"
    proof (cases j)
      case (Suc i)
      have "10 ^ j div ?f = (10 * (10 ^ i mod ?f) + 10 * (10 ^ i div ?f) * ?f) div ?f"
        using 2 Suc by simp
      also have "\<dots> = 10 * (10 ^ i div ?f) + 10 * (10 ^ i mod ?f) div ?f"
        using f(1) by (intro div_mult_self1) simp
      finally show ?thesis using q r Suc by simp
    qed (use q r in simp)
    show "unat quot mod ?f = 10 ^ j mod ?f"
    proof (cases j)
      case (Suc i)
      then show ?thesis using q by (simp add: mod_mult_right_eq)
    qed (use q in simp)
  qed
  have "unat quot \<le> 10 * (?f - 1) \<or> unat quot = 1"
    using q f(1) mod_less_divisor [OF f(1), of "10 ^ (j - 1)"] by (cases "j = 0") auto
  then have "unat quot \<le> 10 * ?f" using f(1) by auto
  then have "unat quot div ?f \<le> 10 * ?f div ?f" by (rule div_le_mono)
  then have "unat quot div ?f \<le> 10" using f(1) by simp
  then have "unat rate * 10 + unat quot div ?f < 2 ^ 32" using r(2) by (simp add: RATE_LIMIT_def)
  then show "unat (rate * 10 + quot div f) = 10 ^ j div ?f"
    using r(2) by (simp add: unat_word_ariths unat_div eq(1) RATE_LIMIT_def mult.commute)
  show m: "unat (quot mod f) = 10 ^ j mod ?f" by (simp add: unat_mod eq(2))
  have "10 ^ j mod ?f < ?f" using f(1) by simp
  then have "10 * (10 ^ j mod ?f) < 2 ^ 32" using f(2) by simp
  then show "unat (quot mod f * 10) = 10 * (10 ^ j mod ?f)"
    using m by (simp add: unat_word_ariths mult.commute)
qed

lemma invert_loop_result:
  assumes "0 < unat f" "unat f \<le> 429496729"
    and "unat quot = (if j = 0 then 1 else 10 * (10 ^ (j - 1) mod unat f))"
    and "unat rate = (if j = 0 then 0 else 10 ^ (j - 1) div unat f)" "unat rate < RATE_LIMIT"
    and "18 < j + n" and "j \<le> 18"
  shows "\<exists>k r. j \<le> k \<and> k \<le> 18 \<and> invert_loop n f quot rate s = Some (r, s - int (k - j)) \<and>
    unat r = 10 ^ k div unat f \<and> (RATE_LIMIT \<le> unat r \<or> 10 ^ k mod unat f = 0)"
  using assms
proof (induction n arbitrary: quot rate s j)
  case (Suc n)
  note st = invert_step [OF Suc.prems(1-5)]
  have lim: "ULONG_MAX div 10 - 10 \<le> x \<longleftrightarrow> RATE_LIMIT \<le> unat x" for x
    by (simp only: word_le_nat_alt ulong_limits)
  show ?case
  proof (cases "RATE_LIMIT \<le> unat (rate * 10 + quot div f) \<or> quot mod f = 0")
    case True
    then have "invert_loop (Suc n) f quot rate s = Some (rate * 10 + quot div f, s)"
      by (auto simp: lim Let_def)
    moreover have "RATE_LIMIT \<le> unat (rate * 10 + quot div f) \<or> 10 ^ j mod unat f = 0"
    proof (cases "quot mod f = 0")
      case True
      then have "unat (quot mod f) = 0" by (simp only: unsigned_0)
      with st(2) show ?thesis by simp
    next
      case False
      with True show ?thesis by blast
    qed
    ultimately show ?thesis using st(1) Suc.prems(7) 
      by (intro exI [of _ j] exI [of _ "rate * 10 + quot div f"] conjI) (simp_all del: invert_loop.simps)
  next
    case False
    have "10 ^ 18 div unat f \<ge> 10 ^ 18 div 429496729" using Suc.prems(1,2) by (intro div_le_mono2) simp_all
    then have big: "RATE_LIMIT \<le> 10 ^ 18 div unat f" by (simp add: RATE_LIMIT_def)
    have j: "j < 18"
    proof (rule ccontr)
      assume "\<not> j < 18"
      then have "j = 18" using Suc.prems(7) by simp
      with False big st(1) show False by simp
    qed
    have "\<exists>k r. Suc j \<le> k \<and> k \<le> 18 \<and>
        invert_loop n f (quot mod f * 10) (rate * 10 + quot div f) (s - 1) = Some (r, s - 1 - int (k - Suc j)) \<and>
        unat r = 10 ^ k div unat f \<and> (RATE_LIMIT \<le> unat r \<or> 10 ^ k mod unat f = 0)"
      using False st(1,3) Suc.prems(1,2,6) j by (intro Suc.IH) simp_all
    then obtain k r where kr: "Suc j \<le> k \<and> k \<le> 18 \<and>
        invert_loop n f (quot mod f * 10) (rate * 10 + quot div f) (s - 1) = Some (r, s - 1 - int (k - Suc j)) \<and>
        unat r = 10 ^ k div unat f \<and> (RATE_LIMIT \<le> unat r \<or> 10 ^ k mod unat f = 0)"
      by (elim exE) (rule that)
    note k = kr [THEN conjunct1] kr [THEN conjunct2, THEN conjunct1]
      kr [THEN conjunct2, THEN conjunct2, THEN conjunct2, THEN conjunct1]
      kr [THEN conjunct2, THEN conjunct2, THEN conjunct2, THEN conjunct2]
    note e = kr [THEN conjunct2, THEN conjunct2, THEN conjunct1]
    have "invert_loop (Suc n) f quot rate s = Some (r, s - int (k - j))"
      using False e k(1) by (simp add: lim Let_def of_nat_diff)
    then show ?thesis using k by (intro exI [of _ k] exI [of _ r] conjI) (simp_all del: invert_loop.simps)
  qed
qed simp

lemma word_div_self: "r \<noteq> 0 \<Longrightarrow> r div r = 1" for r :: u32
  by (rule unsigned_word_eqI [where 'a = nat]) (simp add: unat_div unat_gt_0)

lemma tick_down_one:
  "ns = 0 \<or> ns = rate \<Longrightarrow> 0 < unat rate div 10 ^ k \<Longrightarrow>
    \<exists>x. tick_down k 1 rate ns = Some x \<and> unat x = unat rate div 10 ^ k"
proof (induction k arbitrary: rate ns)
  case 0
  then show ?case by (auto simp: word_div_self)
next
  case (Suc k)
  have q: "unat (rate div 10) = unat rate div 10" by (simp add: unat_div)
  have e: "unat rate div 10 ^ Suc k = unat (rate div 10) div 10 ^ k" by (simp add: q div_mult2_eq)
  have "rate \<noteq> 0" using Suc.prems(2) by auto
  then have "tick_down (Suc k) 1 rate ns = tick_down k 1 (rate div 10) (rate div 10)"
    using Suc.prems(1) by (auto simp: word_div_self)
  then show ?case using Suc.IH [of "rate div 10" "rate div 10"] Suc.prems(2) unfolding e by simp
qed

lemma div_powers: "f > 0 \<Longrightarrow> 10 ^ (9 + j) div f div 10 ^ j = 10 ^ 9 div (f :: nat)"
proof -
  assume f: "f > 0"
  have "10 ^ (9 + j) div f div 10 ^ j = (10 ^ 9 * 10 ^ j) div (f * 10 ^ j)"
    by (simp only: div_mult2_eq power_add)
  also have "\<dots> = 10 ^ 9 div f" by (intro div_mult_mult2) simp
  finally show ?thesis .
qed

lemma tick_of_invert:
  assumes f: "0 < f" "f \<le> 429496729" and r: "unat r = 10 ^ k div f"
    and k: "RATE_LIMIT \<le> unat r \<or> 10 ^ k mod f = 0"
  shows "\<exists>x. timer_tick2ns (r, - int k) 1 = Some x \<and> unat x = 10 ^ 9 div f"
proof (cases "9 \<le> k")
  case True
  then obtain j where j: "k = 9 + j" using le_Suc_ex by blast
  have d: "unat r div 10 ^ j = 10 ^ 9 div f" using div_powers [OF f(1)] by (simp add: r j)
  moreover have "0 < 10 ^ 9 div f" using f by (simp add: div_greater_zero_iff)
  ultimately obtain x where "tick_down j 1 r 0 = Some x" "unat x = 10 ^ 9 div f"
    using tick_down_one [of 0 r j] by auto
  then show ?thesis using j by (simp add: timer_tick2ns_def)
next
  case False
  have "10 ^ k \<le> (10 :: nat) ^ 8" using False by (intro power_increasing) simp_all
  then have "unat r \<le> 10 ^ 8" unfolding r using f(1) by (meson div_le_dividend le_trans)
  then have m: "f dvd 10 ^ k" using k by (auto simp: RATE_LIMIT_def)
  have r0: "unat r * f = 10 ^ k" using m r by simp
  have e: "(10 :: nat) ^ 9 = 10 ^ k * 10 ^ (9 - k)" using False by (simp add: power_add [symmetric])
  have x: "10 ^ 9 div f = unat r * 10 ^ (9 - k)"
    unfolding e r using m by (metis div_mult_swap mult.commute)
  have "r \<noteq> 0" using r0 by (intro notI) simp
  then have t: "tick_down 0 1 r 0 = Some r" by (simp add: word_div_self)
  have "unat (r * 10 ^ (9 - k)) = unat r * 10 ^ (9 - k)"
  proof -
    have "unat r * 10 ^ (9 - k) \<le> 10 ^ 9" unfolding x [symmetric] by simp
    then have "unat r * 10 ^ (9 - k) < 2 ^ 32" by simp
    moreover have "r * 10 ^ (9 - k) = of_nat (unat r * 10 ^ (9 - k))" by simp
    ultimately show ?thesis using unat_of_nat_small [of "unat r * 10 ^ (9 - k)", where 'a = 32] by simp
  qed
  moreover have "nat (- (-9 - - int k)) = 9 - k" "nat (-9 - - int k) = 0" using False by simp_all
  ultimately show ?thesis using t x by (simp add: timer_tick2ns_def Let_def)
qed

definition used_freq :: "u32 \<Rightarrow> nat" where
  "used_freq f = (if 429496729 < unat f then unat f div 10 else unat f)"

lemma invert_ends:
  assumes "19 \<le> n"
  shows "if f = 0 then \<exists>e. invert_timer_freq n f = Inl e
    else \<exists>k r. k \<le> 18 \<and> invert_timer_freq n f = Inr (Some (r, (if 429496729 < unat f then -1 else 0) - int k)) \<and>
      unat r = 10 ^ k div used_freq f \<and> (RATE_LIMIT \<le> unat r \<or> 10 ^ k mod used_freq f = 0)"
proof (cases "f = 0")
  case False
  then have f0: "0 < unat f" by (simp add: unat_gt_0)
  have big: "f > ULONG_MAX div 10 \<longleftrightarrow> 429496729 < unat f" by (simp only: word_less_nat_alt ulong_limits)
  define g where "g = (if 429496729 < unat f then f div 10 else f)"
  have g: "unat g = used_freq f" by (simp add: g_def used_freq_def unat_div)
  have "unat f < 2 ^ 32" using unsigned_less [of f, where 'a = nat] by simp
  then have g1: "0 < unat g" "unat g \<le> 429496729" using f0 by (auto simp: g used_freq_def)
  from invert_loop_result [OF g1, of 1 0 0 n "if 429496729 < unat f then -1 else 0"] assms
  have "\<exists>k r. 0 \<le> k \<and> k \<le> 18 \<and> invert_loop n g 1 0 (if 429496729 < unat f then -1 else 0) =
        Some (r, (if 429496729 < unat f then -1 else 0) - int (k - 0)) \<and>
      unat r = 10 ^ k div unat g \<and> (RATE_LIMIT \<le> unat r \<or> 10 ^ k mod unat g = 0)"
    by (simp add: RATE_LIMIT_def)
  then show ?thesis using False unfolding g
    by (simp add: invert_timer_freq_def big g_def [symmetric])
qed (simp add: invert_timer_freq_def)

subsection \<open>Properties\<close>

text \<open>C30: breaking a time down and putting it together again gives the same time, for every second
  from 1970 to the end of 2099; in 2100 the two functions disagree about the leap year.\<close>

theorem calc_time_of_gmtime:
  assumes "unat t < 4102444800"
  shows "calc_time_t (fst (gmtime (unat t))) = t"
  by (rule gmtime_calc [OF assms])

lemma calc_time_of_gmtime_witness: "calc_time_t (fst (gmtime 951782400)) = 951782400"
  using calc_time_of_gmtime [of 951782400] by simp

text \<open>C31: \<open>invert_timer_freq\<close> crashes for a frequency of zero only, and otherwise ends within 19
  rounds with the period of the timer, a power of ten divided by the frequency and rounded down;
  nothing overflows.\<close>

theorem invert_timer_freq_ends:
  assumes "19 \<le> n"
  shows "if f = 0 then \<exists>e. invert_timer_freq n f = Inl e
    else \<exists>k r. k \<le> 18 \<and> invert_timer_freq n f = Inr (Some (r, (if 429496729 < unat f then -1 else 0) - int k)) \<and>
      unat r = 10 ^ k div used_freq f \<and> (RATE_LIMIT \<le> unat r \<or> 10 ^ k mod used_freq f = 0)"
  by (rule invert_ends [OF assms])

lemma invert_timer_freq_ends_witness: "\<exists>k r. k \<le> 18 \<and> invert_timer_freq 19 396000000 = Inr (Some (r, - int k))"
  using invert_timer_freq_ends [of 19 396000000] by auto

text \<open>C32: with the period \<open>invert_timer_freq\<close> computes for a frequency below 429 MHz, one tick lasts
  the number of nanoseconds in a second divided by the frequency, rounded down, and
  \<open>timer_ns2tick\<close> divides by that.\<close>

theorem tick_is_rounded_period:
  assumes "0 < unat f" and "unat f \<le> 429496729"
  shows "\<exists>q x. invert_timer_freq 19 f = Inr (Some q) \<and> timer_tick2ns q 1 = Some x \<and> unat x = 10 ^ 9 div unat f \<and>
    timer_ns2tick q ns = Some (ns div x)"
proof -
  have f: "f \<noteq> 0" "\<not> 429496729 < unat f" "used_freq f = unat f" using assms by (auto simp: used_freq_def)
  obtain k r where e: "invert_timer_freq 19 f = Inr (Some (r, - int k))" and r: "unat r = 10 ^ k div unat f"
    and k: "RATE_LIMIT \<le> unat r \<or> 10 ^ k mod unat f = 0"
    using invert_ends [of 19 f] f by auto
  obtain x where x: "timer_tick2ns (r, - int k) 1 = Some x" "unat x = 10 ^ 9 div unat f"
    using tick_of_invert [OF assms r k] by blast
  have "0 < 10 ^ 9 div unat f" using assms by (simp add: div_greater_zero_iff)
  then have "x \<noteq> 0" using x(2) by (intro notI) simp
  then have "timer_ns2tick (r, - int k) ns = Some (ns div x)" by (simp add: timer_ns2tick_def x(1))
  with e x show ?thesis by blast
qed

lemma tick_is_rounded_period_witness:
  "\<exists>q x. invert_timer_freq 19 66000000 = Inr (Some q) \<and> timer_tick2ns q 1 = Some x \<and> unat x = 15"
  using tick_is_rounded_period [of 66000000 0] by auto

end
