(* ===== verification/MemCopy.thy ===== *)
theory MemCopy
  imports Syspage
begin

section \<open>Copying memory\<close>

text \<open>
  \<open>memcpy.c\<close>, \<open>memmove.c\<close> and \<open>calc_cksum.c\<close>, on a flat memory of bytes. \<open>memcpy\<close> copies
  aligned blocks word by word with an unrolled loop that is entered in the middle (Duff's
  device). \<open>memmove\<close> copies backwards when the source starts below the destination and reaches
  into it, and calls \<open>memcpy\<close> otherwise. The lemmas show that for every overlap the result is that
  of the block move \<open>mem_move\<close> of the system page's theory, which reads all bytes first.
\<close>

type_synonym memory = "u32 \<Rightarrow> u8"

text \<open>\<open>*d++ = *s++\<close> on words: four bytes are read before four are written.\<close>

definition copy_word :: "u32 \<Rightarrow> u32 \<Rightarrow> memory \<Rightarrow> memory" where
  "copy_word d s m = m(d := m s, d + 1 := m (s + 1), d + 2 := m (s + 2), d + 3 := m (s + 3))"

primrec copy_words :: "nat \<Rightarrow> u32 \<times> u32 \<times> memory \<Rightarrow> u32 \<times> u32 \<times> memory" where
  "copy_words 0 st = st"
| "copy_words (Suc n) st = copy_words n (case st of (d, s, m) \<Rightarrow> (d + 4, s + 4, copy_word d s m))"

text \<open>The rounds of the unrolled loop behind the first: sixteen words each.\<close>

primrec full_rounds :: "nat \<Rightarrow> u32 \<times> u32 \<times> memory \<Rightarrow> u32 \<times> u32 \<times> memory" where
  "full_rounds 0 st = st"
| "full_rounds (Suc n) st = full_rounds n (copy_words 16 st)"

definition duff_copy :: "nat \<Rightarrow> u32 \<times> u32 \<times> memory \<Rightarrow> u32 \<times> u32 \<times> memory" where
  "duff_copy nwords st =
     (let n = (nwords + 15) div 16; first = nwords mod 16
      in full_rounds (n - 1) (copy_words (if first = 0 then 16 else first) st))"

primrec copy_bytes :: "nat \<Rightarrow> u32 \<times> u32 \<times> memory \<Rightarrow> u32 \<times> u32 \<times> memory" where
  "copy_bytes 0 st = st"
| "copy_bytes (Suc n) st = copy_bytes n (case st of (d, s, m) \<Rightarrow> (d + 1, s + 1, m(d := m s)))"

definition memcpy :: "u32 \<Rightarrow> u32 \<Rightarrow> nat \<Rightarrow> memory \<Rightarrow> memory" where
  "memcpy dst src nbytes m =
     (let (rest, st) =
        (if nbytes \<ge> 4 \<and> src AND 3 = 0 \<and> dst AND 3 = 0
         then (nbytes mod 4, duff_copy (nbytes div 4) (dst, src, m))
         else (nbytes, (dst, src, m)))
      in snd (snd (copy_bytes rest st)))"

primrec copy_back :: "u32 \<Rightarrow> u32 \<Rightarrow> nat \<Rightarrow> memory \<Rightarrow> memory" where
  "copy_back d s 0 m = m"
| "copy_back d s (Suc n) m = copy_back d s n (m(d + of_nat n := m (s + of_nat n)))"

definition memmove :: "u32 \<Rightarrow> u32 \<Rightarrow> nat \<Rightarrow> memory \<Rightarrow> memory" where
  "memmove dest src len m =
     (if src < dest \<and> src + of_nat len > dest then copy_back dest src len m else memcpy dest src len m)"

primrec sum_bytes :: "nat \<Rightarrow> u32 \<Rightarrow> memory \<Rightarrow> u32 \<Rightarrow> u32" where
  "sum_bytes 0 cp m acc = acc"
| "sum_bytes (Suc n) cp m acc = sum_bytes n (cp + 1) m (acc + ucast (m cp))"

definition calc_cksum :: "u32 \<Rightarrow> nat \<Rightarrow> memory \<Rightarrow> u32" where
  "calc_cksum start nbytes m = sum_bytes nbytes start m 0 AND 0xff"

subsection \<open>Forward copies\<close>

text \<open>The first \<open>k\<close> bytes are there, the rest is as it was.\<close>

definition moved_to :: "u32 \<Rightarrow> u32 \<Rightarrow> nat \<Rightarrow> memory \<Rightarrow> memory" where
  "moved_to d s k m = mem_move d s (of_nat k) m"

lemma moved_to_at:
  assumes "x < 2 ^ 32" and "k < 2 ^ 32"
  shows "moved_to d s k m (d + of_nat x) = (if x < k then m (s + of_nat x) else m (d + of_nat x))"
proof -
  have "of_nat x < (of_nat k :: u32) \<longleftrightarrow> x < k"
    using assms by (simp add: word_less_nat_alt unat_of_nat_small)
  then show ?thesis by (simp add: moved_to_def mem_move_def)
qed

lemma addr_cases: "\<exists>x. a = d + of_nat x \<and> x < 2 ^ 32" for a d :: u32
  by (rule exI [of _ "unat (a - d)"]) (use unsigned_less [of "a - d", where 'a = nat] in simp)

lemma of_nat32_eq: "x < 2 ^ 32 \<Longrightarrow> y < 2 ^ 32 \<Longrightarrow> (of_nat x :: u32) = of_nat y \<longleftrightarrow> x = y"
proof -
  assume "x < 2 ^ 32" "y < 2 ^ 32"
  then have "unat (of_nat x :: u32) = x" "unat (of_nat y :: u32) = y" by (simp_all add: unat_of_nat_small)
  then show ?thesis by metis
qed

definition forward_ok :: "u32 \<Rightarrow> u32 \<Rightarrow> nat \<Rightarrow> bool" where
  "forward_ok d s len \<longleftrightarrow> unat s + len < 2 ^ 32 \<and> unat d + len < 2 ^ 32 \<and> (d \<le> s \<or> unat s + len \<le> unat d)"

lemma forward_unread:
  assumes "forward_ok d s len" and "k \<le> x" and "x < len"
  shows "moved_to d s k m (s + of_nat x) = m (s + of_nat x)"
proof -
  obtain y where y: "s + of_nat x = d + of_nat y" "y < 2 ^ 32" using addr_cases by blast
  have b: "unat (s + of_nat x) = unat s + x" using assms by (intro unat_offset) (simp add: forward_ok_def)
  have "\<not> y < k"
  proof
    assume "y < k"
    then have "unat (d + of_nat y) = unat d + y" using assms by (intro unat_offset) (simp add: forward_ok_def)
    with b y(1) have "unat s + x = unat d + y" by simp
    then show False using assms \<open>y < k\<close> by (auto simp: forward_ok_def word_le_nat_alt)
  qed
  moreover have "k < 2 ^ 32" using assms by (simp add: forward_ok_def)
  ultimately show ?thesis using moved_to_at [OF y(2), of k d s m] y(1) by simp
qed

text \<open>A chunk copied behind the first \<open>k\<close> bytes extends the moved part.\<close>

lemma forward_step:
  assumes "forward_ok d s len" and "k + c \<le> len"
  shows "moved_to (d + of_nat k) (s + of_nat k) c (moved_to d s k m) = moved_to d s (k + c) m"
proof
  fix a
  obtain x where x: "a = d + of_nat x" "x < 2 ^ 32" using addr_cases by blast
  have len: "len < 2 ^ 32" using assms(1) by (simp add: forward_ok_def)
  obtain z where z: "a = (d + of_nat k) + of_nat z" "z < 2 ^ 32" using addr_cases by blast
  have zx: "of_nat (k + z) = (of_nat x :: u32)" using x(1) z(1) by (simp add: add.assoc)
  show "moved_to (d + of_nat k) (s + of_nat k) c (moved_to d s k m) a = moved_to d s (k + c) m a"
  proof (cases "z < c")
    case True
    then have "k + z < 2 ^ 32" using assms(2) len by simp
    then have kz: "x = k + z" using zx x(2) of_nat32_eq by metis
    have "moved_to (d + of_nat k) (s + of_nat k) c (moved_to d s k m) a = moved_to d s k m (s + of_nat x)"
    proof -
      have c: "c < 2 ^ 32" using assms(2) len by simp
      have "s + of_nat k + of_nat z = s + of_nat x" by (simp add: kz add.assoc)
      have "moved_to (d + of_nat k) (s + of_nat k) c (moved_to d s k m) a = moved_to d s k m (s + of_nat k + of_nat z)"
        using moved_to_at [OF z(2) c, of "d + of_nat k" "s + of_nat k" "moved_to d s k m"] True z(1) by simp
      then show ?thesis unfolding \<open>s + of_nat k + of_nat z = s + of_nat x\<close> .
    qed
    also have "\<dots> = m (s + of_nat x)"
      using True assms by (intro forward_unread [OF assms(1)]) (simp_all add: kz)
    finally show ?thesis using moved_to_at [OF x(2), of "k + c" d s m] x(1) True kz assms(2) len by simp
  next
    case False
    have "moved_to (d + of_nat k) (s + of_nat k) c (moved_to d s k m) a = moved_to d s k m a"
      using moved_to_at [OF z(2), of c "d + of_nat k" "s + of_nat k"] False z(1) assms(2) len by simp
    moreover have "x < k \<or> \<not> x < k + c"
    proof (rule ccontr)
      assume "\<not> (x < k \<or> \<not> x < k + c)"
      then have xk: "k \<le> x" "x < k + c" by simp_all
      then have "a = (d + of_nat k) + of_nat (x - k)" using x(1) by (simp add: of_nat_diff)
      then have "(of_nat (x - k) :: u32) = of_nat z" using z(1) by simp
      moreover have "x - k < 2 ^ 32" using x(2) by simp
      ultimately have "x - k = z" using z(2) of_nat32_eq by metis
      with xk False show False by simp
    qed
    ultimately show ?thesis
      using moved_to_at [OF x(2), of k d s m] moved_to_at [OF x(2), of "k + c" d s m] x(1) assms(2) len by auto
  qed
qed

lemma copy_word_moved: "copy_word d s m = moved_to d s 4 m"
proof
  fix a
  obtain x where x: "a = d + of_nat x" "x < 2 ^ 32" using addr_cases by blast
  have ne: "d + of_nat x = d + of_nat j \<longleftrightarrow> x = j" if "j < 4" for j
    using x(2) that of_nat32_eq [of x j] by simp
  have e: "d + of_nat x = d \<longleftrightarrow> x = 0" "d + of_nat x = d + 1 \<longleftrightarrow> x = 1" "d + of_nat x = d + 2 \<longleftrightarrow> x = 2"
    "d + of_nat x = d + 3 \<longleftrightarrow> x = 3"
    using ne [of 0] ne [of 1] ne [of 2] ne [of 3] by simp_all
  have "copy_word d s m a = (if x = 3 then m (s + 3) else if x = 2 then m (s + 2) else if x = 1 then m (s + 1)
      else if x = 0 then m s else m a)"
    unfolding copy_word_def fun_upd_apply x(1) e by (rule refl)
  moreover have "moved_to d s 4 m a = (if x < 4 then m (s + of_nat x) else m a)"
    using moved_to_at [OF x(2), of 4 d s m] x(1) by simp
  moreover have "x < 4 \<longleftrightarrow> x = 0 \<or> x = 1 \<or> x = 2 \<or> x = 3" by presburger
  ultimately show "copy_word d s m a = moved_to d s 4 m a" by (auto split: if_splits)
qed

lemma copy_byte_moved: "m(d := m s) = moved_to d s 1 m"
proof
  fix a
  obtain x where x: "a = d + of_nat x" "x < 2 ^ 32" using addr_cases by blast
  have "d + of_nat x = d + of_nat 0 \<longleftrightarrow> x = 0"
    using x(2) of_nat32_eq [of x 0] by simp
  then show "(m(d := m s)) a = moved_to d s 1 m a"
    using moved_to_at [OF x(2), of 1 d s m] x(1) by auto
qed

text \<open>The state of a forward copy after \<open>k\<close> bytes.\<close>

definition copied :: "u32 \<Rightarrow> u32 \<Rightarrow> memory \<Rightarrow> nat \<Rightarrow> u32 \<times> u32 \<times> memory" where
  "copied d s m k = (d + of_nat k, s + of_nat k, moved_to d s k m)"

lemma copy_words_copied:
  "forward_ok d s len \<Longrightarrow> k + 4 * n \<le> len \<Longrightarrow> copy_words n (copied d s m k) = copied d s m (k + 4 * n)"
proof (induction n arbitrary: k)
  case (Suc n)
  have "copy_words (Suc n) (copied d s m k) = copy_words n (copied d s m (k + 4))"
    using forward_step [OF Suc.prems(1), of k 4 m] Suc.prems(2)
    by (simp add: copied_def copy_word_moved add.assoc)
  also have "\<dots> = copied d s m (k + 4 + 4 * n)" using Suc by (intro Suc.IH) simp_all
  finally show ?case by (simp add: add.assoc)
qed simp

lemma full_rounds_copied:
  "forward_ok d s len \<Longrightarrow> k + 64 * n \<le> len \<Longrightarrow> full_rounds n (copied d s m k) = copied d s m (k + 64 * n)"
proof (induction n arbitrary: k)
  case (Suc n)
  have "full_rounds (Suc n) (copied d s m k) = full_rounds n (copied d s m (k + 64))"
    using copy_words_copied [OF Suc.prems(1), of k 16 m] Suc.prems(2) by simp
  also have "\<dots> = copied d s m (k + 64 + 64 * n)" using Suc by (intro Suc.IH) simp_all
  finally show ?case by (simp add: add.assoc)
qed simp

lemma copy_bytes_copied:
  "forward_ok d s len \<Longrightarrow> k + n \<le> len \<Longrightarrow> copy_bytes n (copied d s m k) = copied d s m (k + n)"
proof (induction n arbitrary: k)
  case (Suc n)
  have "copy_bytes (Suc n) (copied d s m k) = copy_bytes n (copied d s m (k + 1))"
    using forward_step [OF Suc.prems(1), of k 1 m] Suc.prems(2)
    by (simp add: copied_def copy_byte_moved add_ac del: fun_upd_apply)
  also have "\<dots> = copied d s m (k + 1 + n)" using Suc by (intro Suc.IH) simp_all
  finally show ?case by (simp add: add.assoc)
qed simp

lemma rounds_of_16:
  assumes "0 < (w::nat)"
  shows "(if w mod 16 = 0 then 16 else w mod 16) + 16 * ((w + 15) div 16 - 1) = w"
proof -
  have d: "w = 16 * (w div 16) + w mod 16" by simp
  show ?thesis
  proof (cases "w mod 16 = 0")
    case True
    then have w: "w = 16 * (w div 16)" using d by simp
    have "(16 * (w div 16) + 15) div 16 = w div 16" by simp
    then have "(w + 15) div 16 = w div 16" using w by argo
    then show ?thesis using True w assms by auto
  next
    case False
    have "(w + 15) div 16 = w div 16 + 1" using False by (simp add: div_add1_eq [of w 15] mod_less_divisor)
    then show ?thesis using False d by simp
  qed
qed

lemma duff_copy_copied:
  assumes "forward_ok d s len" and "0 < w" and "4 * w \<le> len"
  shows "duff_copy w (copied d s m 0) = copied d s m (4 * w)"
proof -
  define f where "f = (if w mod 16 = 0 then 16 else w mod 16)"
  have n: "f + 16 * ((w + 15) div 16 - 1) = w" unfolding f_def by (rule rounds_of_16 [OF assms(2)])
  then have le: "4 * f + 64 * ((w + 15) div 16 - 1) \<le> len" using assms(3) by linarith
  have "duff_copy w (copied d s m 0) = full_rounds ((w + 15) div 16 - 1) (copied d s m (4 * f))"
    using copy_words_copied [OF assms(1), of 0 f m] le by (simp add: duff_copy_def f_def [symmetric] Let_def)
  also have "\<dots> = copied d s m (4 * f + 64 * ((w + 15) div 16 - 1))"
    by (rule full_rounds_copied [OF assms(1) le])
  also have "4 * f + 64 * ((w + 15) div 16 - 1) = 4 * w" using n by linarith
  finally show ?thesis .
qed

lemma copied_start: "(d, s, m) = copied d s m 0"
  by (simp add: copied_def moved_to_def mem_move_def fun_eq_iff)

lemma memcpy_moved:
  assumes "forward_ok d s len"
  shows "memcpy d s len m = moved_to d s len m"
proof (cases "len \<ge> 4 \<and> s AND 3 = 0 \<and> d AND 3 = 0")
  case True
  have "duff_copy (len div 4) (d, s, m) = copied d s m (4 * (len div 4))"
    unfolding copied_start [of d s m] using True by (intro duff_copy_copied [OF assms]) (simp_all add: div_greater_zero_iff)
  moreover have "copy_bytes (len mod 4) (copied d s m (4 * (len div 4))) = copied d s m len"
    using copy_bytes_copied [OF assms, of "4 * (len div 4)" "len mod 4" m] by simp
  ultimately show ?thesis using True by (simp add: memcpy_def copied_def)
next
  case False
  have "copy_bytes len (d, s, m) = copied d s m len"
    unfolding copied_start [of d s m] using copy_bytes_copied [OF assms, of 0 len m] by simp
  moreover have "memcpy d s len m = snd (snd (copy_bytes len (d, s, m)))"
    using False by (auto simp: memcpy_def)
  ultimately show ?thesis by (simp add: copied_def)
qed

subsection \<open>Backward copies\<close>

text \<open>The bytes from \<open>n\<close> on are there.\<close>

lemma copy_back_at:
  assumes "d \<ge> s" and "unat s + len < 2 ^ 32" and "unat d + len < 2 ^ 32" and "n \<le> len" and "x < 2 ^ 32"
    and "\<And>x. x < 2 ^ 32 \<Longrightarrow> M (d + of_nat x) = (if n \<le> x \<and> x < len then m (s + of_nat x) else m (d + of_nat x))"
  shows "copy_back d s n M (d + of_nat x) = (if x < len then m (s + of_nat x) else m (d + of_nat x))"
  using assms(4-6)
proof (induction n arbitrary: M x)
  case (Suc n)
  have len: "n < len" using Suc.prems(1) by simp
  obtain y where y: "s + of_nat n = d + of_nat y" "y < 2 ^ 32" using addr_cases by blast
  have "\<not> (Suc n \<le> y \<and> y < len)"
  proof
    assume a: "Suc n \<le> y \<and> y < len"
    have "unat (s + of_nat n) = unat s + n" using assms(2) len by (intro unat_offset) simp
    moreover have "unat (d + of_nat y) = unat d + y" using assms(3) a by (intro unat_offset) simp
    ultimately have "unat s + n = unat d + y" using y(1) by simp
    then show False using a assms(1) by (simp add: word_le_nat_alt)
  qed
  then have r: "M (s + of_nat n) = m (s + of_nat n)" using Suc.prems(3) [OF y(2)] y(1) by auto
  have "(M(d + of_nat n := M (s + of_nat n))) (d + of_nat x) =
      (if n \<le> x \<and> x < len then m (s + of_nat x) else m (d + of_nat x))" if "x < 2 ^ 32" for x
  proof -
    have "n < 2 ^ 32" using len assms(2) by simp
    then have "d + of_nat x = d + of_nat n \<longleftrightarrow> x = n" using that of_nat32_eq [of x n] by simp
    then show ?thesis using Suc.prems(3) [OF that] r len by auto
  qed
  with Suc.IH Suc.prems(1,2) show ?case by simp
qed simp

lemma memmove_moved:
  assumes "unat s + len < 2 ^ 32" and "unat d + len < 2 ^ 32"
  shows "memmove d s len m = moved_to d s len m"
proof (cases "s < d \<and> s + of_nat len > d")
  case True
  show ?thesis
  proof
    fix a
    obtain x where x: "a = d + of_nat x" "x < 2 ^ 32" using addr_cases by blast
    have len: "len < 2 ^ 32" using assms by simp
    have "copy_back d s len m (d + of_nat x) = (if x < len then m (s + of_nat x) else m (d + of_nat x))"
      using True assms x(2) by (intro copy_back_at) auto
    then show "memmove d s len m a = moved_to d s len m a"
      using True moved_to_at [OF x(2) len] by (simp add: memmove_def x(1))
  qed
next
  case False
  have "unat (s + of_nat len) = unat s + len" using assms(1) by (rule unat_offset)
  then have "forward_ok d s len" using False assms by (auto simp: forward_ok_def word_less_nat_alt word_le_nat_alt)
  with False show ?thesis by (auto simp: memmove_def memcpy_moved)
qed

subsection \<open>Properties\<close>

text \<open>C33: \<open>memmove\<close> gives the destination the bytes the source held before the call and changes
  nothing else, however the two blocks overlap and are aligned, for blocks that do not reach the
  end of the address space.\<close>

theorem memmove_is_block_move:
  assumes "unat s + len < 2 ^ 32" and "unat d + len < 2 ^ 32"
  shows "memmove d s len m = mem_move d s (of_nat len) m"
  using memmove_moved [OF assms] by (simp add: moved_to_def)

lemma memmove_is_block_move_witness:
  "\<forall>m. memmove 0x1004 0x1000 100 m = mem_move 0x1004 0x1000 100 m \<and> memmove 0x1000 0x1004 100 m = mem_move 0x1000 0x1004 100 m"
  using memmove_is_block_move [where s = "0x1000" and len = 100 and d = "0x1004"]
    memmove_is_block_move [where s = "0x1004" and len = 100 and d = "0x1000"] by simp

end
