(* ===== verification/Hwinfo.thy ===== *)
theory Hwinfo
  imports AddrSpace
begin

section \<open>The hardware information section: operations\<close>

text \<open>
  \<open>startup/lib/hwi_*.c\<close>, \<open>hwidev_*.c\<close>, \<open>hwibus_*.c\<close> and
  \<open>hwitag_*.c\<close>: the section \<open>lsp.hwinfo\<close> of the system page is a sequence of tags.
  Every tag starts with a \<open>hwi_prefix\<close> (its size in four-byte words, the offset of its name in
  the string section). The tags that start an item (\<open>hwi_item\<close>: groups, buses, devices,
  synonyms) also hold the number of words of the whole item, its name, the offset of the item that
  owns it and the number of items it owns. The section is the raw bytes; structures are written
  field by field at the offsets of \<open>prebuilt/usr/include/hw/sysinfo.h\<close>. What the code gets
  from libc and libdrvr (\<open>hwi_find_item\<close>, \<open>hwi_tag_find\<close>, \<open>hwi_tag2off\<close> and
  others) is a parameter, the record \<open>hwi_lib\<close>. Debug output is left out.
\<close>

subsection \<open>A state and error monad over the system page\<close>

type_synonym 'a hw = "lsp \<Rightarrow> ('a \<times> lsp) res"

definition hret :: "'a \<Rightarrow> 'a hw" where
  "hret x s = Inr (x, s)"

definition hbind :: "'a hw \<Rightarrow> ('a \<Rightarrow> 'b hw) \<Rightarrow> 'b hw" where
  "hbind m f s = (case m s of Inl e \<Rightarrow> Inl e | Inr (x, s1) \<Rightarrow> f x s1)"

definition hthen :: "unit hw \<Rightarrow> 'b hw \<Rightarrow> 'b hw" where
  "hthen m f = hbind m (\<lambda>_. f)"

definition hassert :: "bool \<Rightarrow> unit hw" where
  "hassert b s = (if b then Inr ((), s) else Inl ''ASSERT failed'')"

fun for_each :: "'x list \<Rightarrow> ('x \<Rightarrow> unit hw) \<Rightarrow> unit hw" where
  "for_each [] f = hret ()"
| "for_each (x # xs) f = hthen (f x) (for_each xs f)"

abbreviation times :: "u32 \<Rightarrow> unit hw \<Rightarrow> unit hw" where
  "times n m \<equiv> for_each [0..<unat n] (\<lambda>_. m)"

definition upd_lsp :: "(lsp \<Rightarrow> lsp) \<Rightarrow> unit hw" where
  "upd_lsp g s = Inr ((), g s)"

lemma hw_monad_simps [simp]:
  "hret x s = Inr (x, s)"
  "hbind (hret x) f = f x"
  "hthen (hret ()) m = m"
  "upd_lsp g s = Inr ((), g s)"
  by (simp_all add: hret_def hbind_def hthen_def upd_lsp_def fun_eq_iff)

lemma hbind_Inr: "hbind m f s = Inr r \<longleftrightarrow> (\<exists>x s1. m s = Inr (x, s1) \<and> f x s1 = Inr r)"
  by (auto simp: hbind_def split: sum.splits)

lemma hthen_Inr: "hthen m f s = Inr r \<longleftrightarrow> (\<exists>s1. m s = Inr ((), s1) \<and> f s1 = Inr r)"
  by (auto simp: hthen_def hbind_Inr)

subsection \<open>Bytes of the section\<close>

definition le_bytes :: "nat \<Rightarrow> 'a::len word \<Rightarrow> u8 list" where
  "le_bytes n v = map (\<lambda>i. ucast (drop_bit (8 * i) v)) [0..<n]"

abbreviation le16 :: "u16 \<Rightarrow> u8 list" where "le16 \<equiv> le_bytes 2"
abbreviation le32l :: "u32 \<Rightarrow> u8 list" where "le32l \<equiv> le_bytes 4"
abbreviation le64l :: "u64 \<Rightarrow> u8 list" where "le64l \<equiv> le_bytes 8"

definition get_le :: "nat \<Rightarrow> nat \<Rightarrow> u8 list \<Rightarrow> 'a::len word" where
  "get_le n at xs = fold (\<lambda>i v. v OR push_bit (8 * i) (ucast (xs ! (at + i)))) [0..<n] 0"

definition put_at :: "nat \<Rightarrow> 'b list \<Rightarrow> 'b list \<Rightarrow> 'b list" where
  "put_at at bs xs = take at xs @ bs @ drop (at + length bs) xs"

definition poke :: "nat \<Rightarrow> u8 list \<Rightarrow> unit hw" where
  "poke at bs s =
     (if at + length bs \<le> length (sp_hwinfo s)
      then Inr ((), s\<lparr>sp_hwinfo := put_at at bs (sp_hwinfo s)\<rparr>)
      else Inl ''write past the hwinfo section'')"

definition peek :: "nat \<Rightarrow> nat \<Rightarrow> 'a::len word hw" where
  "peek n at s =
     (if at + n \<le> length (sp_hwinfo s) then Inr (get_le n at (sp_hwinfo s), s)
      else Inl ''read past the hwinfo section'')"

fun set_fields :: "nat \<Rightarrow> (nat \<times> u8 list) list \<Rightarrow> unit hw" where
  "set_fields t [] = hret ()"
| "set_fields t ((off, bs) # fs) = hthen (poke (t + off) bs) (set_fields t fs)"

definition add16 :: "nat \<Rightarrow> u16 \<Rightarrow> unit hw" where
  "add16 at d = hbind (peek 2 at) (\<lambda>v. poke at (le16 (v + d)))"

subsection \<open>Tag kinds\<close>

text \<open>\<open>HWI_TAG_INFO(type)\<close>: name, size and alignment of a tag structure.\<close>

record tag_info =
  ti_name :: string
  ti_size :: u32
  ti_align :: u32

definition tag_info_of :: "string \<Rightarrow> u32 \<Rightarrow> u32 \<Rightarrow> tag_info" where
  "tag_info_of n sz al = \<lparr>ti_name = n, ti_size = sz, ti_align = al\<rparr>"

definition TAG_group :: tag_info where "TAG_group = tag_info_of ''Group'' 12 4"
definition TAG_bus :: tag_info where "TAG_bus = tag_info_of ''Bus'' 12 4"
definition TAG_device :: tag_info where "TAG_device = tag_info_of ''Device'' 16 4"
definition TAG_synonym :: tag_info where "TAG_synonym = tag_info_of ''Synonym'' 16 4"
definition TAG_location :: tag_info where "TAG_location = tag_info_of ''location'' 24 8"
definition TAG_irq :: tag_info where "TAG_irq = tag_info_of ''irq'' 8 4"
definition TAG_irqrange :: tag_info where "TAG_irqrange = tag_info_of ''irqrange'' 12 4"
definition TAG_regname :: tag_info where "TAG_regname = tag_info_of ''regname'' 8 4"
definition TAG_inputclk :: tag_info where "TAG_inputclk = tag_info_of ''inputclk'' 12 4"
definition TAG_nicphyaddr :: tag_info where "TAG_nicphyaddr = tag_info_of ''nicphyaddr'' 8 4"
definition TAG_busattr :: tag_info where "TAG_busattr = tag_info_of ''busattr'' 32 8"
definition TAG_optstr :: tag_info where "TAG_optstr = tag_info_of ''optstr'' 8 4"
definition TAG_dll :: tag_info where "TAG_dll = tag_info_of ''drvr_dll'' 8 4"
definition TAG_errata :: tag_info where "TAG_errata = tag_info_of ''errata'' 8 4"
definition TAG_nanospin :: tag_info where "TAG_nanospin = tag_info_of ''nanospin'' 12 4"
definition TAG_pad :: tag_info where "TAG_pad = tag_info_of ''pad'' 4 4"

text \<open>\<open>HWI_TAG_NAME_nicaddr\<close> is allocated with the size of its address bytes.\<close>

definition TAG_nicaddr :: "u32 \<Rightarrow> tag_info" where
  "TAG_nicaddr sz = tag_info_of ''nicaddr'' sz 4"

lemmas tag_kinds = tag_info_of_def TAG_group_def TAG_bus_def TAG_device_def TAG_synonym_def
  TAG_location_def TAG_irq_def TAG_irqrange_def TAG_regname_def TAG_inputclk_def
  TAG_nicphyaddr_def TAG_busattr_def TAG_optstr_def TAG_dll_def TAG_errata_def TAG_nanospin_def
  TAG_pad_def TAG_nicaddr_def

definition HWI_NULL_OFF :: u32 where "HWI_NULL_OFF = 0xFFFF"
definition HWI_ILLEGAL_VECTOR :: u32 where "HWI_ILLEGAL_VECTOR = - 1"

text \<open>
  The functions of libc and libdrvr the code calls, and the offset the address space section
  gives an entry (\<open>AS_NULL_OFF\<close> for none). A tag's address is its place in the section.
\<close>

record hwi_lib =
  hwi_find_item :: "u32 \<Rightarrow> string list \<Rightarrow> lsp \<Rightarrow> u32"
  hwi_find_unit :: "u32 \<Rightarrow> lsp \<Rightarrow> int"
  hwi_find_device :: "string \<Rightarrow> u32 \<Rightarrow> lsp \<Rightarrow> u32"
  hwi_tag_find :: "u32 \<Rightarrow> string \<Rightarrow> u32 \<Rightarrow> lsp \<Rightarrow> (nat \<times> u32) option"
  hwi_tag2off :: "nat \<Rightarrow> u32"
  hwi_off2tag :: "u32 \<Rightarrow> nat"
  as_entry2off :: "nat option \<Rightarrow> u32"

subsection \<open>hwi_alloc.c\<close>

definition grow_hwinfo :: "u32 \<Rightarrow> unit hw" where
  "grow_hwinfo n s = bind_res (grow_budget n s)
     (\<lambda>s1. Inr ((), s1\<lparr>sp_hwinfo := sp_hwinfo s1 @ replicate (unat (ROUND n 8)) 0\<rparr>))"

text \<open>
  \<open>hwi_alloc_tag\<close> aligns the section first, and \<open>align_tag\<close> calls
  \<open>hwi_alloc_tag\<close> for the padding. The recursion is bounded by a depth; two levels are all
  that an aligned section needs, and on a misaligned one no depth is enough
  (\<open>alloc_tag_depth\<close>).
\<close>

definition align_with :: "(tag_info \<Rightarrow> nat hw) \<Rightarrow> u32 \<Rightarrow> unit hw" where
  "align_with alloc align s =
     (let grow = ROUND (hwi_offset s) align - hwi_offset s
      in if grow \<noteq> 0 then hbind (alloc TAG_pad) (\<lambda>_. hret ()) s else Inr ((), s))"

definition append_tag :: "tag_info \<Rightarrow> nat hw" where
  "append_tag ti =
     hbind (add_string (ti_name ti)) (\<lambda>name_off.
     hthen (grow_hwinfo (ti_size ti))
       (\<lambda>s. let tag = unat (hwi_offset s); words = ucast (ti_size ti div 4)
            in hthen (add16 (unat (hwi_last_item s) + 4) words)
              (hthen (set_fields tag [(0, le16 words), (2, le16 (of_nat name_off))])
              (hthen (upd_lsp (\<lambda>s. s\<lparr>hwi_offset := hwi_offset s + ti_size ti\<rparr>))
              (hret tag))) s))"

fun alloc_tag_n :: "nat \<Rightarrow> tag_info \<Rightarrow> nat hw" where
  "alloc_tag_n 0 ti s = Inl ''stack overflow''"
| "alloc_tag_n (Suc k) ti s = hthen (align_with (alloc_tag_n k) (ti_align ti)) (append_tag ti) s"

definition hwi_alloc_tag :: "tag_info \<Rightarrow> nat hw" where
  "hwi_alloc_tag = alloc_tag_n 2"

definition align_tag :: "u32 \<Rightarrow> unit hw" where
  "align_tag = align_with hwi_alloc_tag"

definition hwi_alloc_item :: "hwi_lib \<Rightarrow> tag_info \<Rightarrow> string \<Rightarrow> u32 \<Rightarrow> nat hw" where
  "hwi_alloc_item lib ti itemname owner =
     hbind (add_string itemname) (\<lambda>saved_in.
     hthen (align_tag (ti_align ti))
     (hthen (upd_lsp (\<lambda>s. s\<lparr>hwi_last_item := hwi_offset s\<rparr>))
     (hbind (hwi_alloc_tag ti) (\<lambda>tag.
      hthen (set_fields tag [(6, le16 (of_nat saved_in)), (8, le16 (ucast owner))])
     (hthen (if owner \<noteq> HWI_NULL_OFF then add16 (hwi_off2tag lib owner + 10) 1 else hret ())
     (hret tag))))))"

text \<open>
  The parameter of \<open>hwi_grow_tag\<close> hides the file's \<open>offset\<close>: the last line adds to
  the parameter, and the next tag is placed where the grown tag ends.
\<close>

definition hwi_grow_tag :: "u32 \<Rightarrow> u32 \<Rightarrow> nat hw" where
  "hwi_grow_tag offset sz =
     hthen (grow_hwinfo sz)
       (\<lambda>s. hthen (add16 (unat (hwi_last_item s) + 4) (ucast (sz div 4)))
         (hthen (add16 (unat offset) (ucast (sz div 4))) (hret (unat offset))) s)"

subsection \<open>Queries\<close>

definition hget :: "(lsp \<Rightarrow> 'a) \<Rightarrow> 'a hw" where
  "hget q s = Inr (q s, s)"

definition hwi_find_as :: "hwi_lib \<Rightarrow> u32 \<Rightarrow> bool \<Rightarrow> u32 hw" where
  "hwi_find_as lib base mmap s =
     bind_res (as_find_containing None base (base + 1) (if mmap then ''memory'' else ''io'') s)
       (\<lambda>r. Inr (as_entry2off lib r, s))"

subsection \<open>hwitag_add_*.c: tags of the last item\<close>

definition add_tag :: "tag_info \<Rightarrow> (nat \<times> u8 list) list \<Rightarrow> unit hw" where
  "add_tag ti fs = hbind (hwi_alloc_tag ti) (\<lambda>tag. set_fields tag fs)"

definition hwitag_add_location :: "u32 \<Rightarrow> u32 \<Rightarrow> u32 \<Rightarrow> u32 \<Rightarrow> unit hw" where
  "hwitag_add_location base len reg_shift addr_space = add_tag TAG_location
     [(8, le64l (ucast base)), (4, le32l len), (16, le16 (ucast reg_shift)), (18, le16 (ucast addr_space))]"

definition hwitag_add_irq :: "u32 \<Rightarrow> unit hw" where
  "hwitag_add_irq vector = add_tag TAG_irq [(4, le32l vector)]"

definition hwitag_add_irqrange :: "u32 \<Rightarrow> u32 \<Rightarrow> unit hw" where
  "hwitag_add_irqrange start_vector num =
     add_tag TAG_irqrange [(4, le32l start_vector), (8, le16 (ucast num))]"

definition hwitag_add_inputclk :: "u32 \<Rightarrow> u32 \<Rightarrow> unit hw" where
  "hwitag_add_inputclk clk dv = add_tag TAG_inputclk [(4, le32l clk), (8, le32l dv)]"

definition hwitag_add_nicphyaddr :: "u32 \<Rightarrow> unit hw" where
  "hwitag_add_nicphyaddr addr = add_tag TAG_nicphyaddr [(4, le32l addr)]"

definition hwitag_add_nicaddr :: "u8 list \<Rightarrow> u32 \<Rightarrow> unit hw" where
  "hwitag_add_nicaddr addr len =
     hbind (hwi_alloc_tag (TAG_nicaddr (ROUND (8 + len) 4))) (\<lambda>tag.
     hthen (set_fields tag [(4, le32l len)])
       (if unat len \<le> length addr then poke (tag + 8) (take (unat len) addr)
        else (\<lambda>_. Inl ''read past the address'')))"

definition hwitag_add_regname :: "string \<Rightarrow> u32 \<Rightarrow> unit hw" where
  "hwitag_add_regname name regoffset =
     hbind (add_string name) (\<lambda>idx.
       add_tag TAG_regname [(4, le16 (of_nat idx)), (6, le16 (ucast regoffset))])"

record hwi_busattr =
  ba_flags :: u32
  ba_addr :: u64
  ba_speed :: u32
  ba_width :: u16
  ba_spare :: u16
  ba_size :: u64

definition hwitag_add_busattr :: "hwi_busattr option \<Rightarrow> unit hw" where
  "hwitag_add_busattr attr = add_tag TAG_busattr
     [(16, le32l (case attr of Some a \<Rightarrow> ba_speed a | None \<Rightarrow> 0)),
      (20, le16 (case attr of Some a \<Rightarrow> ba_width a | None \<Rightarrow> 0)),
      (8, le64l (case attr of Some a \<Rightarrow> ba_addr a | None \<Rightarrow> 0)),
      (4, le32l (case attr of Some a \<Rightarrow> ba_flags a | None \<Rightarrow> 0))]"

definition hwitag_add_errata :: "u32 \<Rightarrow> unit hw" where
  "hwitag_add_errata errata_num = add_tag TAG_errata [(4, le32l errata_num)]"

definition hwitag_add_dll :: "string \<Rightarrow> unit hw" where
  "hwitag_add_dll dll =
     hbind (add_string dll) (\<lambda>idx. add_tag TAG_dll [(4, le32l (of_nat idx))])"

definition hwitag_add_optstr :: "string \<Rightarrow> unit hw" where
  "hwitag_add_optstr str =
     hbind (add_string str) (\<lambda>idx. add_tag TAG_optstr [(4, le32l (of_nat idx))])"

record hwiattr_common =
  loc_base :: u64
  loc_len :: u32
  loc_regshift :: u16
  loc_addrspace :: u16
  at_dll :: "string option"
  at_optstr :: "string option"
  at_num_irq :: u32
  at_num_errata :: u32

definition hwitag_add_common :: "hwiattr_common \<Rightarrow> unit hw" where
  "hwitag_add_common attr =
     hthen (hwitag_add_location (ucast (loc_base attr)) (loc_len attr) (ucast (loc_regshift attr)) (ucast (loc_addrspace attr)))
    (hthen (times (at_num_irq attr) (hwitag_add_irq HWI_ILLEGAL_VECTOR))
    (hthen (case at_dll attr of Some d \<Rightarrow> hwitag_add_dll d | None \<Rightarrow> hret ())
    (hthen (case at_optstr attr of Some d \<Rightarrow> hwitag_add_optstr d | None \<Rightarrow> hret ())
           (times (at_num_errata attr) (hwitag_add_errata 0)))))"

subsection \<open>hwi_add_*.c and hwi_default.c\<close>

definition hwi_default :: "hwi_lib \<Rightarrow> unit hw" where
  "hwi_default lib =
     hbind (hwi_alloc_item lib TAG_group ''hw'' HWI_NULL_OFF) (\<lambda>tag.
     hbind (hwi_alloc_item lib TAG_bus ''unknown'' (hwi_tag2off lib tag)) (\<lambda>_. hret ()))"

definition hwi_add_device :: "hwi_lib \<Rightarrow> string \<Rightarrow> string \<Rightarrow> string \<Rightarrow> u32 \<Rightarrow> unit hw" where
  "hwi_add_device lib bname cname dname pnp =
     hbind (hget (hwi_find_item lib HWI_NULL_OFF [bname])) (\<lambda>bus0.
     hbind (if bus0 = HWI_NULL_OFF
            then hbind (hget (hwi_find_item lib HWI_NULL_OFF [''hw''])) (\<lambda>off.
                 hbind (hwi_alloc_item lib TAG_bus bname off) (\<lambda>tag. hret (hwi_tag2off lib tag)))
            else hret bus0) (\<lambda>bus.
     hbind (hget (hwi_find_item lib HWI_NULL_OFF [bname, cname])) (\<lambda>class0.
     hbind (if class0 = HWI_NULL_OFF
            then hbind (hwi_alloc_item lib TAG_group cname bus) (\<lambda>tag. hret (hwi_tag2off lib tag))
            else hret class0) (\<lambda>cls.
     hbind (hwi_alloc_item lib TAG_device dname cls) (\<lambda>tag. set_fields tag [(12, le32l pnp)])))))"

definition hwi_add_location :: "u32 \<Rightarrow> u32 \<Rightarrow> u32 \<Rightarrow> u32 \<Rightarrow> unit hw" where
  "hwi_add_location base len reg_shift addr_space = hwitag_add_location base len reg_shift addr_space"

definition hwi_add_irq :: "u32 \<Rightarrow> unit hw" where
  "hwi_add_irq vector = hwitag_add_irq vector"

definition hwi_add_inputclk :: "u32 \<Rightarrow> u32 \<Rightarrow> unit hw" where
  "hwi_add_inputclk clk dv = hwitag_add_inputclk clk dv"

definition hwi_add_nicaddr :: "u8 list \<Rightarrow> u32 \<Rightarrow> unit hw" where
  "hwi_add_nicaddr addr len = hwitag_add_nicaddr addr len"

definition hwi_add_nicphyaddr :: "u32 \<Rightarrow> unit hw" where
  "hwi_add_nicphyaddr addr = hwitag_add_nicphyaddr addr"

definition hwi_add_rtc :: "hwi_lib \<Rightarrow> string \<Rightarrow> u32 \<Rightarrow> u32 \<Rightarrow> u32 \<Rightarrow> bool \<Rightarrow> u32 \<Rightarrow> unit hw" where
  "hwi_add_rtc lib name base reg_shift len mmap cent_reg =
     hthen (hwi_add_device lib ''unknown'' ''rtc'' name 0)
    (hthen (hbind (hwi_find_as lib base mmap)
              (\<lambda>as. hwi_add_location base (push_bit (unat reg_shift) len) reg_shift as))
       (if cent_reg \<noteq> - 1
        then add_tag TAG_regname [(4, le16 0), (6, le16 (ucast cent_reg))]
        else hret ()))"

definition hwi_add_nanospin :: "hwi_lib \<Rightarrow> u32 \<Rightarrow> u32 \<Rightarrow> unit hw" where
  "hwi_add_nanospin lib hundred_loop_time overhead =
     hthen (hwi_add_device lib ''unknown'' ''misc'' ''nanospin_calibrate'' 0)
       (add_tag TAG_nanospin [(4, le32l hundred_loop_time), (8, le32l overhead)])"

definition hwi_add_synonym :: "hwi_lib \<Rightarrow> u32 \<Rightarrow> string \<Rightarrow> u32 hw" where
  "hwi_add_synonym lib hwi_off synonym_name =
     hbind (hget (hwi_find_item lib HWI_NULL_OFF [''hw''])) (\<lambda>owner.
       if hwi_off = HWI_NULL_OFF \<or> owner = HWI_NULL_OFF then hret HWI_NULL_OFF
       else hbind (hwi_alloc_item lib TAG_synonym synonym_name owner) (\<lambda>tag.
            hthen (set_fields tag [(12, le32l hwi_off)]) (hret (hwi_tag2off lib tag))))"

subsection \<open>hwidev_*.c and hwibus_*.c: devices and buses with their tags\<close>

definition hwidev_add :: "hwi_lib \<Rightarrow> string \<Rightarrow> u32 \<Rightarrow> u32 \<Rightarrow> u32 hw" where
  "hwidev_add lib device_name pnp bus_hwi_off =
     hbind (if bus_hwi_off \<noteq> HWI_NULL_OFF then hret bus_hwi_off
            else hget (hwi_find_item lib HWI_NULL_OFF [''hw'', ''unknown''])) (\<lambda>bus.
       if bus \<noteq> HWI_NULL_OFF
       then hbind (hwi_alloc_item lib TAG_device device_name bus) (\<lambda>tag.
            hthen (set_fields tag [(12, le32l pnp)]) (hret (hwi_tag2off lib tag)))
       else hret HWI_NULL_OFF)"

definition hwibus_add :: "hwi_lib \<Rightarrow> string \<Rightarrow> u32 \<Rightarrow> u32 hw" where
  "hwibus_add lib bus_name parent_hwi_off =
     hbind (if parent_hwi_off \<noteq> HWI_NULL_OFF then hret parent_hwi_off
            else hget (hwi_find_item lib HWI_NULL_OFF [''hw''])) (\<lambda>parent.
       if parent \<noteq> HWI_NULL_OFF
       then hbind (hwi_alloc_item lib TAG_bus bus_name parent) (\<lambda>tag. hret (hwi_tag2off lib tag))
       else hret HWI_NULL_OFF)"

definition HWIATTR_COMMON_INITIALIZER :: hwiattr_common where
  "HWIATTR_COMMON_INITIALIZER = \<lparr>loc_base = 0, loc_len = 0, loc_regshift = 0, loc_addrspace = 0,
     at_dll = None, at_optstr = None, at_num_irq = 0, at_num_errata = 0\<rparr>"

definition HWIATTR_SET_LOCATION :: "u32 \<Rightarrow> u32 \<Rightarrow> u32 \<Rightarrow> u32 \<Rightarrow> hwiattr_common \<Rightarrow> hwiattr_common" where
  "HWIATTR_SET_LOCATION base len rs as a =
     a\<lparr>loc_base := ucast base, loc_len := len, loc_regshift := ucast rs, loc_addrspace := ucast as\<rparr>"

definition HWIATTR_SET_NUM_IRQ :: "u32 \<Rightarrow> hwiattr_common \<Rightarrow> hwiattr_common" where
  "HWIATTR_SET_NUM_IRQ n a = a\<lparr>at_num_irq := n\<rparr>"

record hwiattr_uart =
  uart_common :: hwiattr_common
  uart_num_clks :: u32

record hwiattr_enet =
  enet_common :: hwiattr_common
  enet_mac :: "u8 list"
  enet_num_clks :: u32
  enet_num_phys :: u32

record hwiattr_rtc =
  rtc_common :: hwiattr_common
  centreg_name :: "string option"
  centreg_offset :: u16

record hwiattr_timer =
  timer_common :: hwiattr_common
  timer_num_clks :: u32

record hwiattr_i2c =
  i2c_common :: hwiattr_common
  i2c_num_clks :: u32
  i2c_num_busattr :: u32

record hwiattr_spi =
  spi_common :: hwiattr_common
  spi_num_clks :: u32
  spi_num_busattr :: u32

record hwiattr_pci =
  pci_common :: hwiattr_common
  pci_num_irqblks :: u32
  pci_num_busattr :: u32

record hwiattr_can =
  can_common :: hwiattr_common
  can_num_clks :: u32
  can_num_memaddr :: u32

text \<open>\<open>hwiattr_dma_t\<close> and \<open>hwiattr_usb_t\<close> hold the common attributes only.\<close>

text \<open>
  Every function of this group adds the device or bus and, where that worked and attributes were
  given, the tags of its kind.
\<close>

definition with_attr :: "u32 hw \<Rightarrow> 'a option \<Rightarrow> ('a \<Rightarrow> unit hw) \<Rightarrow> u32 hw" where
  "with_attr add attr tags = hbind add (\<lambda>off.
     case attr of Some a \<Rightarrow> if off \<noteq> HWI_NULL_OFF then hthen (tags a) (hret off) else hret off
                | None \<Rightarrow> hret off)"

definition uart_tags :: "hwiattr_uart \<Rightarrow> unit hw" where
  "uart_tags a = hthen (hwitag_add_common (uart_common a)) (times (uart_num_clks a) (hwitag_add_inputclk 0 1))"

definition hwidev_add_uart :: "hwi_lib \<Rightarrow> string \<Rightarrow> hwiattr_uart option \<Rightarrow> u32 \<Rightarrow> u32 hw" where
  "hwidev_add_uart lib name attr bus = with_attr (hwidev_add lib name 1 bus) attr uart_tags"

definition enet_tags :: "hwiattr_enet \<Rightarrow> unit hw" where
  "enet_tags a =
     hthen (hwitag_add_common (enet_common a))
    (hthen (for_each [0..<unat (enet_num_phys a)] (\<lambda>i. hwitag_add_nicphyaddr (of_nat i)))
    (hthen (times (enet_num_clks a) (hwitag_add_inputclk 0 1))
      (if enet_mac a \<noteq> replicate 6 0 then hwitag_add_nicaddr (enet_mac a) 6 else hret ())))"

definition hwidev_add_enet :: "hwi_lib \<Rightarrow> string \<Rightarrow> hwiattr_enet option \<Rightarrow> u32 \<Rightarrow> u32 hw" where
  "hwidev_add_enet lib name attr bus = with_attr (hwidev_add lib name 2 bus) attr enet_tags"

definition rtc_tags :: "hwiattr_rtc \<Rightarrow> unit hw" where
  "rtc_tags a = hthen (hwitag_add_common (rtc_common a))
     (case centreg_name a of Some n \<Rightarrow> hwitag_add_regname n (ucast (centreg_offset a)) | None \<Rightarrow> hret ())"

definition hwidev_add_rtc :: "hwi_lib \<Rightarrow> string \<Rightarrow> hwiattr_rtc option \<Rightarrow> u32 \<Rightarrow> u32 hw" where
  "hwidev_add_rtc lib name attr bus = with_attr (hwidev_add lib name 3 bus) attr rtc_tags"

definition hwidev_add_dma :: "hwi_lib \<Rightarrow> string \<Rightarrow> hwiattr_common option \<Rightarrow> u32 \<Rightarrow> u32 hw" where
  "hwidev_add_dma lib name attr bus = with_attr (hwidev_add lib name 4 bus) attr hwitag_add_common"

definition timer_tags :: "hwiattr_timer \<Rightarrow> unit hw" where
  "timer_tags a = hthen (hwitag_add_common (timer_common a)) (times (timer_num_clks a) (hwitag_add_inputclk 0 1))"

definition hwidev_add_timer :: "hwi_lib \<Rightarrow> string \<Rightarrow> hwiattr_timer option \<Rightarrow> u32 \<Rightarrow> u32 hw" where
  "hwidev_add_timer lib name attr bus = with_attr (hwidev_add lib name 7 bus) attr timer_tags"

definition i2c_tags :: "hwiattr_i2c \<Rightarrow> unit hw" where
  "i2c_tags a =
     hthen (hwitag_add_common (i2c_common a))
    (hthen (times (i2c_num_clks a) (hwitag_add_inputclk 0 1))
           (times (i2c_num_busattr a) (hwitag_add_busattr None)))"

definition hwibus_add_i2c :: "hwi_lib \<Rightarrow> u32 \<Rightarrow> hwiattr_i2c option \<Rightarrow> u32 hw" where
  "hwibus_add_i2c lib parent attr = with_attr (hwibus_add lib ''i2c'' parent) attr i2c_tags"

definition spi_tags :: "hwiattr_spi \<Rightarrow> unit hw" where
  "spi_tags a =
     hthen (hwitag_add_common (spi_common a))
    (hthen (times (spi_num_clks a) (hwitag_add_inputclk 0 1))
           (times (spi_num_busattr a) (hwitag_add_busattr None)))"

definition hwibus_add_spi :: "hwi_lib \<Rightarrow> u32 \<Rightarrow> hwiattr_spi option \<Rightarrow> u32 hw" where
  "hwibus_add_spi lib parent attr = with_attr (hwibus_add lib ''spi'' parent) attr spi_tags"

definition hwibus_add_usb :: "hwi_lib \<Rightarrow> u32 \<Rightarrow> hwiattr_common option \<Rightarrow> u32 hw" where
  "hwibus_add_usb lib parent attr = with_attr (hwibus_add lib ''usb'' parent) attr hwitag_add_common"

definition pci_tags :: "hwiattr_pci \<Rightarrow> unit hw" where
  "pci_tags a =
     hthen (hwitag_add_common (pci_common a))
    (hthen (times (pci_num_irqblks a) (hwitag_add_irqrange HWI_ILLEGAL_VECTOR 0))
           (times (pci_num_busattr a) (hwitag_add_busattr None)))"

definition hwibus_add_pci :: "hwi_lib \<Rightarrow> u32 \<Rightarrow> hwiattr_pci option \<Rightarrow> u32 hw" where
  "hwibus_add_pci lib parent attr = with_attr (hwibus_add lib ''pci'' parent) attr pci_tags"

definition can_tags :: "hwiattr_can \<Rightarrow> unit hw" where
  "can_tags a =
     hthen (hwitag_add_common (can_common a))
    (hthen (times (can_num_clks a) (hwitag_add_inputclk 0 1))
           (times (can_num_memaddr a) (hwitag_add_location 0 0 0 0)))"

definition hwibus_add_can :: "hwi_lib \<Rightarrow> u32 \<Rightarrow> hwiattr_can option \<Rightarrow> u32 hw" where
  "hwibus_add_can lib parent attr = with_attr (hwibus_add lib ''can'' parent) attr can_tags"

subsection \<open>hwitag_set_*.c: fields of tags that are there\<close>

definition set_found :: "hwi_lib \<Rightarrow> u32 \<Rightarrow> string \<Rightarrow> u32 \<Rightarrow> (nat \<times> u8 list) list \<Rightarrow> u32 hw" where
  "set_found lib off name idx fs =
     hbind (hget (hwi_tag_find lib off name idx)) (\<lambda>r.
       case r of None \<Rightarrow> hret 0 | Some (tag, _) \<Rightarrow> hthen (set_fields tag fs) (hret 1))"

definition hwitag_set_ivec :: "hwi_lib \<Rightarrow> u32 \<Rightarrow> u32 \<Rightarrow> u32 \<Rightarrow> u32 hw" where
  "hwitag_set_ivec lib off idx vector = set_found lib off ''irq'' idx [(4, le32l vector)]"

definition hwitag_set_ivecrange :: "hwi_lib \<Rightarrow> u32 \<Rightarrow> u32 \<Rightarrow> u32 \<Rightarrow> u32 \<Rightarrow> u32 hw" where
  "hwitag_set_ivecrange lib off idx start_vector num =
     set_found lib off ''irqrange'' idx [(4, le32l start_vector), (8, le16 (ucast num))]"

definition hwitag_set_phyaddr :: "hwi_lib \<Rightarrow> u32 \<Rightarrow> u32 \<Rightarrow> u32 \<Rightarrow> u32 hw" where
  "hwitag_set_phyaddr lib off idx phy_addr = set_found lib off ''nicphyaddr'' idx [(4, le32l phy_addr)]"

definition hwitag_set_errata :: "hwi_lib \<Rightarrow> u32 \<Rightarrow> u32 \<Rightarrow> u32 \<Rightarrow> u32 hw" where
  "hwitag_set_errata lib off idx errata = set_found lib off ''errata'' idx [(4, le32l errata)]"

text \<open>
  \<open>hwitag_set_inputclk\<close> and \<open>hwitag_set_busattr\<close> copy the caller's structure over the
  tag after giving it the prefix of the tag: the prefix stays, every other field is written.
\<close>

definition hwitag_set_inputclk :: "hwi_lib \<Rightarrow> u32 \<Rightarrow> u32 \<Rightarrow> u32 \<Rightarrow> u32 \<Rightarrow> u32 hw" where
  "hwitag_set_inputclk lib off idx clk dv =
     set_found lib off ''inputclk'' idx [(4, le32l clk), (8, le32l dv)]"

definition hwitag_set_busattr :: "hwi_lib \<Rightarrow> u32 \<Rightarrow> u32 \<Rightarrow> hwi_busattr \<Rightarrow> u32 hw" where
  "hwitag_set_busattr lib off idx a =
     set_found lib off ''busattr'' idx [(4, le32l (ba_flags a)), (8, le64l (ba_addr a)),
       (16, le32l (ba_speed a)), (20, le16 (ba_width a)), (22, le16 (ba_spare a)), (24, le64l (ba_size a))]"

definition hwitag_set_nicaddr :: "hwi_lib \<Rightarrow> u32 \<Rightarrow> u32 \<Rightarrow> u8 list \<Rightarrow> u32 hw" where
  "hwitag_set_nicaddr lib off idx nic_addr =
     hbind (hget (hwi_tag_find lib off ''nicaddr'' idx)) (\<lambda>r.
       case r of None \<Rightarrow> hret 0
       | Some (tag, _) \<Rightarrow> hbind (peek 4 (tag + 4)) (\<lambda>len :: u32.
           hthen (if unat len \<le> length nic_addr then poke (tag + 8) (take (unat len) nic_addr)
                  else (\<lambda>_. Inl ''read past the address'')) (hret 1)))"

text \<open>
  The search of \<open>hwitag_set_avail_ivec\<close> for a free vector tag: every \<open>hwi_tag_find\<close>
  advances the index; the bound on the number of rounds is the size of the section, which holds
  fewer tags than that.
\<close>

fun avail_ivec_from :: "nat \<Rightarrow> hwi_lib \<Rightarrow> u32 \<Rightarrow> bool \<Rightarrow> u32 \<Rightarrow> u32 \<Rightarrow> int hw" where
  "avail_ivec_from 0 lib off only_one idx vector = (\<lambda>_. Inl ''search does not end'')"
| "avail_ivec_from (Suc n) lib off only_one idx vector =
     hbind (hget (hwi_tag_find lib off ''irq'' idx)) (\<lambda>r.
       case r of None \<Rightarrow> hret (- 1)
       | Some (tag, idx1) \<Rightarrow> hbind (peek 4 (tag + 4)) (\<lambda>v.
           if v = HWI_ILLEGAL_VECTOR
           then hthen (set_fields tag [(4, le32l vector)]) (hret (sint (idx1 - 1)))
           else if only_one then hret (- 1)
           else avail_ivec_from n lib off only_one idx1 vector))"

definition hwitag_set_avail_ivec :: "hwi_lib \<Rightarrow> u32 \<Rightarrow> int \<Rightarrow> u32 \<Rightarrow> int hw" where
  "hwitag_set_avail_ivec lib off ivec_idx vector =
     (\<lambda>s. avail_ivec_from (Suc (length (sp_hwinfo s))) lib off (ivec_idx \<ge> 0)
            (if ivec_idx < 0 then 0 else word_of_int ivec_idx) vector s)"

end
