(* ===== verification/HwinfoSpec.thy ===== *)
theory HwinfoSpec
  imports Hwinfo
begin

section \<open>The hardware information section: what it holds\<close>

text \<open>
  The abstract section is a list of items, each with its own tags. \<open>hw_rep\<close> says that the
  bytes of the section are the encoding of such a list followed by zeros, which end the walk of its
  readers: the word counts of tags and items, the owner links and the counts of owned items are
  functions of the list, so a section that is represented has them right.
\<close>

subsection \<open>Bytes\<close>

lemma length_le_bytes [simp]: "length (le_bytes n v) = n"
  by (simp add: le_bytes_def)

lemma put_at_app [simp]: "length bs = length B \<Longrightarrow> put_at (length A) bs (A @ B @ C) = A @ bs @ C"
  by (simp add: put_at_def)

lemma put_at_mid: "at = length A \<Longrightarrow> length bs = length B \<Longrightarrow> put_at at bs (A @ B @ C) = A @ bs @ C"
  by simp

lemma get_le_app: "get_le n (length A + k) (A @ B) = get_le n k B"
  by (simp add: get_le_def nth_append add.assoc)

lemma upt_2: "[0..<2] = [0, 1::nat]"
  by (simp add: upt_rec)

lemma get_le16: "get_le 2 (length A) (A @ le16 v @ C) = v"
proof -
  have "get_le 2 0 (le16 v @ C) = v"
    by (rule bit_word_eqI) (auto simp: get_le_def le_bytes_def upt_2 bit_simps nth_append)
  then show ?thesis using get_le_app [where 'a = 16, of 2 A 0 "le16 v @ C"] by simp
qed

lemma le_bytes_0: "le_bytes n 0 = replicate n 0"
  by (rule nth_equalityI) (simp_all add: le_bytes_def)

lemma poke_mid:
  assumes "sp_hwinfo s = A @ B @ C" and "length A = at" and "length bs = length B"
  shows "poke at bs s = Inr ((), s\<lparr>sp_hwinfo := A @ bs @ C\<rparr>)"
  using assms by (auto simp: poke_def)

lemma add16_mid:
  assumes "sp_hwinfo s = A @ le16 v @ C" and "length A = at"
  shows "add16 at d s = Inr ((), s\<lparr>sp_hwinfo := A @ le16 (v + d) @ C\<rparr>)"
proof -
  have "peek 2 at s = Inr (v, s)"
    using assms get_le16 [of A v C] by (auto simp: peek_def)
  moreover have "poke at (le16 (v + d)) s = Inr ((), s\<lparr>sp_hwinfo := A @ le16 (v + d) @ C\<rparr>)"
    by (rule poke_mid [OF assms(1,2)]) simp
  ultimately show ?thesis by (simp add: add16_def hbind_def)
qed

subsection \<open>The abstract section\<close>

record htag =
  ht_name :: string
  ht_body :: "u8 list"

record hitem =
  hi_kind :: string
  hi_name :: string
  hi_owner :: u16
  hi_body :: "u8 list"
  hi_tags :: "htag list"

definition tag_len :: "htag \<Rightarrow> nat" where
  "tag_len t = 4 + length (ht_body t)"

definition head_len :: "hitem \<Rightarrow> nat" where
  "head_len it = 12 + length (hi_body it)"

definition item_len :: "hitem \<Rightarrow> nat" where
  "item_len it = head_len it + sum_list (map tag_len (hi_tags it))"

definition total_len :: "hitem list \<Rightarrow> nat" where
  "total_len I = sum_list (map item_len I)"

definition enc_tag :: "(string \<Rightarrow> nat) \<Rightarrow> htag \<Rightarrow> u8 list" where
  "enc_tag nf t = le16 (of_nat (tag_len t div 4)) @ le16 (of_nat (nf (ht_name t))) @ ht_body t"

definition enc_item :: "(string \<Rightarrow> nat) \<Rightarrow> nat \<Rightarrow> hitem \<Rightarrow> u8 list" where
  "enc_item nf k it =
     (le16 (of_nat (head_len it div 4)) @ le16 (of_nat (nf (hi_kind it)))) @
     le16 (of_nat (item_len it div 4)) @
     (le16 (of_nat (nf (hi_name it))) @ le16 (hi_owner it)) @ le16 (of_nat k) @
     hi_body it @ concat (map (enc_tag nf) (hi_tags it))"

fun enc_items :: "(string \<Rightarrow> nat) \<Rightarrow> (nat \<Rightarrow> nat) \<Rightarrow> nat \<Rightarrow> hitem list \<Rightarrow> u8 list" where
  "enc_items nf kf p [] = []"
| "enc_items nf kf p (it # its) = enc_item nf (kf p) it @ enc_items nf kf (p + item_len it) its"

text \<open>The number of items owned by the item at \<open>p\<close>.\<close>

definition kids_of :: "hwi_lib \<Rightarrow> hitem list \<Rightarrow> nat \<Rightarrow> nat" where
  "kids_of lib I p = length (filter (\<lambda>it. hi_owner it = ucast (hwi_tag2off lib p)) I)"

definition tag_ok :: "string list \<Rightarrow> htag \<Rightarrow> bool" where
  "tag_ok ns t \<longleftrightarrow> 4 dvd length (ht_body t) \<and> ht_name t \<in> set ns"

fun item_places :: "nat \<Rightarrow> hitem list \<Rightarrow> nat list" where
  "item_places p [] = []"
| "item_places p (it # its) = p # item_places (p + item_len it) its"

definition item_ok :: "hwi_lib \<Rightarrow> string list \<Rightarrow> hitem list \<Rightarrow> hitem \<Rightarrow> bool" where
  "item_ok lib ns I it \<longleftrightarrow> 4 dvd length (hi_body it) \<and> hi_kind it \<in> set ns \<and> hi_name it \<in> set ns \<and>
     (\<forall>t \<in> set (hi_tags it). tag_ok ns t) \<and>
     (hi_owner it = ucast HWI_NULL_OFF \<or> (\<exists>p \<in> set (item_places 0 I). hi_owner it = ucast (hwi_tag2off lib p)))"

text \<open>
  The page has room for what is in the section; its maximum, 16 KB while it is built
  (\<open>TEMP_SYSPAGE_SIZE\<close>), keeps every offset within the 16 bits of an owner link.
\<close>

definition room :: "lsp \<Rightarrow> bool" where
  "room s \<longleftrightarrow> length (sp_strings s) + length (sp_hwinfo s) \<le> unat (sp_total_size s) \<and> sp_total_size s \<le> sp_max_size s \<and>
     unat (sp_max_size s) < 65535"

definition hw_rep :: "hwi_lib \<Rightarrow> string list \<Rightarrow> hitem list \<Rightarrow> lsp \<Rightarrow> bool" where
  "hw_rep lib ns I s \<longleftrightarrow>
     pool_inv ns s \<and> room s \<and> (\<forall>it \<in> set I. item_ok lib ns I it) \<and>
     (\<exists>z. 8 \<le> z \<and> sp_hwinfo s = enc_items (pool_off ns) (kids_of lib I) 0 I @ replicate z 0) \<and>
     hwi_offset s = of_nat (total_len I) \<and>
     hwi_last_item s = of_nat (total_len (butlast I))"

definition lib_ok :: "hwi_lib \<Rightarrow> bool" where
  "lib_ok lib \<longleftrightarrow> (\<forall>p. 4 dvd p \<longrightarrow> p < 65535 \<longrightarrow>
     hwi_tag2off lib p < HWI_NULL_OFF \<and> hwi_off2tag lib (hwi_tag2off lib p) = p)"

subsection \<open>Encodings of lists\<close>

lemma length_enc_tag [simp]: "length (enc_tag nf t) = tag_len t"
  by (simp add: enc_tag_def tag_len_def)

lemma length_enc_item [simp]: "length (enc_item nf k it) = item_len it"
  by (simp add: enc_item_def item_len_def head_len_def length_concat comp_def)

lemma total_len_simps [simp]:
  "total_len [] = 0"
  "total_len (it # I) = item_len it + total_len I"
  "total_len (I @ J) = total_len I + total_len J"
  by (simp_all add: total_len_def)

lemma length_enc_items [simp]: "length (enc_items nf kf p I) = total_len I"
  by (induction I arbitrary: p) auto

lemma enc_items_append:
  "enc_items nf kf p (I @ J) = enc_items nf kf p I @ enc_items nf kf (p + total_len I) J"
  by (induction I arbitrary: p) (auto simp: add.assoc)

lemma item_places_append:
  "item_places p (I @ J) = item_places p I @ item_places (p + total_len I) J"
  by (induction I arbitrary: p) (auto simp: add.assoc)

lemma enc_tag_cong: "nf (ht_name t) = nf' (ht_name t) \<Longrightarrow> enc_tag nf t = enc_tag nf' t"
  by (simp add: enc_tag_def)

lemma enc_item_cong:
  assumes "k = k'" and "nf (hi_kind it) = nf' (hi_kind it)" and "nf (hi_name it) = nf' (hi_name it)"
    and "\<And>t. t \<in> set (hi_tags it) \<Longrightarrow> nf (ht_name t) = nf' (ht_name t)"
  shows "enc_item nf k it = enc_item nf' k' it"
proof -
  have "map (enc_tag nf) (hi_tags it) = map (enc_tag nf') (hi_tags it)"
    using assms(4) by (auto intro: enc_tag_cong)
  then show ?thesis using assms(1-3) unfolding enc_item_def by metis
qed

lemma enc_items_cong:
  assumes "\<And>q. q \<in> set (item_places p I) \<Longrightarrow> kf q = kf' q"
    and "\<And>it. it \<in> set I \<Longrightarrow> nf (hi_kind it) = nf' (hi_kind it) \<and> nf (hi_name it) = nf' (hi_name it) \<and>
      (\<forall>t \<in> set (hi_tags it). nf (ht_name t) = nf' (ht_name t))"
  shows "enc_items nf kf p I = enc_items nf' kf' p I"
  using assms
proof (induction I arbitrary: p)
  case (Cons it I)
  have "enc_item nf (kf p) it = enc_item nf' (kf' p) it"
    using Cons.prems by (intro enc_item_cong) auto
  moreover have "enc_items nf kf (p + item_len it) I = enc_items nf' kf' (p + item_len it) I"
    by (rule Cons.IH) (use Cons.prems in auto)
  ultimately show ?case by simp
qed simp

lemma places_less: "q \<in> set (item_places p I) \<Longrightarrow> p \<le> q \<and> q < p + total_len I"
proof (induction I arbitrary: p)
  case (Cons it I)
  have "0 < item_len it" by (simp add: item_len_def head_len_def)
  with Cons show ?case by fastforce
qed simp

lemma tags_aligned: "\<forall>t \<in> set ts. tag_ok ns t \<Longrightarrow> 4 dvd sum_list (map tag_len ts)"
  by (induction ts) (auto simp: tag_ok_def tag_len_def)

lemma item_aligned: "item_ok lib ns I it \<Longrightarrow> 4 dvd item_len it"
  unfolding item_len_def by (rule dvd_add) (auto simp: item_ok_def head_len_def intro!: tags_aligned)

subsection \<open>Alignment\<close>

lemma round_multiple:
  assumes "0 < (e::nat)"
  shows "(e * m + (e - 1)) div e = m"
proof -
  have "(e - 1 + e * m) div e = m + (e - 1) div e" using assms by (intro div_mult_self2) simp
  moreover have "(e - 1) div e = 0" using assms by (intro div_less) simp
  ultimately show ?thesis by (simp only: add.commute add_0_right)
qed

lemma ROUND_zero_iff:
  fixes x a :: u32
  assumes "a = 2 ^ k" and "k < 32" and "unat x + 2 ^ k < 2 ^ 32"
  shows "ROUND x a - x = 0 \<longleftrightarrow> 2 ^ k dvd unat x"
proof -
  have u: "unat (ROUND x a) = (unat x + (2 ^ k - 1)) div 2 ^ k * 2 ^ k"
    by (rule unat_ROUND [OF assms(1)]) (use assms in auto)
  have "ROUND x a - x = 0 \<longleftrightarrow> unat (ROUND x a) = unat x"
    by (metis eq_iff_diff_eq_0 word_unat_eq_iff)
  also have "\<dots> \<longleftrightarrow> 2 ^ k dvd unat x"
  proof
    assume "unat (ROUND x a) = unat x"
    then show "2 ^ k dvd unat x" using u by (metis dvd_triv_right)
  next
    assume "2 ^ k dvd unat x"
    then obtain m where m: "unat x = 2 ^ k * m" by (rule dvdE)
    have "(2 ^ k * m + (2 ^ k - 1)) div 2 ^ k = m" by (rule round_multiple) simp
    then show "unat (ROUND x a) = unat x" using u m by (simp add: mult.commute)
  qed
  finally show ?thesis .
qed

lemma align_with_noop:
  assumes "align = 2 ^ k" and "k < 32" and "unat (hwi_offset s) + 2 ^ k < 2 ^ 32" and "2 ^ k dvd unat (hwi_offset s)"
  shows "align_with f align s = Inr ((), s)"
  using ROUND_zero_iff [OF assms(1-3)] assms(4) by (simp add: align_with_def)

lemma align_with_pad:
  assumes "align = 2 ^ k" and "k < 32" and "unat (hwi_offset s) + 2 ^ k < 2 ^ 32" and "\<not> 2 ^ k dvd unat (hwi_offset s)"
  shows "align_with f align s = hbind (f TAG_pad) (\<lambda>_. hret ()) s"
  using ROUND_zero_iff [OF assms(1-3)] assms(4) by (simp add: align_with_def)

definition place_ok :: "lsp \<Rightarrow> bool" where
  "place_ok s \<longleftrightarrow> 4 dvd unat (hwi_offset s) \<and> unat (hwi_offset s) < 2 ^ 31"

lemma align4: "place_ok s \<Longrightarrow> align_with f 4 s = Inr ((), s)"
  by (rule align_with_noop [where k = 2]) (auto simp: place_ok_def)

lemma align8: "place_ok s \<Longrightarrow> align_with f 8 s =
    (if 8 dvd unat (hwi_offset s) then Inr ((), s) else hbind (f TAG_pad) (\<lambda>_. hret ()) s)"
  using align_with_noop [where k = 3 and align = 8 and s = s] align_with_pad [where k = 3 and align = 8 and s = s]
  by (auto simp: place_ok_def)

lemma alloc_pad:
  assumes "place_ok s"
  shows "alloc_tag_n (Suc k) TAG_pad s = append_tag TAG_pad s"
  using align4 [OF assms] by (simp add: hthen_def hbind_def tag_kinds)

lemma alloc_tag4:
  assumes "place_ok s" and "ti_align ti = 4"
  shows "hwi_alloc_tag ti s = append_tag ti s"
  using align4 [OF assms(1)] assms(2) by (simp add: hwi_alloc_tag_def numeral_2_eq_2 hthen_def hbind_def)

lemma alloc_tag8:
  assumes "place_ok s" and "ti_align ti = 8"
  shows "hwi_alloc_tag ti s =
    (if 8 dvd unat (hwi_offset s) then append_tag ti s else hbind (append_tag TAG_pad) (\<lambda>_. append_tag ti) s)"
  using align8 [OF assms(1)] alloc_pad [OF assms(1)] assms(2)
  by (auto simp: hwi_alloc_tag_def numeral_2_eq_2 hthen_def hbind_def split: sum.splits)

lemma align_tag4: "place_ok s \<Longrightarrow> align_tag 4 s = Inr ((), s)"
  by (simp add: align_tag_def align4)

text \<open>
  On a section whose end is not aligned to four bytes the recursion of \<open>hwi_alloc_tag\<close> and
  \<open>align_tag\<close> has no end, whatever the depth; on an aligned one two levels are enough.
\<close>

lemma alloc_tag_misaligned:
  assumes "\<not> 4 dvd unat (hwi_offset s)" and "unat (hwi_offset s) < 2 ^ 31" and "ti_align ti = 4 \<or> ti_align ti = 8"
  shows "alloc_tag_n k ti s = Inl ''stack overflow''"
  using assms(3)
proof (induction k arbitrary: ti)
  case (Suc k)
  have "alloc_tag_n k TAG_pad s = Inl ''stack overflow''"
    by (rule Suc.IH) (simp add: tag_kinds)
  then have pad: "hbind (alloc_tag_n k TAG_pad) (\<lambda>_. hret ()) s = Inl ''stack overflow''"
    by (simp add: hbind_def)
  have "\<not> 8 dvd unat (hwi_offset s)" using assms(1) by (rule contrapos_nn) (erule dvd_trans [rotated], simp)
  then have "align_with (alloc_tag_n k) 8 s = Inl ''stack overflow''"
    using align_with_pad [where k = 3 and align = 8 and s = s and f = "alloc_tag_n k"] assms(2) pad by simp
  moreover have "align_with (alloc_tag_n k) 4 s = Inl ''stack overflow''"
    using align_with_pad [where k = 2 and align = 4 and s = s and f = "alloc_tag_n k"] assms(1,2) pad by simp
  ultimately have "align_with (alloc_tag_n k) (ti_align ti) s = Inl ''stack overflow''"
    using Suc.prems by metis
  then show ?case by (simp add: hthen_def hbind_def)
qed simp

lemma alloc_tag_depth:
  assumes "place_ok s" and "ti_align ti = 4 \<or> ti_align ti = 8"
  shows "alloc_tag_n (Suc (Suc k)) ti s = hwi_alloc_tag ti s"
  using align8 [OF assms(1)] align4 [OF assms(1)] alloc_pad [OF assms(1)] assms(2)
  by (auto simp: hwi_alloc_tag_def numeral_2_eq_2 hthen_def hbind_def)

subsection \<open>Appending a tag\<close>

lemma pool_inv_cong: "sp_strings s = sp_strings s' \<Longrightarrow> pool_inv ns s \<longleftrightarrow> pool_inv ns s'"
  by (simp add: pool_inv_def)

text \<open>No growth of less than 2 GB wraps around while the page is within its maximum.\<close>

lemma grow_budget_room:
  assumes "grow_budget n s = Inr s1" and "room s" and "unat n < 2 ^ 31 + 16"
  shows "unat (sp_total_size s1) = unat (sp_total_size s) + unat (ROUND n 8)"
    "sp_total_size s1 \<le> sp_max_size s1" "sp_max_size s1 = sp_max_size s"
proof -
  have t: "unat (sp_total_size s) < 65535" using assms(2) by (auto simp: room_def word_le_nat_alt)
  have r: "unat (ROUND n 8) \<le> unat n + 7"
    using unat_ROUND [of "8::u32" 3 n] assms(3) by (simp add: div_times_less_eq_dividend)
  have "unat (ROUND (0::u32) 8) = 0" using unat_ROUND [of "8::u32" 3 0] by simp
  with t r assms show "unat (sp_total_size s1) = unat (sp_total_size s) + unat (ROUND n 8)"
    by (auto simp: grow_budget_def Let_def unat_word_ariths split: if_splits)
  show "sp_total_size s1 \<le> sp_max_size s1"
    using assms(1,2) by (auto simp: grow_budget_def Let_def room_def split: if_splits)
  show "sp_max_size s1 = sp_max_size s" by (rule grow_budget_frame [OF assms(1)])
qed

lemma grow_budget_keeps_room:
  assumes "grow_budget n s = Inr s1" and "room s" and "unat n < 2 ^ 31 + 16"
    and "length (sp_strings s2) + length (sp_hwinfo s2) \<le>
      length (sp_strings s) + length (sp_hwinfo s) + unat (ROUND n 8)"
    and "sp_total_size s2 = sp_total_size s1" and "sp_max_size s2 = sp_max_size s1"
  shows "room s2"
  using grow_budget_room [OF assms(1-3)] assms(2,4-6) by (auto simp: room_def)

lemma length_strcpy: "i + length n + 1 \<le> length xs \<Longrightarrow> length (strcpy_at i n xs) = length xs"
  by (simp add: strcpy_at_def)

lemma add_string_room:
  assumes "add_string n s = Inr (off, s1)" and "room s" and "valid_name n" and "pool_inv ns s"
  shows "room s1"
proof (cases "add_string_scan n (sp_strings s) 0")
  case (End i)
  let ?len = "length n + 2" and ?spare = "length (sp_strings s) - i"
  let ?add = "if ?len > ?spare then ?len - ?spare else 0"
  obtain s0 where g: "grow_budget (of_nat ?add) s = Inr s0"
    and s1: "s1 = s0\<lparr>sp_strings := strcpy_at i n (sp_strings s0 @ replicate (unat (ROUND (of_nat ?add :: u32) 8)) NUL)\<rparr>"
    using assms(1) End by (auto simp: add_string_def Let_def bind_res_Inr_iff simp del: add_2_eq_Suc add_2_eq_Suc')
  have add: "?add < 2 ^ 31 + 16" using assms(3) by (auto simp: valid_name_def)
  then have un: "unat (of_nat ?add :: u32) < 2 ^ 31 + 16" by (subst unat_of_nat_small) simp_all
  have i: "i \<le> length (sp_strings s)"
    using End scan_section [OF assms(4), of n] assms(4) by (auto simp: pool_inv_def split: if_splits)
  have "?add \<le> unat (ROUND (of_nat ?add :: u32) 8)" by (rule unat_ROUND8_ge) (use add in simp)
  then have "i + length n + 1 \<le> length (sp_strings s) + unat (ROUND (of_nat ?add :: u32) 8)"
    using i by (auto split: if_splits)
  then have "length (sp_strings s1) = length (sp_strings s) + unat (ROUND (of_nat ?add :: u32) 8)"
    by (simp add: s1 length_strcpy grow_budget_frame [OF g])
  then show ?thesis
    by (intro grow_budget_keeps_room [OF g assms(2) un]) (simp_all add: s1 grow_budget_frame [OF g])
qed (use assms in \<open>auto simp: add_string_def\<close>)

lemma grow_hwinfo_run:
  assumes "grow_hwinfo n s = Inr r" and "room s" and "unat n < 2 ^ 31"
  obtains s1 where "r = ((), s1)" "sp_hwinfo s1 = sp_hwinfo s @ replicate (unat (ROUND n 8)) 0"
    "sp_strings s1 = sp_strings s" "hwi_offset s1 = hwi_offset s" "hwi_last_item s1 = hwi_last_item s"
    "sp_asinfo s1 = sp_asinfo s" "room s1"
proof -
  obtain s0 where g: "grow_budget n s = Inr s0"
    and r: "r = ((), s0\<lparr>sp_hwinfo := sp_hwinfo s0 @ replicate (unat (ROUND n 8)) 0\<rparr>)"
    using assms by (auto simp: grow_hwinfo_def bind_res_Inr_iff)
  have "room (s0\<lparr>sp_hwinfo := sp_hwinfo s0 @ replicate (unat (ROUND n 8)) 0\<rparr>)"
    by (rule grow_budget_keeps_room [OF g assms(2)]) (use assms(3) in \<open>simp_all add: grow_budget_frame [OF g]\<close>)
  then show ?thesis by (intro that [OF r]) (simp_all add: grow_budget_frame [OF g])
qed

text \<open>The state after the name is entered and the section grown, before the tag is written.\<close>

definition grown :: "string list \<Rightarrow> lsp \<Rightarrow> tag_info \<Rightarrow> lsp \<Rightarrow> bool" where
  "grown ns s ti s2 \<longleftrightarrow> pool_inv (pool_add ns (ti_name ti)) s2 \<and> room s2 \<and>
     sp_hwinfo s2 = sp_hwinfo s @ replicate (unat (ROUND (ti_size ti) 8)) 0 \<and>
     hwi_offset s2 = hwi_offset s \<and> hwi_last_item s2 = hwi_last_item s \<and> sp_asinfo s2 = sp_asinfo s"

lemma append_tag_grown:
  assumes "append_tag ti s = Inr (tag, s')" and "pool_inv ns s" and "room s" and "valid_name (ti_name ti)"
    and "unat (ti_size ti) < 2 ^ 31"
  obtains s2 where "grown ns s ti s2"
    and "tag = unat (hwi_offset s)"
    and "hthen (add16 (unat (hwi_last_item s) + 4) (ucast (ti_size ti div 4)))
           (hthen (set_fields tag [(0, le16 (ucast (ti_size ti div 4))),
              (2, le16 (of_nat (pool_off (pool_add ns (ti_name ti)) (ti_name ti))))])
            (upd_lsp (\<lambda>s. s\<lparr>hwi_offset := hwi_offset s + ti_size ti\<rparr>))) s2 = Inr ((), s')"
proof -
  obtain off s1 u s2 where a: "add_string (ti_name ti) s = Inr (off, s1)"
    and g: "grow_hwinfo (ti_size ti) s1 = Inr (u, s2)"
    and t: "tag = unat (hwi_offset s2)"
    and w: "hthen (add16 (unat (hwi_last_item s2) + 4) (ucast (ti_size ti div 4)))
           (hthen (set_fields (unat (hwi_offset s2)) [(0, le16 (ucast (ti_size ti div 4))), (2, le16 (of_nat off))])
            (upd_lsp (\<lambda>s. s\<lparr>hwi_offset := hwi_offset s + ti_size ti\<rparr>))) s2 = Inr ((), s')"
    using assms(1) by (auto simp: append_tag_def hbind_Inr hthen_Inr Let_def)
  note p = add_string_pool [OF assms(2,4) a] and f = add_string_frame [OF a]
  obtain s3 where s3: "(u, s2) = ((), s3)" "sp_hwinfo s3 = sp_hwinfo s1 @ replicate (unat (ROUND (ti_size ti) 8)) 0"
    "sp_strings s3 = sp_strings s1" "hwi_offset s3 = hwi_offset s1" "hwi_last_item s3 = hwi_last_item s1"
    "sp_asinfo s3 = sp_asinfo s1" "room s3"
    by (rule grow_hwinfo_run [OF g add_string_room [OF a assms(3,4,2)] assms(5)])
  have "pool_inv (pool_add ns (ti_name ti)) s2"
    using p s3(1,3) pool_inv_cong by blast
  then have "grown ns s ti s2" using s3 f by (simp add: grown_def)
  then show ?thesis using that [of s2] t w p s3 f by auto
qed

lemma ROUND8_le: "unat n + 7 < 2 ^ 32 \<Longrightarrow> unat n \<le> unat (ROUND n 8)" for n :: u32
  using ROUND_ge [where a = "8::u32" and k = 3 and x = n] by (simp add: word_le_nat_alt)

text \<open>
  A tag behind the last item: the item's word count grows by the words of the tag, which is
  put where the tags end.
\<close>

lemma append_tag_old:
  assumes run: "append_tag ti s = Inr (tag, s')" and pool: "pool_inv ns s" and rm: "room s" and v: "valid_name (ti_name ti)"
    and sect: "sp_hwinfo s = A @ le16 w @ B @ replicate z 0"
    and A: "length A = unat (hwi_last_item s) + 4" and B: "length A + 2 + length B = unat (hwi_offset s)"
    and sz: "4 \<le> unat (ti_size ti)" "unat (ti_size ti) < 2 ^ 31"
  shows "\<exists>z'. z \<le> z' \<and> tag = unat (hwi_offset s) \<and> pool_inv (pool_add ns (ti_name ti)) s' \<and> room s' \<and>
    sp_hwinfo s' = A @ le16 (w + ucast (ti_size ti div 4)) @ B @
      (le16 (ucast (ti_size ti div 4)) @ le16 (of_nat (pool_off (pool_add ns (ti_name ti)) (ti_name ti))) @
       replicate (unat (ti_size ti) - 4) 0) @ replicate z' 0 \<and>
    hwi_offset s' = hwi_offset s + ti_size ti \<and> hwi_last_item s' = hwi_last_item s \<and> sp_asinfo s' = sp_asinfo s"
proof -
  let ?r = "unat (ROUND (ti_size ti) 8)" and ?words = "ucast (ti_size ti div 4) :: u16"
    and ?no = "of_nat (pool_off (pool_add ns (ti_name ti)) (ti_name ti)) :: u16"
  obtain s2 where g: "grown ns s ti s2" and tag: "tag = unat (hwi_offset s)"
    and w: "hthen (add16 (unat (hwi_last_item s) + 4) ?words)
           (hthen (set_fields tag [(0, le16 ?words), (2, le16 ?no)])
            (upd_lsp (\<lambda>s. s\<lparr>hwi_offset := hwi_offset s + ti_size ti\<rparr>))) s2 = Inr ((), s')"
    by (rule append_tag_grown [OF run pool rm v sz(2)])
  have r: "unat (ti_size ti) \<le> ?r" by (rule ROUND8_le) (use sz(2) in simp)
  define z' where "z' = z + ?r - unat (ti_size ti)"
  have "z + ?r = 2 + (2 + (unat (ti_size ti) - 4 + z'))" using r sz(1) by (simp add: z'_def)
  then have z: "replicate z 0 @ replicate ?r (0::u8) =
      replicate 2 0 @ replicate 2 0 @ replicate (unat (ti_size ti) - 4) 0 @ replicate z' 0"
    by (simp only: replicate_add [symmetric])
  have s2: "sp_hwinfo s2 = A @ le16 w @ (B @ replicate 2 0 @ replicate 2 0 @ replicate (unat (ti_size ti) - 4) 0 @ replicate z' 0)"
    using g sect z by (simp add: grown_def)
  define s3 where "s3 = s2\<lparr>sp_hwinfo := A @ le16 (w + ?words) @ (B @ replicate 2 0 @ replicate 2 0 @ replicate (unat (ti_size ti) - 4) 0 @ replicate z' 0)\<rparr>"
  have 3: "add16 (unat (hwi_last_item s) + 4) ?words s2 = Inr ((), s3)"
    unfolding s3_def by (rule add16_mid [OF s2 A])
  define s4 where "s4 = s3\<lparr>sp_hwinfo := (A @ le16 (w + ?words) @ B) @ le16 ?words @ (replicate 2 0 @ replicate (unat (ti_size ti) - 4) 0 @ replicate z' 0)\<rparr>"
  have 4: "poke (tag + 0) (le16 ?words) s3 = Inr ((), s4)"
    unfolding s4_def by (rule poke_mid [where B = "replicate 2 0"]) (use tag B in \<open>simp_all add: s3_def\<close>)
  define s5 where "s5 = s4\<lparr>sp_hwinfo := (A @ le16 (w + ?words) @ B @ le16 ?words) @ le16 ?no @ (replicate (unat (ti_size ti) - 4) 0 @ replicate z' 0)\<rparr>"
  have 5: "poke (tag + 2) (le16 ?no) s4 = Inr ((), s5)"
    unfolding s5_def by (rule poke_mid [where B = "replicate 2 0"]) (use tag B in \<open>simp_all add: s4_def\<close>)
  have "s' = s5\<lparr>hwi_offset := hwi_offset s5 + ti_size ti\<rparr>"
    using w 3 4 5 by (simp add: hthen_def hbind_def)
  moreover have "hwi_offset s5 = hwi_offset s" "hwi_last_item s5 = hwi_last_item s" "sp_asinfo s5 = sp_asinfo s"
    "sp_strings s5 = sp_strings s2" "sp_total_size s5 = sp_total_size s2" "sp_max_size s5 = sp_max_size s2"
    using g by (simp_all add: s5_def s4_def s3_def grown_def)
  moreover have "pool_inv (pool_add ns (ti_name ti)) s2" "room s2" using g by (simp_all add: grown_def)
  moreover have "length (sp_hwinfo s5) = length (sp_hwinfo s2)" by (simp add: s5_def s2)
  moreover have "z \<le> z'" using r by (simp add: z'_def)
  ultimately show ?thesis
    using tag by (intro exI [of _ z']) (auto simp: s5_def pool_inv_def room_def)
qed

text \<open>A tag that starts an item: its own word count is the item's.\<close>

lemma append_tag_new:
  assumes run: "append_tag ti s = Inr (tag, s')" and pool: "pool_inv ns s" and rm: "room s" and v: "valid_name (ti_name ti)"
    and sect: "sp_hwinfo s = X @ replicate z 0"
    and X: "length X = unat (hwi_offset s)" and last: "hwi_last_item s = hwi_offset s"
    and sz: "12 \<le> unat (ti_size ti)" "unat (ti_size ti) < 2 ^ 31"
  shows "\<exists>z'. z \<le> z' \<and> tag = unat (hwi_offset s) \<and> pool_inv (pool_add ns (ti_name ti)) s' \<and> room s' \<and>
    sp_hwinfo s' = X @ (le16 (ucast (ti_size ti div 4)) @ le16 (of_nat (pool_off (pool_add ns (ti_name ti)) (ti_name ti)))) @
      le16 (ucast (ti_size ti div 4)) @ replicate 2 0 @ replicate 2 0 @ replicate 2 0 @ replicate (unat (ti_size ti) - 12) 0 @ replicate z' 0 \<and>
    hwi_offset s' = hwi_offset s + ti_size ti \<and> hwi_last_item s' = hwi_last_item s \<and> sp_asinfo s' = sp_asinfo s"
proof -
  let ?r = "unat (ROUND (ti_size ti) 8)" and ?words = "ucast (ti_size ti div 4) :: u16"
    and ?no = "of_nat (pool_off (pool_add ns (ti_name ti)) (ti_name ti)) :: u16"
  obtain s2 where g: "grown ns s ti s2" and tag: "tag = unat (hwi_offset s)"
    and w: "hthen (add16 (unat (hwi_last_item s) + 4) ?words)
           (hthen (set_fields tag [(0, le16 ?words), (2, le16 ?no)])
            (upd_lsp (\<lambda>s. s\<lparr>hwi_offset := hwi_offset s + ti_size ti\<rparr>))) s2 = Inr ((), s')"
    by (rule append_tag_grown [OF run pool rm v sz(2)])
  have r: "unat (ti_size ti) \<le> ?r" by (rule ROUND8_le) (use sz(2) in simp)
  define z' where "z' = z + ?r - unat (ti_size ti)"
  define rest where "rest = replicate 2 0 @ replicate 2 0 @ replicate 2 0 @ replicate (unat (ti_size ti) - 12) (0::u8) @ replicate z' 0"
  have "z + ?r = 2 + (2 + (2 + (2 + (2 + (2 + (unat (ti_size ti) - 12 + z'))))))" using r sz(1) by (simp add: z'_def)
  then have z: "replicate z 0 @ replicate ?r (0::u8) = replicate 2 0 @ replicate 2 0 @ replicate 2 0 @ rest"
    unfolding rest_def by (simp only: replicate_add [symmetric])
  have s2: "sp_hwinfo s2 = (X @ replicate 2 0 @ replicate 2 0) @ le16 0 @ rest"
    using g sect z by (simp add: grown_def le_bytes_0)
  define s3 where "s3 = s2\<lparr>sp_hwinfo := (X @ replicate 2 0 @ replicate 2 0) @ le16 (0 + ?words) @ rest\<rparr>"
  have 3: "add16 (unat (hwi_last_item s) + 4) ?words s2 = Inr ((), s3)"
    unfolding s3_def by (rule add16_mid [OF s2]) (simp add: X last)
  define s4 where "s4 = s3\<lparr>sp_hwinfo := X @ le16 ?words @ (replicate 2 0 @ le16 ?words @ rest)\<rparr>"
  have 4: "poke (tag + 0) (le16 ?words) s3 = Inr ((), s4)"
    unfolding s4_def by (rule poke_mid [where B = "replicate 2 0"]) (use tag X in \<open>simp_all add: s3_def\<close>)
  define s5 where "s5 = s4\<lparr>sp_hwinfo := (X @ le16 ?words) @ le16 ?no @ (le16 ?words @ rest)\<rparr>"
  have 5: "poke (tag + 2) (le16 ?no) s4 = Inr ((), s5)"
    unfolding s5_def by (rule poke_mid [where B = "replicate 2 0"]) (use tag X in \<open>simp_all add: s4_def\<close>)
  have "s' = s5\<lparr>hwi_offset := hwi_offset s5 + ti_size ti\<rparr>"
    using w 3 4 5 by (simp add: hthen_def hbind_def)
  moreover have "hwi_offset s5 = hwi_offset s" "hwi_last_item s5 = hwi_last_item s" "sp_asinfo s5 = sp_asinfo s"
    "sp_strings s5 = sp_strings s2" "sp_total_size s5 = sp_total_size s2" "sp_max_size s5 = sp_max_size s2"
    using g by (simp_all add: s5_def s4_def s3_def grown_def)
  moreover have "pool_inv (pool_add ns (ti_name ti)) s2" "room s2" using g by (simp_all add: grown_def)
  moreover have "length (sp_hwinfo s5) = length (sp_hwinfo s2)" by (simp add: s5_def s2)
  moreover have "z \<le> z'" using r by (simp add: z'_def)
  ultimately show ?thesis
    using tag by (intro exI [of _ z']) (auto simp: s5_def rest_def pool_inv_def room_def)
qed

subsection \<open>Representations\<close>

text \<open>\<open>ns'\<close> extends \<open>ns\<close>: what was entered keeps its offset.\<close>

definition names_ext :: "string list \<Rightarrow> string list \<Rightarrow> bool" where
  "names_ext ns ns' \<longleftrightarrow> (\<exists>ms. ns' = ns @ ms)"

lemma names_ext_off: "names_ext ns ns' \<Longrightarrow> n \<in> set ns \<Longrightarrow> n \<in> set ns' \<and> pool_off ns' n = pool_off ns n"
  by (auto simp: names_ext_def)

lemma names_ext_add: "names_ext ns (pool_add ns n)" "n \<in> set (pool_add ns n)"
  by (auto simp: names_ext_def pool_add_def)

lemma names_ext_refl: "names_ext ns ns"
  by (simp add: names_ext_def)

lemma names_ext_trans: "names_ext a b \<Longrightarrow> names_ext b c \<Longrightarrow> names_ext a c"
  by (auto simp: names_ext_def)

lemma item_ok_ext: "names_ext ns ns' \<Longrightarrow> item_ok lib ns I it \<Longrightarrow> item_ok lib ns' I it"
  by (auto simp: item_ok_def tag_ok_def names_ext_def)

lemma item_ok_more: "item_ok lib ns I it \<Longrightarrow> item_ok lib ns (I @ J) it"
  by (auto simp: item_ok_def item_places_append)

lemma enc_items_ext:
  assumes "names_ext ns ns'" and "\<forall>it \<in> set I. item_ok lib ns J it"
  shows "enc_items (pool_off ns') kf p I = enc_items (pool_off ns) kf p I"
  by (rule enc_items_cong) (use assms in \<open>auto simp: item_ok_def tag_ok_def names_ext_def\<close>)

lemma total_aligned: "\<forall>it \<in> set I. item_ok lib ns J it \<Longrightarrow> 4 dvd total_len I"
  by (induction I) (auto intro: dvd_add item_aligned)

lemma places_aligned: "\<forall>it \<in> set I. item_ok lib ns J it \<Longrightarrow> 4 dvd p \<Longrightarrow> q \<in> set (item_places p I) \<Longrightarrow> 4 dvd q"
proof (induction I arbitrary: p)
  case (Cons it I)
  have "4 dvd p + item_len it" using Cons.prems by (auto intro: dvd_add item_aligned)
  then show ?case using Cons by auto
qed simp

lemma rep_len: "hw_rep lib ns I s \<Longrightarrow> total_len I + 8 < 65535"
  by (auto simp: hw_rep_def room_def word_le_nat_alt)

lemma rep_offset: "hw_rep lib ns I s \<Longrightarrow> unat (hwi_offset s) = total_len I"
  using rep_len [of lib ns I s] by (auto simp: hw_rep_def unat_of_nat_small)

lemma rep_place_ok: "hw_rep lib ns I s \<Longrightarrow> place_ok s"
  using rep_len [of lib ns I s] rep_offset [of lib ns I s] total_aligned [of I lib ns I]
  by (auto simp: place_ok_def hw_rep_def)

lemma kids_append: "kids_of lib (I @ J) p = kids_of lib I p + kids_of lib J p"
  by (simp add: kids_of_def)

lemma ucast_words: "(ucast (x div 4 :: u32) :: u16) = of_nat (unat x div 4)"
proof -
  have "(ucast (x div 4) :: u16) = of_nat (unat (x div 4))" by simp
  also have "unat (x div 4) = unat x div 4" by (simp add: unat_div)
  finally show ?thesis .
qed

text \<open>The positions of the items are distinct and their offsets tell them apart.\<close>

lemma lib_okD:
  assumes "lib_ok lib" and "4 dvd p" and "p < 65535"
  shows "hwi_tag2off lib p < HWI_NULL_OFF" "hwi_off2tag lib (hwi_tag2off lib p) = p"
  using assms by (auto simp: lib_ok_def)

lemma ucast16_inj:
  fixes a b :: u32
  assumes "a \<le> HWI_NULL_OFF" and "b \<le> HWI_NULL_OFF" and "(ucast a :: u16) = ucast b"
  shows "a = b"
proof -
  have "unat a mod 2 ^ 16 = unat b mod 2 ^ 16"
    using arg_cong [OF assms(3), of unat] by (simp add: unsigned_ucast_eq take_bit_eq_mod)
  then show ?thesis using assms(1,2) by (simp add: HWI_NULL_OFF_def word_le_nat_alt word_unat_eq_iff)
qed

lemma owner_eq_place:
  assumes "lib_ok lib" and "4 dvd p" and "p < 65535" and "4 dvd q" and "q < 65535"
  shows "(ucast (hwi_tag2off lib p) :: u16) = ucast (hwi_tag2off lib q) \<longleftrightarrow> p = q"
proof
  assume "(ucast (hwi_tag2off lib p) :: u16) = ucast (hwi_tag2off lib q)"
  then have "hwi_tag2off lib p = hwi_tag2off lib q"
    by (rule ucast16_inj [rotated 2]) (use lib_okD [OF assms(1)] assms in \<open>auto simp: less_imp_le\<close>)
  then show "p = q" using lib_okD(2) [OF assms(1)] assms by metis
qed simp

lemma owner_not_null:
  assumes "lib_ok lib" and "4 dvd p" and "p < 65535"
  shows "(ucast (hwi_tag2off lib p) :: u16) \<noteq> ucast HWI_NULL_OFF"
proof
  assume "(ucast (hwi_tag2off lib p) :: u16) = ucast HWI_NULL_OFF"
  then have "hwi_tag2off lib p = HWI_NULL_OFF"
    by (rule ucast16_inj [rotated 2]) (use lib_okD [OF assms] in \<open>auto simp: less_imp_le\<close>)
  then show False using lib_okD(1) [OF assms] by simp
qed

lemma rep_places:
  assumes "hw_rep lib ns I s" and "q \<in> set (item_places 0 I)"
  shows "4 dvd q" "q < total_len I" "q < 65535"
proof -
  show "4 dvd q" using assms places_aligned [of I lib ns I 0 q] by (auto simp: hw_rep_def)
  show "q < total_len I" using places_less [OF assms(2)] by simp
  then show "q < 65535" using rep_len [OF assms(1)] by simp
qed

text \<open>No item is owned by the place behind the last one.\<close>

lemma kids_of_end:
  assumes "lib_ok lib" and "hw_rep lib ns I s"
  shows "kids_of lib I (total_len I) = 0"
proof -
  have e: "4 dvd total_len I" "total_len I < 65535"
    using total_aligned [of I lib ns I] assms(2) rep_len [OF assms(2)] by (auto simp: hw_rep_def)
  have "hi_owner it \<noteq> ucast (hwi_tag2off lib (total_len I))" if "it \<in> set I" for it
  proof -
    have "hi_owner it = ucast HWI_NULL_OFF \<or> (\<exists>p \<in> set (item_places 0 I). hi_owner it = ucast (hwi_tag2off lib p))"
      using assms(2) that by (auto simp: hw_rep_def item_ok_def)
    then show ?thesis
    proof
      assume "hi_owner it = ucast HWI_NULL_OFF"
      then show ?thesis using owner_not_null [OF assms(1) e] by metis
    next
      assume "\<exists>p \<in> set (item_places 0 I). hi_owner it = ucast (hwi_tag2off lib p)"
      then obtain p where p: "p \<in> set (item_places 0 I)" "hi_owner it = ucast (hwi_tag2off lib p)" by blast
      then show ?thesis
        using owner_eq_place [OF assms(1) rep_places(1,3) [OF assms(2) p(1)] e] rep_places(2) [OF assms(2) p(1)]
        by auto
    qed
  qed
  then show ?thesis by (simp add: kids_of_def filter_empty_conv)
qed

lemma places_split:
  "q \<in> set (item_places p I) \<Longrightarrow> \<exists>J1 it J2. I = J1 @ it # J2 \<and> q = p + total_len J1"
proof (induction I arbitrary: p)
  case (Cons it I)
  show ?case
  proof (cases "q = p")
    case True
    then show ?thesis by (intro exI [of _ "[]"] exI [of _ it] exI [of _ I]) simp
  next
    case False
    then obtain J1 it' J2 where "I = J1 @ it' # J2" "q = p + item_len it + total_len J1"
      using Cons by fastforce
    then show ?thesis by (intro exI [of _ "it # J1"] exI [of _ it'] exI [of _ J2]) simp
  qed
qed simp

lemma bump_kids:
  assumes "sp_hwinfo s = enc_items nf kf 0 I @ Z" and "p \<in> set (item_places 0 I)"
  shows "add16 (p + 10) 1 s = Inr ((), s\<lparr>sp_hwinfo := enc_items nf (kf(p := kf p + 1)) 0 I @ Z\<rparr>)"
proof -
  obtain J1 it J2 where I: "I = J1 @ it # J2" and p: "p = total_len J1"
    using places_split [OF assms(2)] by auto
  let ?A = "enc_items nf kf 0 J1 @ (le16 (of_nat (head_len it div 4)) @ le16 (of_nat (nf (hi_kind it)))) @
     le16 (of_nat (item_len it div 4)) @ (le16 (of_nat (nf (hi_name it))) @ le16 (hi_owner it))"
  let ?C = "hi_body it @ concat (map (enc_tag nf) (hi_tags it)) @ enc_items nf kf (p + item_len it) J2 @ Z"
  have "sp_hwinfo s = ?A @ le16 (of_nat (kf p)) @ ?C"
    by (simp add: assms(1) I enc_items_append p enc_item_def)
  then have 1: "add16 (p + 10) 1 s = Inr ((), s\<lparr>sp_hwinfo := ?A @ le16 (of_nat (kf p) + 1) @ ?C\<rparr>)"
    by (rule add16_mid) (simp add: p)
  have "enc_items nf (kf(p := kf p + 1)) 0 J1 = enc_items nf kf 0 J1"
    by (rule enc_items_cong) (auto simp: p dest: places_less)
  moreover have "enc_items nf (kf(p := kf p + 1)) (p + item_len it) J2 = enc_items nf kf (p + item_len it) J2"
    by (rule enc_items_cong) (auto simp: item_len_def head_len_def dest: places_less)
  ultimately have "enc_items nf (kf(p := kf p + 1)) 0 I @ Z = ?A @ le16 (of_nat (kf p) + 1) @ ?C"
    by (simp add: I enc_items_append p enc_item_def add.commute)
  then show ?thesis using 1 by simp
qed

lemma rep_add_string:
  assumes "hw_rep lib ns I s" and "add_string n s = Inr (off, s1)" and "valid_name n"
  shows "hw_rep lib (pool_add ns n) I s1" "off = pool_off (pool_add ns n) n" "sp_asinfo s1 = sp_asinfo s"
proof -
  have pool: "pool_inv ns s" and rm: "room s" and ok: "\<forall>it \<in> set I. item_ok lib ns I it"
    using assms(1) by (auto simp: hw_rep_def)
  note p = add_string_pool [OF pool assms(3,2)] and f = add_string_frame [OF assms(2)]
  show "off = pool_off (pool_add ns n) n" "sp_asinfo s1 = sp_asinfo s" using p f by auto
  show "hw_rep lib (pool_add ns n) I s1"
    using assms(1) p f add_string_room [OF assms(2) rm assms(3) pool]
      enc_items_ext [OF names_ext_add(1) ok] item_ok_ext [OF names_ext_add(1)]
    by (auto simp: hw_rep_def)
qed

definition new_item :: "tag_info \<Rightarrow> string \<Rightarrow> u32 \<Rightarrow> hitem" where
  "new_item ti name owner = \<lparr>hi_kind = ti_name ti, hi_name = name, hi_owner = ucast owner,
     hi_body = replicate (unat (ti_size ti) - 12) 0, hi_tags = []\<rparr>"

definition owner_ok :: "hwi_lib \<Rightarrow> hitem list \<Rightarrow> u32 \<Rightarrow> bool" where
  "owner_ok lib I owner \<longleftrightarrow> owner = HWI_NULL_OFF \<or> (\<exists>p \<in> set (item_places 0 I). owner = hwi_tag2off lib p)"

definition item_info :: "tag_info \<Rightarrow> bool" where
  "item_info ti \<longleftrightarrow> ti_align ti = 4 \<and> valid_name (ti_name ti) \<and> 4 dvd unat (ti_size ti) \<and>
     12 \<le> unat (ti_size ti) \<and> unat (ti_size ti) < 2 ^ 31"

text \<open>The number of items each place owns, once an item of the given owner is added.\<close>

lemma kids_of_new:
  assumes "lib_ok lib" and "hw_rep lib ns I s" and "owner_ok lib I owner" and "hi_owner N = ucast owner"
    and "q \<in> set (item_places 0 (I @ [N]))"
  shows "kids_of lib (I @ [N]) q = kids_of lib I q + (if owner \<noteq> HWI_NULL_OFF \<and> q = hwi_off2tag lib owner then 1 else 0)"
proof -
  have e: "4 dvd total_len I" "total_len I < 65535"
    using total_aligned [of I lib ns I] assms(2) rep_len [OF assms(2)] by (auto simp: hw_rep_def)
  have q: "4 dvd q" "q < 65535"
    using assms(5) e rep_places [OF assms(2)] by (auto simp: item_places_append)
  show ?thesis
  proof (cases "owner = HWI_NULL_OFF")
    case True
    then show ?thesis using owner_not_null [OF assms(1) q] assms(4) by (auto simp: kids_append kids_of_def)
  next
    case False
    then obtain p where p: "p \<in> set (item_places 0 I)" "owner = hwi_tag2off lib p"
      using assms(3) by (auto simp: owner_ok_def)
    note rp = rep_places(1,3) [OF assms(2) p(1)]
    have "hwi_off2tag lib owner = p" using lib_okD(2) [OF assms(1) rp] p(2) by simp
    then show ?thesis using False owner_eq_place [OF assms(1) rp q] p(2) assms(4)
      by (auto simp: kids_append kids_of_def)
  qed
qed

lemma owner_bumped:
  assumes lib: "lib_ok lib" and rep: "hw_rep lib ns I s" and ow: "owner_ok lib I owner"
    and k: "(if owner \<noteq> HWI_NULL_OFF then add16 (hwi_off2tag lib owner + 10) 1 else hret ()) s4 = Inr ((), s')"
    and s4: "sp_hwinfo s4 = enc_items nf (kids_of lib I) 0 (I @ [new_item ti name owner]) @ Z"
  shows "s' = s4\<lparr>sp_hwinfo := enc_items nf (kids_of lib (I @ [new_item ti name owner])) 0 (I @ [new_item ti name owner]) @ Z\<rparr>"
proof (cases "owner = HWI_NULL_OFF")
  let ?N = "new_item ti name owner"
  case True
  have "enc_items nf (kids_of lib (I @ [?N])) 0 (I @ [?N]) = enc_items nf (kids_of lib I) 0 (I @ [?N])"
    by (rule enc_items_cong) (use kids_of_new [OF lib rep ow, of ?N] True in \<open>auto simp: new_item_def\<close>)
  then show ?thesis using True k s4 by simp
next
  let ?N = "new_item ti name owner" and ?kf = "kids_of lib I"
  case False
  then obtain p where p: "p \<in> set (item_places 0 I)" "owner = hwi_tag2off lib p"
    using ow by (auto simp: owner_ok_def)
  have o2t: "hwi_off2tag lib owner = p"
    using lib_okD(2) [OF lib rep_places(1,3) [OF rep p(1)]] p(2) by simp
  have pin: "p \<in> set (item_places 0 (I @ [?N]))" using p(1) by (simp add: item_places_append)
  have "enc_items nf (kids_of lib (I @ [?N])) 0 (I @ [?N]) = enc_items nf (?kf(p := ?kf p + 1)) 0 (I @ [?N])"
    by (rule enc_items_cong) (use kids_of_new [OF lib rep ow, of ?N] False o2t in \<open>auto simp: new_item_def\<close>)
  then show ?thesis using False k o2t bump_kids [OF s4 pin] by simp
qed

lemma place_ok_cong: "hwi_offset s = hwi_offset s' \<Longrightarrow> place_ok s \<longleftrightarrow> place_ok s'"
  by (simp add: place_ok_def)

lemma two_pokes:
  assumes "sp_hwinfo s = A @ B @ C @ D" and "length b = length B" and "length c = length C"
    and "i = length A" and "j = length A + length B"
  shows "hthen (poke i b) (hthen (poke j c) (hret ())) s = Inr ((), s\<lparr>sp_hwinfo := A @ b @ c @ D\<rparr>)"
proof -
  have "poke i b s = Inr ((), s\<lparr>sp_hwinfo := A @ b @ (C @ D)\<rparr>)"
    by (rule poke_mid [where B = B]) (use assms in auto)
  moreover have "poke j c (s\<lparr>sp_hwinfo := A @ b @ (C @ D)\<rparr>) =
      Inr ((), s\<lparr>sp_hwinfo := A @ b @ (C @ D)\<rparr>\<lparr>sp_hwinfo := (A @ b) @ c @ D\<rparr>)"
    by (rule poke_mid [where B = C]) (use assms in auto)
  ultimately show ?thesis by (simp add: hthen_def hbind_def)
qed

text \<open>The bytes of a new item, before the number of items its owner has is raised.\<close>

lemma item_written:
  assumes lib: "lib_ok lib" and rep: "hw_rep lib ns I s" and ti: "item_info ti" and nm: "name \<in> set ns"
    and t: "hwi_alloc_tag ti (s\<lparr>hwi_last_item := hwi_offset s\<rparr>) = Inr (tag, s3)"
    and f: "set_fields tag [(6, le16 (of_nat (pool_off ns name))), (8, le16 (ucast owner))] s3 = Inr ((), s4)"
    and ns3: "ns3 = pool_add ns (ti_name ti)"
  shows "tag = total_len I \<and> pool_inv ns3 s4 \<and> room s4 \<and> hwi_last_item s4 = hwi_offset s \<and>
    hwi_offset s4 = hwi_offset s + ti_size ti \<and> sp_asinfo s4 = sp_asinfo s \<and>
    (\<exists>z. 8 \<le> z \<and> sp_hwinfo s4 =
       enc_items (pool_off ns3) (kids_of lib I) 0 (I @ [new_item ti name owner]) @ replicate z 0)"
proof -
  let ?N = "new_item ti name owner"
  let ?nf = "pool_off ns" and ?nf3 = "pool_off ns3" and ?kf = "kids_of lib I"
  define s2 where "s2 = s\<lparr>hwi_last_item := hwi_offset s\<rparr>"
  obtain z where z: "8 \<le> z" "sp_hwinfo s = enc_items ?nf ?kf 0 I @ replicate z 0"
    using rep by (auto simp: hw_rep_def)
  have off: "unat (hwi_offset s2) = total_len I" using rep_offset [OF rep] by (simp add: s2_def)
  have app: "append_tag ti s2 = Inr (tag, s3)"
    using t alloc_tag4 [of s2 ti] rep_place_ok [OF rep] ti by (simp add: s2_def item_info_def place_ok_def)
  have pre: "pool_inv ns s2" "room s2" "sp_hwinfo s2 = enc_items ?nf ?kf 0 I @ replicate z 0"
    "length (enc_items ?nf ?kf 0 I) = unat (hwi_offset s2)" "hwi_last_item s2 = hwi_offset s2"
    "valid_name (ti_name ti)" "12 \<le> unat (ti_size ti)" "unat (ti_size ti) < 2 ^ 31"
    using rep z(2) off ti by (auto simp: hw_rep_def pool_inv_def room_def item_info_def) (auto simp: s2_def)
  obtain z' where z': "z \<le> z'" and tag: "tag = total_len I" and s3: "pool_inv ns3 s3" "room s3"
    "hwi_offset s3 = hwi_offset s + ti_size ti" "hwi_last_item s3 = hwi_offset s" "sp_asinfo s3 = sp_asinfo s"
    and sect: "sp_hwinfo s3 = (enc_items ?nf ?kf 0 I @ (le16 (of_nat (unat (ti_size ti) div 4)) @ le16 (of_nat (?nf3 (ti_name ti)))) @
      le16 (of_nat (unat (ti_size ti) div 4))) @ replicate 2 0 @ replicate 2 0 @ (replicate 2 0 @ replicate (unat (ti_size ti) - 12) 0 @ replicate z' 0)"
    using append_tag_new [OF app pre(1,2,6,3-5,7,8)] off by (auto simp: s2_def ns3 ucast_words)
  have ext: "names_ext ns ns3" unfolding ns3 by (rule names_ext_add)
  have name_off: "?nf name = ?nf3 name" using names_ext_off [OF ext nm] by simp
  have encI: "enc_items ?nf ?kf 0 I = enc_items ?nf3 ?kf 0 I"
    using enc_items_ext [OF ext, of I lib I] rep by (simp add: hw_rep_def)
  have len: "head_len ?N = unat (ti_size ti)" "item_len ?N = unat (ti_size ti)"
    using ti by (auto simp: new_item_def item_info_def item_len_def head_len_def)
  have s4: "s4 = s3\<lparr>sp_hwinfo := (enc_items ?nf ?kf 0 I @ (le16 (of_nat (unat (ti_size ti) div 4)) @ le16 (of_nat (?nf3 (ti_name ti)))) @
      le16 (of_nat (unat (ti_size ti) div 4))) @ le16 (of_nat (?nf name)) @ le16 (ucast owner) @
      (replicate 2 0 @ replicate (unat (ti_size ti) - 12) 0 @ replicate z' 0)\<rparr>"
    using f two_pokes [OF sect, of "le16 (of_nat (?nf name))" "le16 (ucast owner)" "tag + 6" "tag + 8"]
    by (simp add: tag)
  have "sp_hwinfo s4 = enc_items ?nf3 ?kf 0 I @ enc_item ?nf3 0 ?N @ replicate z' 0"
    by (simp add: s4 enc_item_def len encI name_off le_bytes_0) (simp add: new_item_def)
  then have "sp_hwinfo s4 = enc_items ?nf3 ?kf 0 (I @ [?N]) @ replicate z' 0"
    using kids_of_end [OF lib rep] by (simp add: enc_items_append)
  moreover have "length (sp_hwinfo s4) = length (sp_hwinfo s3)" by (simp add: s4 sect)
  ultimately show ?thesis using z z' tag s3
    by (intro conjI exI [of _ z']) (auto simp: s4 pool_inv_def room_def)
qed

text \<open>\<open>hwi_alloc_item\<close> adds an item of the given kind, name and owner behind the others.\<close>

lemma alloc_item_rep:
  assumes lib: "lib_ok lib" and rep: "hw_rep lib ns I s" and ow: "owner_ok lib I owner"
    and ti: "item_info ti" and v: "valid_name name"
    and run: "hwi_alloc_item lib ti name owner s = Inr (tag, s')"
  shows "tag = total_len I \<and> sp_asinfo s' = sp_asinfo s \<and>
    (\<exists>ns'. names_ext ns ns' \<and> hw_rep lib ns' (I @ [new_item ti name owner]) s')"
proof -
  let ?N = "new_item ti name owner"
  obtain off s1 u s1' s3 s4 where a: "add_string name s = Inr (off, s1)"
    and al: "align_tag (ti_align ti) s1 = Inr (u, s1')"
    and t: "hwi_alloc_tag ti (s1'\<lparr>hwi_last_item := hwi_offset s1'\<rparr>) = Inr (tag, s3)"
    and f: "set_fields tag [(6, le16 (of_nat off)), (8, le16 (ucast owner))] s3 = Inr ((), s4)"
    and k: "(if owner \<noteq> HWI_NULL_OFF then add16 (hwi_off2tag lib owner + 10) 1 else hret ()) s4 = Inr ((), s')"
    using run by (auto simp: hwi_alloc_item_def hbind_Inr hthen_Inr)
  define ns1 where "ns1 = pool_add ns name"
  define ns3 where "ns3 = pool_add ns1 (ti_name ti)"
  have r1: "hw_rep lib ns1 I s1" "off = pool_off ns1 name" "sp_asinfo s1 = sp_asinfo s" "name \<in> set ns1"
    using rep_add_string [OF rep a v] names_ext_add(2) by (simp_all add: ns1_def)
  have s1': "s1' = s1" using align_tag4 [OF rep_place_ok [OF r1(1)]] al ti by (simp add: item_info_def)
  have w: "tag = total_len I \<and> pool_inv ns3 s4 \<and> room s4 \<and> hwi_last_item s4 = hwi_offset s1 \<and>
    hwi_offset s4 = hwi_offset s1 + ti_size ti \<and> sp_asinfo s4 = sp_asinfo s1 \<and>
    (\<exists>z. 8 \<le> z \<and> sp_hwinfo s4 = enc_items (pool_off ns3) (kids_of lib I) 0 (I @ [?N]) @ replicate z 0)"
    by (rule item_written [OF lib r1(1) ti r1(4)]) (use t f s1' in \<open>simp_all add: r1(2) ns3_def\<close>)
  then obtain z where z: "8 \<le> z" and s4: "sp_hwinfo s4 = enc_items (pool_off ns3) (kids_of lib I) 0 (I @ [?N]) @ replicate z 0"
    by blast
  have ext: "names_ext ns1 ns3" "names_ext ns ns3"
    using names_ext_add names_ext_trans unfolding ns1_def ns3_def by metis+
  have s': "s' = s4\<lparr>sp_hwinfo := enc_items (pool_off ns3) (kids_of lib (I @ [?N])) 0 (I @ [?N]) @ replicate z 0\<rparr>"
    by (rule owner_bumped [OF lib r1(1) ow k s4])
  have len: "item_len ?N = unat (ti_size ti)"
    using ti by (auto simp: new_item_def item_info_def item_len_def head_len_def)
  have okN: "item_ok lib ns3 (I @ [?N]) ?N"
    using ti names_ext_add(2) [of "ti_name ti" ns1] names_ext_off [OF ext(1) r1(4)] ow
    by (auto simp: item_ok_def new_item_def item_info_def ns3_def owner_ok_def item_places_append)
  have "room s'" using w by (simp add: room_def s' s4)
  moreover have "pool_inv ns3 s'" using w by (simp add: pool_inv_def s')
  moreover have "hwi_offset s' = of_nat (total_len (I @ [?N]))" "hwi_last_item s' = of_nat (total_len (butlast (I @ [?N])))"
    using w r1(1) len by (simp_all add: s' hw_rep_def)
  moreover have "\<forall>it \<in> set (I @ [?N]). item_ok lib ns3 (I @ [?N]) it"
    using okN r1(1) item_ok_ext [OF ext(1)] item_ok_more by (auto simp: hw_rep_def)
  ultimately have "hw_rep lib ns3 (I @ [?N]) s'"
    using z by (auto simp: hw_rep_def s' intro!: exI [of _ z])
  then show ?thesis using w ext(2) r1(3) by (auto simp: s')
qed

subsection \<open>Tags of the last item\<close>

definition push_tag :: "htag \<Rightarrow> hitem list \<Rightarrow> hitem list" where
  "push_tag t I = butlast I @ [(last I)\<lparr>hi_tags := hi_tags (last I) @ [t]\<rparr>]"

lemma push_tag_snoc [simp]: "push_tag t (J @ [it]) = J @ [it\<lparr>hi_tags := hi_tags it @ [t]\<rparr>]"
  by (simp add: push_tag_def)

lemma push_tag_not_Nil [simp]: "push_tag t I \<noteq> []"
  by (simp add: push_tag_def)

lemma total_len_push [simp]: "I \<noteq> [] \<Longrightarrow> total_len (push_tag t I) = total_len I + tag_len t"
  by (induction I rule: rev_induct) (simp_all add: item_len_def head_len_def)

lemma places_push: "item_places p (J @ [it\<lparr>hi_tags := ts\<rparr>]) = item_places p (J @ [it])"
  by (simp add: item_places_append)

lemma kids_push: "kids_of lib (J @ [it\<lparr>hi_tags := ts\<rparr>]) = kids_of lib (J @ [it])"
  by (simp add: kids_of_def fun_eq_iff)

definition tag_info_ok :: "tag_info \<Rightarrow> bool" where
  "tag_info_ok ti \<longleftrightarrow> (ti_align ti = 4 \<or> ti_align ti = 8) \<and> valid_name (ti_name ti) \<and>
     4 dvd unat (ti_size ti) \<and> 4 \<le> unat (ti_size ti) \<and> unat (ti_size ti) < 2 ^ 31"

definition blank_tag :: "tag_info \<Rightarrow> htag" where
  "blank_tag ti = \<lparr>ht_name = ti_name ti, ht_body = replicate (unat (ti_size ti) - 4) 0\<rparr>"

lemma append_tag_rep:
  assumes rep: "hw_rep lib ns I s" and ne: "I \<noteq> []" and ti: "tag_info_ok ti"
    and run: "append_tag ti s = Inr (tag, s')"
  shows "tag = total_len I \<and> sp_asinfo s' = sp_asinfo s \<and>
    hw_rep lib (pool_add ns (ti_name ti)) (push_tag (blank_tag ti) I) s'"
proof -
  obtain J it where I: "I = J @ [it]" using ne by (cases I rule: rev_cases) auto
  define ns' where "ns' = pool_add ns (ti_name ti)"
  let ?nf = "pool_off ns" and ?nf' = "pool_off ns'" and ?kf = "kids_of lib I"
  let ?it = "it\<lparr>hi_tags := hi_tags it @ [blank_tag ti]\<rparr>"
  obtain z where z: "8 \<le> z" "sp_hwinfo s = enc_items ?nf ?kf 0 I @ replicate z 0"
    using rep by (auto simp: hw_rep_def)
  have off: "unat (hwi_offset s) = total_len I" by (rule rep_offset [OF rep])
  have lst: "unat (hwi_last_item s) = total_len J"
    using rep rep_len [OF rep] by (simp add: hw_rep_def I unat_of_nat_small)
  let ?A = "enc_items ?nf ?kf 0 J @ (le16 (of_nat (head_len it div 4)) @ le16 (of_nat (?nf (hi_kind it))))"
  let ?B = "(le16 (of_nat (?nf (hi_name it))) @ le16 (hi_owner it)) @ le16 (of_nat (?kf (total_len J))) @
     hi_body it @ concat (map (enc_tag ?nf) (hi_tags it))"
  have sect: "sp_hwinfo s = ?A @ le16 (of_nat (item_len it div 4)) @ ?B @ replicate z 0"
    by (simp add: z(2) I enc_items_append enc_item_def)
  have lens: "length ?A = unat (hwi_last_item s) + 4" "length ?A + 2 + length ?B = unat (hwi_offset s)"
    using lst off by (simp_all add: I item_len_def head_len_def length_concat comp_def)
  have pre: "pool_inv ns s" "room s" "valid_name (ti_name ti)" "4 \<le> unat (ti_size ti)" "unat (ti_size ti) < 2 ^ 31"
    using rep ti by (auto simp: hw_rep_def tag_info_ok_def)
  obtain z' where z': "z \<le> z'" and tag: "tag = total_len I" and s': "pool_inv ns' s'" "room s'"
      "hwi_offset s' = hwi_offset s + ti_size ti" "hwi_last_item s' = hwi_last_item s" "sp_asinfo s' = sp_asinfo s"
    and sect': "sp_hwinfo s' = ?A @ le16 (of_nat (item_len it div 4) + of_nat (unat (ti_size ti) div 4)) @ ?B @
      (le16 (of_nat (unat (ti_size ti) div 4)) @ le16 (of_nat (?nf' (ti_name ti))) @
       replicate (unat (ti_size ti) - 4) 0) @ replicate z' 0"
    using append_tag_old [OF run pre(1-3) sect lens pre(4,5)] off by (auto simp: ns'_def ucast_words)
  have ext: "names_ext ns ns'" unfolding ns'_def by (rule names_ext_add)
  have okI: "\<forall>x \<in> set I. item_ok lib ns I x" using rep by (simp add: hw_rep_def)
  have tl: "tag_len (blank_tag ti) = unat (ti_size ti)"
    using ti by (simp add: tag_len_def blank_tag_def tag_info_ok_def)
  have words: "item_len it div 4 + unat (ti_size ti) div 4 = item_len ?it div 4"
    using ti item_aligned [of lib ns I it] okI I by (auto simp: item_len_def head_len_def tl tag_info_ok_def)
  have enc: "enc_items ?nf' (kids_of lib (J @ [?it])) 0 (J @ [?it]) @ replicate z' 0 = sp_hwinfo s'"
  proof -
    have "enc_items ?nf' ?kf 0 J = enc_items ?nf ?kf 0 J"
      by (rule enc_items_ext [OF ext, of J lib I]) (use okI I in auto)
    moreover have "concat (map (enc_tag ?nf') (hi_tags it)) = concat (map (enc_tag ?nf) (hi_tags it))"
      by (rule arg_cong [where f = concat])
        (use okI I names_ext_off [OF ext] in \<open>auto simp: item_ok_def tag_ok_def intro!: enc_tag_cong\<close>)
    moreover have "?nf' (hi_kind it) = ?nf (hi_kind it)" "?nf' (hi_name it) = ?nf (hi_name it)"
      using okI I names_ext_off [OF ext] by (auto simp: item_ok_def)
    moreover have "enc_tag ?nf' (blank_tag ti) = le16 (of_nat (unat (ti_size ti) div 4)) @ le16 (of_nat (?nf' (ti_name ti))) @
       replicate (unat (ti_size ti) - 4) 0"
      by (simp add: enc_tag_def tl) (simp add: blank_tag_def)
    moreover have "(of_nat (item_len ?it div 4) :: u16) = of_nat (item_len it div 4) + of_nat (unat (ti_size ti) div 4)"
      by (simp flip: words)
    ultimately show ?thesis
      by (simp add: kids_push sect' enc_items_append enc_item_def I) (simp add: head_len_def)
  qed
  have "item_ok lib ns' (J @ [?it]) x" if "x \<in> set (J @ [?it])" for x
  proof -
    have "\<forall>y \<in> set I. item_ok lib ns' I y" using item_ok_ext [OF ext] okI by blast
    moreover have "tag_ok ns' (blank_tag ti)"
      using ti names_ext_add(2) [of "ti_name ti" ns] by (auto simp: tag_ok_def blank_tag_def tag_info_ok_def ns'_def)
    ultimately show ?thesis using that by (auto simp: I item_ok_def places_push)
  qed
  moreover have "hwi_offset s' = of_nat (total_len (J @ [?it]))" "hwi_last_item s' = of_nat (total_len (butlast (J @ [?it])))"
    using s' rep total_len_push [OF ne, of "blank_tag ti"] by (simp_all add: hw_rep_def I tl)
  moreover have "8 \<le> z' \<and> sp_hwinfo s' = enc_items ?nf' (kids_of lib (J @ [?it])) 0 (J @ [?it]) @ replicate z' 0"
    using enc z z' by simp
  ultimately have "hw_rep lib ns' (J @ [?it]) s'"
    using s'(1,2) unfolding hw_rep_def by blast
  then show ?thesis using tag s'(5) by (simp add: I ns'_def)
qed

text \<open>Writing fields into a structure that lies between \<open>P\<close> and \<open>Z\<close>.\<close>

definition write_fields :: "(nat \<times> u8 list) list \<Rightarrow> u8 list \<Rightarrow> u8 list" where
  "write_fields fs B = fold (\<lambda>(off, bs). put_at off bs) fs B"

definition fields_in :: "nat \<Rightarrow> nat \<Rightarrow> (nat \<times> u8 list) list \<Rightarrow> bool" where
  "fields_in lo hi fs \<longleftrightarrow> (\<forall>(off, bs) \<in> set fs. lo \<le> off \<and> off + length bs \<le> hi)"

lemma length_put_at [simp]: "at + length bs \<le> length xs \<Longrightarrow> length (put_at at bs xs) = length xs"
  by (simp add: put_at_def)

lemma put_at_inside:
  "at + length bs \<le> length B \<Longrightarrow> put_at (length P + at) bs (P @ B @ Z) = P @ put_at at bs B @ Z"
  by (simp add: put_at_def)

lemma poke_inside:
  assumes "sp_hwinfo s = P @ B @ Z" and "at + length bs \<le> length B"
  shows "poke (length P + at) bs s = Inr ((), s\<lparr>sp_hwinfo := P @ put_at at bs B @ Z\<rparr>)"
  using assms by (simp add: poke_def put_at_inside)

lemma set_fields_inside:
  assumes "sp_hwinfo s = P @ B @ Z" and "fields_in lo (length B) fs"
  shows "set_fields (length P) fs s = Inr ((), s\<lparr>sp_hwinfo := P @ write_fields fs B @ Z\<rparr>)"
  using assms
proof (induction fs arbitrary: s B)
  case (Cons f fs)
  obtain off bs where f: "f = (off, bs)" by (cases f)
  define s1 where "s1 = s\<lparr>sp_hwinfo := P @ put_at off bs B @ Z\<rparr>"
  have p: "poke (length P + off) bs s = Inr ((), s1)"
    unfolding s1_def by (rule poke_inside [OF Cons.prems(1)]) (use Cons.prems(2) f in \<open>auto simp: fields_in_def\<close>)
  have "set_fields (length P) fs s1 = Inr ((), s1\<lparr>sp_hwinfo := P @ write_fields fs (put_at off bs B) @ Z\<rparr>)"
    by (rule Cons.IH) (use Cons.prems(2) f in \<open>auto simp: s1_def fields_in_def\<close>)
  then show ?case by (simp add: f hthen_def hbind_def p write_fields_def) (simp add: s1_def)
qed (auto simp: write_fields_def)

lemma length_write_fields [simp]: "fields_in lo (length B) fs \<Longrightarrow> length (write_fields fs B) = length B"
  by (induction fs arbitrary: B) (auto simp: write_fields_def fields_in_def)

lemma write_fields_behind:
  "fields_in (length H) (length H + length B) fs \<Longrightarrow>
    write_fields fs (H @ B) = H @ write_fields (map (\<lambda>(off, bs). (off - length H, bs)) fs) B"
proof (induction fs arbitrary: B)
  case (Cons f fs)
  obtain off bs where f: "f = (off, bs)" by (cases f)
  have "put_at off bs (H @ B) = H @ put_at (off - length H) bs B"
    using Cons.prems f put_at_inside [of "off - length H" bs B H "[]"] by (auto simp: fields_in_def)
  with Cons show ?case by (auto simp: f write_fields_def fields_in_def)
qed (simp add: write_fields_def)

definition filled_tag :: "tag_info \<Rightarrow> (nat \<times> u8 list) list \<Rightarrow> htag" where
  "filled_tag ti fs = \<lparr>ht_name = ti_name ti,
     ht_body = write_fields (map (\<lambda>(off, bs). (off - 4, bs)) fs) (replicate (unat (ti_size ti) - 4) 0)\<rparr>"

lemma fields_in_map: "fields_in lo hi fs \<Longrightarrow> lo = d \<Longrightarrow> fields_in 0 (hi - d) (map (\<lambda>(off, bs). (off - d, bs)) fs)"
  by (fastforce simp: fields_in_def)

text \<open>
  Changing the tags and fields of the last item keeps the representation, as long as no length
  and no name changes.
\<close>

lemma rep_last_fields:
  assumes rep: "hw_rep lib ns (J @ [it]) s" and same: "hi_kind it' = hi_kind it" "hi_name it' = hi_name it"
      "hi_owner it' = hi_owner it" "item_len it' = item_len it"
    and ok: "item_ok lib ns (J @ [it]) it'"
    and s': "\<And>z. sp_hwinfo s = enc_items (pool_off ns) (kids_of lib (J @ [it])) 0 (J @ [it]) @ replicate z 0 \<Longrightarrow>
      s' = s\<lparr>sp_hwinfo := enc_items (pool_off ns) (kids_of lib (J @ [it])) 0 (J @ [it']) @ replicate z 0\<rparr>"
  shows "hw_rep lib ns (J @ [it']) s'"
proof -
  obtain z where z: "8 \<le> z" "sp_hwinfo s = enc_items (pool_off ns) (kids_of lib (J @ [it])) 0 (J @ [it]) @ replicate z 0"
    using rep by (auto simp: hw_rep_def)
  have k: "kids_of lib (J @ [it']) = kids_of lib (J @ [it])" by (simp add: kids_of_def fun_eq_iff same)
  have pl: "item_places 0 (J @ [it']) = item_places 0 (J @ [it])" by (simp add: item_places_append)
  have "room s'" using rep z(2) s' [OF z(2)] same(4) by (auto simp: hw_rep_def room_def)
  moreover have "\<forall>x \<in> set (J @ [it']). item_ok lib ns (J @ [it']) x"
    using rep ok by (auto simp: hw_rep_def item_ok_def pl)
  ultimately show ?thesis
    using rep z s' [OF z(2)] same(4) by (auto simp: hw_rep_def k pool_inv_def)
qed

lemma length_filled [simp]:
  "fields_in 4 n fs \<Longrightarrow> length (write_fields (map (\<lambda>(off, bs). (off - 4, bs)) fs) (replicate (n - 4) 0)) = n - 4"
  using length_write_fields [of 0 "replicate (n - 4) 0" "map (\<lambda>(off, bs). (off - 4, bs)) fs"]
    fields_in_map [of 4 n fs 4] by simp

lemma tag_len_filled [simp]: "fields_in 4 (unat (ti_size ti)) fs \<Longrightarrow> tag_len (filled_tag ti fs) = tag_len (blank_tag ti)"
  by (simp add: tag_len_def filled_tag_def blank_tag_def)

lemma enc_tag_filled:
  assumes "fields_in 4 (unat (ti_size ti)) fs" and "4 \<le> unat (ti_size ti)"
  shows "write_fields fs (enc_tag nf (blank_tag ti)) = enc_tag nf (filled_tag ti fs)"
proof -
  let ?H = "le16 (of_nat (tag_len (blank_tag ti) div 4)) @ le16 (of_nat (nf (ti_name ti)))"
  have "write_fields fs (?H @ ht_body (blank_tag ti)) =
      ?H @ write_fields (map (\<lambda>(off, bs). (off - length ?H, bs)) fs) (ht_body (blank_tag ti))"
    by (rule write_fields_behind) (use assms in \<open>simp add: blank_tag_def\<close>)
  then show ?thesis
    by (simp add: enc_tag_def tag_len_filled [OF assms(1)]) (simp add: filled_tag_def blank_tag_def)
qed

lemma set_fields_tag:
  assumes rep: "hw_rep lib ns (push_tag (blank_tag ti) I) s" and ne: "I \<noteq> []" and ti: "tag_info_ok ti"
    and fs: "fields_in 4 (unat (ti_size ti)) fs" and run: "set_fields (total_len I) fs s = Inr ((), s')"
  shows "hw_rep lib ns (push_tag (filled_tag ti fs) I) s' \<and> sp_asinfo s' = sp_asinfo s"
proof -
  obtain J it where I: "I = J @ [it]" using ne by (cases I rule: rev_cases) auto
  let ?old = "it\<lparr>hi_tags := hi_tags it @ [blank_tag ti]\<rparr>" and ?new = "it\<lparr>hi_tags := hi_tags it @ [filled_tag ti fs]\<rparr>"
  let ?nf = "pool_off ns" and ?kf = "kids_of lib (J @ [?old])"
  have sz: "4 \<le> unat (ti_size ti)" using ti by (simp add: tag_info_ok_def)
  have il: "item_len ?new = item_len ?old"
    using fs by (simp add: item_len_def head_len_def)
  let ?P = "enc_items ?nf ?kf 0 J @
      (le16 (of_nat (head_len it div 4)) @ le16 (of_nat (?nf (hi_kind it)))) @ le16 (of_nat (item_len ?old div 4)) @
      (le16 (of_nat (?nf (hi_name it))) @ le16 (hi_owner it)) @ le16 (of_nat (?kf (total_len J))) @
      hi_body it @ concat (map (enc_tag ?nf) (hi_tags it))"
  have P: "length ?P = total_len I"
    by (simp add: I item_len_def head_len_def length_concat comp_def)
  have old: "enc_items ?nf ?kf 0 (J @ [?old]) = ?P @ enc_tag ?nf (blank_tag ti)"
    by (simp add: enc_items_append enc_item_def head_len_def)
  have new: "enc_items ?nf ?kf 0 (J @ [?new]) = ?P @ enc_tag ?nf (filled_tag ti fs)"
    by (simp add: enc_items_append enc_item_def il) (simp add: head_len_def)
  have len: "length (enc_tag ?nf (blank_tag ti)) = unat (ti_size ti)"
    using sz by (simp add: tag_len_def blank_tag_def)
  have s': "s' = s\<lparr>sp_hwinfo := enc_items ?nf ?kf 0 (J @ [?new]) @ replicate z 0\<rparr>"
    if "sp_hwinfo s = enc_items ?nf ?kf 0 (J @ [?old]) @ replicate z 0" for z
  proof -
    have "sp_hwinfo s = ?P @ enc_tag ?nf (blank_tag ti) @ replicate z 0" using that old by simp
    then have "set_fields (length ?P) fs s =
        Inr ((), s\<lparr>sp_hwinfo := ?P @ write_fields fs (enc_tag ?nf (blank_tag ti)) @ replicate z 0\<rparr>)"
      by (rule set_fields_inside [where lo = 4]) (use fs len in simp)
    then show ?thesis using run P by (simp add: enc_tag_filled [OF fs sz] new)
  qed
  have "item_ok lib ns (J @ [?old]) ?old" using rep by (simp add: I hw_rep_def)
  then have "item_ok lib ns (J @ [?old]) ?new"
    using fs by (auto simp: item_ok_def tag_ok_def filled_tag_def blank_tag_def)
  then have "hw_rep lib ns (J @ [?new]) s'"
    using rep_last_fields [of lib ns J ?old s ?new s'] rep il s' by (simp add: I)
  moreover have "sp_asinfo s' = sp_asinfo s" using rep s' by (auto simp: hw_rep_def I)
  ultimately show ?thesis by (simp add: I)
qed

text \<open>\<open>add_tag\<close> and what it amounts to on the list: a pad where the tag must be aligned, and the tag.\<close>

definition pad_tag :: htag where
  "pad_tag = \<lparr>ht_name = ''pad'', ht_body = []\<rparr>"

definition place_tag :: "tag_info \<times> (nat \<times> u8 list) list \<Rightarrow> hitem list \<Rightarrow> hitem list" where
  "place_tag tf I = push_tag (filled_tag (fst tf) (snd tf))
     (if ti_align (fst tf) = 8 \<and> \<not> 8 dvd total_len I then push_tag pad_tag I else I)"

lemma place_tag_not_Nil [simp]: "place_tag tf I \<noteq> []"
  by (simp add: place_tag_def)

lemma blank_pad: "blank_tag TAG_pad = pad_tag"
  by (simp add: blank_tag_def pad_tag_def tag_kinds)

lemma pad_info_ok: "tag_info_ok TAG_pad"
  by (simp add: tag_info_ok_def tag_kinds valid_name_def)

lemma alloc_tag_rep:
  assumes rep: "hw_rep lib ns I s" and ne: "I \<noteq> []" and ti: "tag_info_ok ti"
    and run: "hwi_alloc_tag ti s = Inr (tag, s')"
  shows "let I1 = if ti_align ti = 8 \<and> \<not> 8 dvd total_len I then push_tag pad_tag I else I
    in tag = total_len I1 \<and> sp_asinfo s' = sp_asinfo s \<and>
      (\<exists>ns'. names_ext ns ns' \<and> hw_rep lib ns' (push_tag (blank_tag ti) I1) s')"
proof (cases "ti_align ti = 8 \<and> \<not> 8 dvd total_len I")
  case True
  then obtain t1 s1 where p: "append_tag TAG_pad s = Inr (t1, s1)" and a: "append_tag ti s1 = Inr (tag, s')"
    using run alloc_tag8 [OF rep_place_ok [OF rep]] rep_offset [OF rep] by (auto simp: hbind_Inr)
  have r1: "hw_rep lib (pool_add ns ''pad'') (push_tag pad_tag I) s1" "sp_asinfo s1 = sp_asinfo s"
    using append_tag_rep [OF rep ne pad_info_ok p] by (simp_all add: blank_pad) (simp_all add: tag_kinds)
  from append_tag_rep [OF r1(1) _ ti a] show ?thesis
    using True r1(2) names_ext_trans [OF names_ext_add(1) names_ext_add(1)] by (auto simp: Let_def)
next
  case False
  then have "append_tag ti s = Inr (tag, s')"
    using run ti alloc_tag4 [OF rep_place_ok [OF rep]] alloc_tag8 [OF rep_place_ok [OF rep]] rep_offset [OF rep]
    by (auto simp: tag_info_ok_def)
  from append_tag_rep [OF rep ne ti this] show ?thesis using False names_ext_add(1) by (auto simp: Let_def)
qed

lemma add_tag_rep:
  assumes rep: "hw_rep lib ns I s" and ne: "I \<noteq> []" and ti: "tag_info_ok ti"
    and fs: "fields_in 4 (unat (ti_size ti)) fs" and run: "add_tag ti fs s = Inr ((), s')"
  shows "sp_asinfo s' = sp_asinfo s \<and> (\<exists>ns'. names_ext ns ns' \<and> hw_rep lib ns' (place_tag (ti, fs) I) s')"
proof -
  obtain tag s1 where a: "hwi_alloc_tag ti s = Inr (tag, s1)" and f: "set_fields tag fs s1 = Inr ((), s')"
    using run by (auto simp: add_tag_def hbind_Inr)
  define I1 where "I1 = (if ti_align ti = 8 \<and> \<not> 8 dvd total_len I then push_tag pad_tag I else I)"
  obtain ns' where r: "tag = total_len I1" "sp_asinfo s1 = sp_asinfo s" "names_ext ns ns'"
    "hw_rep lib ns' (push_tag (blank_tag ti) I1) s1"
    using alloc_tag_rep [OF rep ne ti a] by (auto simp: Let_def I1_def)
  have "I1 \<noteq> []" using ne by (simp add: I1_def)
  from set_fields_tag [OF r(4) this ti fs] f r show ?thesis
    by (auto simp: place_tag_def I1_def)
qed

end
