(* ===== verification/HwiDevices.thy ===== *)
theory HwiDevices
  imports HwinfoSpec
begin

section \<open>Devices and buses of the hardware information section\<close>

text \<open>
  What the functions of \<open>hwitag_add_*.c\<close>, \<open>hwidev_add_*.c\<close> and \<open>hwibus_add_*.c\<close> do to
  the abstract list of items: a code that only adds tags to the last item is described by the list
  of tags it adds (\<open>adds\<close>), and adding a device of any kind appends its item with the tags of
  that kind.
\<close>

subsection \<open>Code that adds tags\<close>

type_synonym tag_spec = "tag_info \<times> (nat \<times> u8 list) list"

text \<open>
  \<open>adds m T N\<close>: where there is an item, \<open>m\<close> enters the names \<open>N\<close> and adds the
  tags \<open>T nf\<close> to the last item, \<open>nf\<close> being the offsets of the names.
\<close>

definition adds :: "unit hw \<Rightarrow> ((string \<Rightarrow> nat) \<Rightarrow> tag_spec list) \<Rightarrow> string set \<Rightarrow> bool" where
  "adds m T N \<longleftrightarrow>
     (\<forall>nf nf'. (\<forall>n \<in> N. nf n = nf' n) \<longrightarrow> T nf = T nf') \<and>
     (\<forall>lib ns I s s'. hw_rep lib ns I s \<longrightarrow> I \<noteq> [] \<longrightarrow> m s = Inr ((), s') \<longrightarrow>
        sp_asinfo s' = sp_asinfo s \<and>
        (\<exists>ns'. names_ext ns ns' \<and> N \<subseteq> set ns' \<and> hw_rep lib ns' (fold place_tag (T (pool_off ns')) I) s'))"

lemma adds_congD:
  assumes "adds m T N" and "\<And>n. n \<in> N \<Longrightarrow> nf n = nf' n"
  shows "T nf = T nf'"
proof -
  have "\<forall>nf nf'. (\<forall>n \<in> N. nf n = nf' n) \<longrightarrow> T nf = T nf'" using assms(1) unfolding adds_def by (rule conjunct1)
  then have "(\<forall>n \<in> N. nf n = nf' n) \<longrightarrow> T nf = T nf'" by (elim allE)
  then show ?thesis using assms(2) by simp
qed

lemma adds_runD:
  assumes "adds m T N" and "hw_rep lib ns I s" and "I \<noteq> []" and "m s = Inr ((), s')"
  obtains ns' where "sp_asinfo s' = sp_asinfo s" "names_ext ns ns'" "N \<subseteq> set ns'"
    "hw_rep lib ns' (fold place_tag (T (pool_off ns')) I) s'"
proof -
  have "\<forall>lib ns I s s'. hw_rep lib ns I s \<longrightarrow> I \<noteq> [] \<longrightarrow> m s = Inr ((), s') \<longrightarrow>
        sp_asinfo s' = sp_asinfo s \<and>
        (\<exists>ns'. names_ext ns ns' \<and> N \<subseteq> set ns' \<and> hw_rep lib ns' (fold place_tag (T (pool_off ns')) I) s')"
    using assms(1) unfolding adds_def by (rule conjunct2)
  from this [rule_format, OF assms(2-4)] show ?thesis using that by blast
qed

named_theorems adds_rules "code that adds tags, one rule for each operation"

lemma fold_place_not_Nil: "I \<noteq> [] \<Longrightarrow> fold place_tag ts I \<noteq> []"
  by (induction ts arbitrary: I) auto

lemma adds_ret [adds_rules]: "adds (hret ()) (\<lambda>_. []) {}"
  by (auto simp: adds_def intro: names_ext_refl)

lemma adds_tag [adds_rules]:
  assumes ti: "tag_info_ok ti" and fs: "fields_in 4 (unat (ti_size ti)) fs"
  shows "adds (add_tag ti fs) (\<lambda>_. [(ti, fs)]) {}"
  unfolding adds_def
proof (intro conjI allI impI)
  fix lib ns I s s'
  assume rep: "hw_rep lib ns I s" and ne: "I \<noteq> []" and run: "add_tag ti fs s = Inr ((), s')"
  obtain ns' where n: "sp_asinfo s' = sp_asinfo s" "names_ext ns ns'" "hw_rep lib ns' (place_tag (ti, fs) I) s'"
    using add_tag_rep [OF rep ne ti fs run] by blast
  show "sp_asinfo s' = sp_asinfo s" by (rule n)
  show "\<exists>ns'. names_ext ns ns' \<and> {} \<subseteq> set ns' \<and> hw_rep lib ns' (fold place_tag [(ti, fs)] I) s'"
    by (rule exI [of _ ns']) (use n in simp)
qed (rule refl)

lemma adds_then [adds_rules]:
  assumes m1: "adds m1 T1 N1" and m2: "adds m2 T2 N2"
  shows "adds (hthen m1 m2) (\<lambda>nf. T1 nf @ T2 nf) (N1 \<union> N2)"
  unfolding adds_def
proof (intro conjI allI impI)
  fix nf nf' :: "string \<Rightarrow> nat"
  assume n: "\<forall>n \<in> N1 \<union> N2. nf n = nf' n"
  have "T1 nf = T1 nf'" by (rule adds_congD [OF m1]) (use n in simp)
  moreover have "T2 nf = T2 nf'" by (rule adds_congD [OF m2]) (use n in simp)
  ultimately show "T1 nf @ T2 nf = T1 nf' @ T2 nf'" by simp
next
  fix lib ns I s s'
  assume rep: "hw_rep lib ns I s" and ne: "I \<noteq> []" and "hthen m1 m2 s = Inr ((), s')"
  then obtain s1 where 1: "m1 s = Inr ((), s1)" and 2: "m2 s1 = Inr ((), s')" by (auto simp: hthen_Inr)
  obtain ns1 where n1: "sp_asinfo s1 = sp_asinfo s" "names_ext ns ns1" "N1 \<subseteq> set ns1"
    "hw_rep lib ns1 (fold place_tag (T1 (pool_off ns1)) I) s1"
    by (rule adds_runD [OF m1 rep ne 1])
  obtain ns2 where n2: "sp_asinfo s' = sp_asinfo s1" "names_ext ns1 ns2" "N2 \<subseteq> set ns2"
    "hw_rep lib ns2 (fold place_tag (T2 (pool_off ns2)) (fold place_tag (T1 (pool_off ns1)) I)) s'"
    by (rule adds_runD [OF m2 n1(4) fold_place_not_Nil [OF ne] 2])
  have "T1 (pool_off ns1) = T1 (pool_off ns2)"
    by (rule adds_congD [OF m1]) (use n1(3) names_ext_off [OF n2(2)] in auto)
  then have rep2: "hw_rep lib ns2 (fold place_tag (T1 (pool_off ns2) @ T2 (pool_off ns2)) I) s'"
    using n2(4) by simp
  show "sp_asinfo s' = sp_asinfo s" using n1(1) n2(1) by simp
  have "N1 \<union> N2 \<subseteq> set ns2" using n1(3) n2(3) names_ext_off [OF n2(2)] by auto
  then show "\<exists>ns'. names_ext ns ns' \<and> N1 \<union> N2 \<subseteq> set ns' \<and> hw_rep lib ns' (fold place_tag (T1 (pool_off ns') @ T2 (pool_off ns')) I) s'"
    using rep2 names_ext_trans [OF n1(2) n2(2)] by blast
qed

lemma adds_for_each [adds_rules]:
  assumes "\<And>x. x \<in> set xs \<Longrightarrow> adds (f x) (\<lambda>_. T x) {}"
  shows "adds (for_each xs f) (\<lambda>_. concat (map T xs)) {}"
  using assms
proof (induction xs)
  case (Cons x xs)
  have "adds (hthen (f x) (for_each xs f)) (\<lambda>_. T x @ concat (map T xs)) ({} \<union> {})"
    using Cons by (intro adds_then) auto
  then show ?case by simp
qed (simp add: adds_ret)

lemma concat_same: "concat (map (\<lambda>_. [t]) [0..<n]) = replicate n t"
  by (induction n) (simp_all add: replicate_append_same)

lemma adds_times [adds_rules]:
  "adds m (\<lambda>_. [t]) {} \<Longrightarrow> adds (times n m) (\<lambda>_. replicate (unat n) t) {}"
  using adds_for_each [of "[0..<unat n]" "\<lambda>_. m" "\<lambda>_. [t]"] by (simp only: concat_same)

text \<open>Code that enters a name first and writes its offset into the tag.\<close>

lemma adds_named [adds_rules]:
  assumes "valid_name n" and "\<And>idx. adds (m idx) (\<lambda>_. T idx) {}"
  shows "adds (hbind (add_string n) m) (\<lambda>nf. T (nf n)) {n}"
  unfolding adds_def
proof (intro conjI allI impI)
  fix lib ns I s s'
  assume rep: "hw_rep lib ns I s" and ne: "I \<noteq> []" and "hbind (add_string n) m s = Inr ((), s')"
  then obtain off s1 where a: "add_string n s = Inr (off, s1)" and r: "m off s1 = Inr ((), s')"
    by (auto simp: hbind_Inr)
  note r1 = rep_add_string [OF rep a assms(1)]
  obtain ns' where n: "sp_asinfo s' = sp_asinfo s1" "names_ext (pool_add ns n) ns'" "{} \<subseteq> set ns'"
    "hw_rep lib ns' (fold place_tag (T off) I) s'"
    by (rule adds_runD [OF assms(2) r1(1) ne r])
  have "n \<in> set ns'" "pool_off ns' n = off"
    using names_ext_off [OF n(2) names_ext_add(2)] r1(2) by simp_all
  then show "sp_asinfo s' = sp_asinfo s"
    "\<exists>ns'. names_ext ns ns' \<and> {n} \<subseteq> set ns' \<and> hw_rep lib ns' (fold place_tag (T (pool_off ns' n)) I) s'"
    using n r1(3) names_ext_trans [OF names_ext_add(1) n(2)] by auto
qed auto

lemma adds_if [adds_rules]:
  "adds m1 T1 N \<Longrightarrow> adds m2 T2 N \<Longrightarrow> adds (if b then m1 else m2) (\<lambda>nf. if b then T1 nf else T2 nf) N"
  by (cases b) simp_all

subsection \<open>The tags each function adds\<close>

lemma infos_ok [simp]:
  "tag_info_ok TAG_location" "tag_info_ok TAG_irq" "tag_info_ok TAG_irqrange" "tag_info_ok TAG_regname"
  "tag_info_ok TAG_inputclk" "tag_info_ok TAG_nicphyaddr" "tag_info_ok TAG_busattr" "tag_info_ok TAG_optstr"
  "tag_info_ok TAG_dll" "tag_info_ok TAG_errata" "tag_info_ok TAG_nanospin" "tag_info_ok (TAG_nicaddr 16)"
  by (simp_all add: tag_info_ok_def tag_kinds valid_name_def)

lemma fields_in_simps [simp]:
  "fields_in lo hi []"
  "fields_in lo hi ((off, bs) # fs) \<longleftrightarrow> lo \<le> off \<and> off + length bs \<le> hi \<and> fields_in lo hi fs"
  by (auto simp: fields_in_def)

lemma info_sizes [simp]:
  "ti_size TAG_location = 24" "ti_size TAG_irq = 8" "ti_size TAG_irqrange = 12" "ti_size TAG_regname = 8"
  "ti_size TAG_inputclk = 12" "ti_size TAG_nicphyaddr = 8" "ti_size TAG_busattr = 32" "ti_size TAG_optstr = 8"
  "ti_size TAG_dll = 8" "ti_size TAG_errata = 8" "ti_size TAG_nanospin = 12" "ti_size (TAG_nicaddr n) = n"
  by (simp_all add: tag_kinds)

definition location_spec :: "u32 \<Rightarrow> u32 \<Rightarrow> u32 \<Rightarrow> u32 \<Rightarrow> tag_spec" where
  "location_spec base len rs as = (TAG_location,
     [(8, le64l (ucast base)), (4, le32l len), (16, le16 (ucast rs)), (18, le16 (ucast as))])"

definition irq_spec :: "u32 \<Rightarrow> tag_spec" where
  "irq_spec v = (TAG_irq, [(4, le32l v)])"

definition irqrange_spec :: "u32 \<Rightarrow> u32 \<Rightarrow> tag_spec" where
  "irqrange_spec v n = (TAG_irqrange, [(4, le32l v), (8, le16 (ucast n))])"

definition inputclk_spec :: "u32 \<Rightarrow> u32 \<Rightarrow> tag_spec" where
  "inputclk_spec c d = (TAG_inputclk, [(4, le32l c), (8, le32l d)])"

definition nicphyaddr_spec :: "u32 \<Rightarrow> tag_spec" where
  "nicphyaddr_spec a = (TAG_nicphyaddr, [(4, le32l a)])"

definition busattr_spec :: tag_spec where
  "busattr_spec = (TAG_busattr, [(16, le32l 0), (20, le16 0), (8, le64l 0), (4, le32l 0)])"

definition errata_spec :: "u32 \<Rightarrow> tag_spec" where
  "errata_spec n = (TAG_errata, [(4, le32l n)])"

definition name_spec :: "tag_info \<Rightarrow> nat \<Rightarrow> tag_spec" where
  "name_spec ti off = (ti, [(4, le32l (of_nat off))])"

definition regname_spec :: "nat \<Rightarrow> u32 \<Rightarrow> tag_spec" where
  "regname_spec off r = (TAG_regname, [(4, le16 (of_nat off)), (6, le16 (ucast r))])"

definition mac_spec :: "u8 list \<Rightarrow> tag_spec" where
  "mac_spec mac = (TAG_nicaddr 16, [(4, le32l 6), (8, take 6 mac)])"

lemmas tag_specs = location_spec_def irq_spec_def irqrange_spec_def inputclk_spec_def nicphyaddr_spec_def
  busattr_spec_def errata_spec_def name_spec_def regname_spec_def mac_spec_def

lemma adds_tags [adds_rules]:
  "adds (hwitag_add_location base len rs as) (\<lambda>_. [location_spec base len rs as]) {}"
  "adds (hwitag_add_irq v) (\<lambda>_. [irq_spec v]) {}"
  "adds (hwitag_add_irqrange v n) (\<lambda>_. [irqrange_spec v n]) {}"
  "adds (hwitag_add_inputclk c d) (\<lambda>_. [inputclk_spec c d]) {}"
  "adds (hwitag_add_nicphyaddr a) (\<lambda>_. [nicphyaddr_spec a]) {}"
  "adds (hwitag_add_busattr None) (\<lambda>_. [busattr_spec]) {}"
  "adds (hwitag_add_errata n) (\<lambda>_. [errata_spec n]) {}"
  unfolding hwitag_add_location_def hwitag_add_irq_def hwitag_add_irqrange_def hwitag_add_inputclk_def
    hwitag_add_nicphyaddr_def hwitag_add_busattr_def hwitag_add_errata_def tag_specs option.case
  by (rule adds_tag; simp)+

lemma adds_names [adds_rules]:
  "valid_name d \<Longrightarrow> adds (hwitag_add_dll d) (\<lambda>nf. [name_spec TAG_dll (nf d)]) {d}"
  "valid_name d \<Longrightarrow> adds (hwitag_add_optstr d) (\<lambda>nf. [name_spec TAG_optstr (nf d)]) {d}"
  "valid_name d \<Longrightarrow> adds (hwitag_add_regname d r) (\<lambda>nf. [regname_spec (nf d) r]) {d}"
  unfolding hwitag_add_dll_def hwitag_add_optstr_def hwitag_add_regname_def tag_specs
  by (rule adds_named; (assumption | rule adds_tag; simp))+

lemma hthen_hret_right [simp]: "hthen m (hret ()) s = m s"
  by (auto simp: hthen_def hbind_def hret_def split: sum.splits prod.splits)

lemma mac_code:
  assumes "length mac = 6"
  shows "hwitag_add_nicaddr mac 6 = add_tag (TAG_nicaddr 16) [(4, le32l 6), (8, take 6 mac)]"
proof -
  have "ROUND (8 + 6) 4 = (16 :: u32)" by (simp add: ROUND_def TRUNC_def)
  then show ?thesis
    using assms by (auto simp: hwitag_add_nicaddr_def add_tag_def fun_eq_iff hthen_def hbind_def hret_def split: sum.splits)
qed

lemma adds_mac [adds_rules]:
  assumes "length mac = 6"
  shows "adds (hwitag_add_nicaddr mac 6) (\<lambda>_. [mac_spec mac]) {}"
  unfolding mac_code [OF assms] mac_spec_def by (rule adds_tag) (use assms in simp_all)

lemma adds_option [adds_rules]:
  assumes "\<And>x. r = Some x \<Longrightarrow> adds (f x) (\<lambda>nf. T nf x) {x}"
  shows "adds (case r of Some x \<Rightarrow> f x | None \<Rightarrow> hret ()) (\<lambda>nf. case r of Some x \<Rightarrow> T nf x | None \<Rightarrow> []) (set_option r)"
  using assms adds_ret by (cases r) auto

definition common_tags :: "(string \<Rightarrow> nat) \<Rightarrow> hwiattr_common \<Rightarrow> tag_spec list" where
  "common_tags nf a =
     [location_spec (ucast (loc_base a)) (loc_len a) (ucast (loc_regshift a)) (ucast (loc_addrspace a))] @
     replicate (unat (at_num_irq a)) (irq_spec HWI_ILLEGAL_VECTOR) @
     (case at_dll a of Some d \<Rightarrow> [name_spec TAG_dll (nf d)] | None \<Rightarrow> []) @
     (case at_optstr a of Some d \<Rightarrow> [name_spec TAG_optstr (nf d)] | None \<Rightarrow> []) @
     replicate (unat (at_num_errata a)) (errata_spec 0)"

definition common_names :: "hwiattr_common \<Rightarrow> string set" where
  "common_names a = set_option (at_dll a) \<union> set_option (at_optstr a)"

lemma adds_common [adds_rules]:
  assumes "\<forall>n \<in> common_names a. valid_name n"
  shows "adds (hwitag_add_common a) (\<lambda>nf. common_tags nf a) (common_names a)"
proof -
  have "adds (hwitag_add_common a) (\<lambda>nf. common_tags nf a)
      ({} \<union> ({} \<union> (set_option (at_dll a) \<union> (set_option (at_optstr a) \<union> {}))))"
    unfolding hwitag_add_common_def common_tags_def
    by (intro adds_then adds_tags adds_times adds_option adds_names) (use assms in \<open>simp_all add: common_names_def\<close>)
  then show ?thesis by (simp add: common_names_def)
qed

subsection \<open>The kinds of devices and buses\<close>

text \<open>A device or bus to be added, with its attributes; one constructor for each function.\<close>

datatype hw_dev =
    Uart string hwiattr_uart
  | Enet string hwiattr_enet
  | Rtc_dev string hwiattr_rtc
  | Dma string hwiattr_common
  | Timer string hwiattr_timer
  | I2c_bus hwiattr_i2c
  | Spi_bus hwiattr_spi
  | Usb_bus hwiattr_common
  | Pci_bus hwiattr_pci
  | Can_bus hwiattr_can

fun add_dev :: "hwi_lib \<Rightarrow> hw_dev \<Rightarrow> u32 \<Rightarrow> u32 hw" where
  "add_dev lib (Uart n a) bus = hwidev_add_uart lib n (Some a) bus"
| "add_dev lib (Enet n a) bus = hwidev_add_enet lib n (Some a) bus"
| "add_dev lib (Rtc_dev n a) bus = hwidev_add_rtc lib n (Some a) bus"
| "add_dev lib (Dma n a) bus = hwidev_add_dma lib n (Some a) bus"
| "add_dev lib (Timer n a) bus = hwidev_add_timer lib n (Some a) bus"
| "add_dev lib (I2c_bus a) bus = hwibus_add_i2c lib bus (Some a)"
| "add_dev lib (Spi_bus a) bus = hwibus_add_spi lib bus (Some a)"
| "add_dev lib (Usb_bus a) bus = hwibus_add_usb lib bus (Some a)"
| "add_dev lib (Pci_bus a) bus = hwibus_add_pci lib bus (Some a)"
| "add_dev lib (Can_bus a) bus = hwibus_add_can lib bus (Some a)"

fun dev_code :: "hw_dev \<Rightarrow> unit hw" where
  "dev_code (Uart n a) = uart_tags a"
| "dev_code (Enet n a) = enet_tags a"
| "dev_code (Rtc_dev n a) = rtc_tags a"
| "dev_code (Dma n a) = hwitag_add_common a"
| "dev_code (Timer n a) = timer_tags a"
| "dev_code (I2c_bus a) = i2c_tags a"
| "dev_code (Spi_bus a) = spi_tags a"
| "dev_code (Usb_bus a) = hwitag_add_common a"
| "dev_code (Pci_bus a) = pci_tags a"
| "dev_code (Can_bus a) = can_tags a"

text \<open>The tags of each kind, as \<open>sys/hwinfo.h\<close> lists them for the function.\<close>

fun dev_tags :: "(string \<Rightarrow> nat) \<Rightarrow> hw_dev \<Rightarrow> tag_spec list" where
  "dev_tags nf (Uart n a) = common_tags nf (uart_common a) @ replicate (unat (uart_num_clks a)) (inputclk_spec 0 1)"
| "dev_tags nf (Enet n a) = common_tags nf (enet_common a) @
     concat (map (\<lambda>i. [nicphyaddr_spec (of_nat i)]) [0..<unat (enet_num_phys a)]) @
     replicate (unat (enet_num_clks a)) (inputclk_spec 0 1) @
     (if enet_mac a \<noteq> replicate 6 0 then [mac_spec (enet_mac a)] else [])"
| "dev_tags nf (Rtc_dev n a) = common_tags nf (rtc_common a) @
     (case centreg_name a of Some r \<Rightarrow> [regname_spec (nf r) (ucast (centreg_offset a))] | None \<Rightarrow> [])"
| "dev_tags nf (Dma n a) = common_tags nf a"
| "dev_tags nf (Timer n a) = common_tags nf (timer_common a) @ replicate (unat (timer_num_clks a)) (inputclk_spec 0 1)"
| "dev_tags nf (I2c_bus a) = common_tags nf (i2c_common a) @
     replicate (unat (i2c_num_clks a)) (inputclk_spec 0 1) @ replicate (unat (i2c_num_busattr a)) busattr_spec"
| "dev_tags nf (Spi_bus a) = common_tags nf (spi_common a) @
     replicate (unat (spi_num_clks a)) (inputclk_spec 0 1) @ replicate (unat (spi_num_busattr a)) busattr_spec"
| "dev_tags nf (Usb_bus a) = common_tags nf a"
| "dev_tags nf (Pci_bus a) = common_tags nf (pci_common a) @
     replicate (unat (pci_num_irqblks a)) (irqrange_spec HWI_ILLEGAL_VECTOR 0) @ replicate (unat (pci_num_busattr a)) busattr_spec"
| "dev_tags nf (Can_bus a) = common_tags nf (can_common a) @
     replicate (unat (can_num_clks a)) (inputclk_spec 0 1) @ replicate (unat (can_num_memaddr a)) (location_spec 0 0 0 0)"

fun dev_names :: "hw_dev \<Rightarrow> string set" where
  "dev_names (Uart n a) = common_names (uart_common a)"
| "dev_names (Enet n a) = common_names (enet_common a)"
| "dev_names (Rtc_dev n a) = common_names (rtc_common a) \<union> set_option (centreg_name a)"
| "dev_names (Dma n a) = common_names a"
| "dev_names (Timer n a) = common_names (timer_common a)"
| "dev_names (I2c_bus a) = common_names (i2c_common a)"
| "dev_names (Spi_bus a) = common_names (spi_common a)"
| "dev_names (Usb_bus a) = common_names a"
| "dev_names (Pci_bus a) = common_names (pci_common a)"
| "dev_names (Can_bus a) = common_names (can_common a)"

fun dev_head :: "hw_dev \<Rightarrow> string \<times> string \<times> u8 list" where
  "dev_head (Uart n a) = (''Device'', n, le32l 1)"
| "dev_head (Enet n a) = (''Device'', n, le32l 2)"
| "dev_head (Rtc_dev n a) = (''Device'', n, le32l 3)"
| "dev_head (Dma n a) = (''Device'', n, le32l 4)"
| "dev_head (Timer n a) = (''Device'', n, le32l 7)"
| "dev_head (I2c_bus a) = (''Bus'', ''i2c'', [])"
| "dev_head (Spi_bus a) = (''Bus'', ''spi'', [])"
| "dev_head (Usb_bus a) = (''Bus'', ''usb'', [])"
| "dev_head (Pci_bus a) = (''Bus'', ''pci'', [])"
| "dev_head (Can_bus a) = (''Bus'', ''can'', [])"

definition dev_item :: "hw_dev \<Rightarrow> u32 \<Rightarrow> hitem" where
  "dev_item d owner = (case dev_head d of (kind, name, body) \<Rightarrow>
     \<lparr>hi_kind = kind, hi_name = name, hi_owner = ucast owner, hi_body = body, hi_tags = []\<rparr>)"

text \<open>
  Names are names; the MAC address is the array of six bytes it is in C.
\<close>

definition dev_ok :: "hw_dev \<Rightarrow> bool" where
  "dev_ok d \<longleftrightarrow> valid_name (fst (snd (dev_head d))) \<and> (\<forall>n \<in> dev_names d. valid_name n) \<and>
     (case d of Enet n a \<Rightarrow> length (enet_mac a) = 6 | _ \<Rightarrow> True)"

lemma adds_weaken: "adds m T N \<Longrightarrow> N = N' \<Longrightarrow> adds m T N'"
  by simp

lemma adds_enet:
  assumes "\<forall>n \<in> common_names (enet_common a). valid_name n" and "length (enet_mac a) = 6"
  shows "adds (enet_tags a) (\<lambda>nf. dev_tags nf (Enet n a)) (common_names (enet_common a))"
proof -
  have "adds (if enet_mac a \<noteq> replicate 6 0 then hwitag_add_nicaddr (enet_mac a) 6 else hret ())
      (\<lambda>_. if enet_mac a \<noteq> replicate 6 0 then [mac_spec (enet_mac a)] else []) {}"
    by (rule adds_if) (rule adds_mac [OF assms(2)], rule adds_ret)
  then have "adds (enet_tags a) (\<lambda>nf. dev_tags nf (Enet n a)) (common_names (enet_common a) \<union> ({} \<union> ({} \<union> {})))"
    unfolding enet_tags_def dev_tags.simps
    by (intro adds_then adds_common adds_times adds_for_each adds_tags) (use assms in simp_all)
  then show ?thesis by simp
qed

lemma dev_code_adds:
  assumes "dev_ok d"
  shows "adds (dev_code d) (\<lambda>nf. dev_tags nf d) (dev_names d)"
proof -
  have v: "\<forall>n \<in> dev_names d. valid_name n" using assms by (simp add: dev_ok_def)
  show ?thesis
  proof (cases d)
    case (Uart n a)
    have "adds (uart_tags a) (\<lambda>nf. dev_tags nf (Uart n a)) (common_names (uart_common a) \<union> {})"
      unfolding uart_tags_def dev_tags.simps by (intro adds_then adds_common adds_times adds_tags) (use v Uart in simp)
    then show ?thesis by (simp add: Uart)
  next
    case (Enet n a)
    then show ?thesis using adds_enet [of a n] assms v by (simp add: dev_ok_def)
  next
    case (Rtc_dev n a)
    have "adds (rtc_tags a) (\<lambda>nf. dev_tags nf (Rtc_dev n a)) (common_names (rtc_common a) \<union> set_option (centreg_name a))"
      unfolding rtc_tags_def dev_tags.simps by (intro adds_then adds_common adds_option adds_names) (use v Rtc_dev in auto)
    then show ?thesis by (simp add: Rtc_dev)
  next
    case (Timer n a)
    have "adds (timer_tags a) (\<lambda>nf. dev_tags nf (Timer n a)) (common_names (timer_common a) \<union> {})"
      unfolding timer_tags_def dev_tags.simps by (intro adds_then adds_common adds_times adds_tags) (use v Timer in simp)
    then show ?thesis by (simp add: Timer)
  next
    case (I2c_bus a)
    have "adds (i2c_tags a) (\<lambda>nf. dev_tags nf (I2c_bus a)) (common_names (i2c_common a) \<union> ({} \<union> {}))"
      unfolding i2c_tags_def dev_tags.simps by (intro adds_then adds_common adds_times adds_tags) (use v I2c_bus in simp)
    then show ?thesis by (simp add: I2c_bus)
  next
    case (Spi_bus a)
    have "adds (spi_tags a) (\<lambda>nf. dev_tags nf (Spi_bus a)) (common_names (spi_common a) \<union> ({} \<union> {}))"
      unfolding spi_tags_def dev_tags.simps by (intro adds_then adds_common adds_times adds_tags) (use v Spi_bus in simp)
    then show ?thesis by (simp add: Spi_bus)
  next
    case (Pci_bus a)
    have "adds (pci_tags a) (\<lambda>nf. dev_tags nf (Pci_bus a)) (common_names (pci_common a) \<union> ({} \<union> {}))"
      unfolding pci_tags_def dev_tags.simps by (intro adds_then adds_common adds_times adds_tags) (use v Pci_bus in simp)
    then show ?thesis by (simp add: Pci_bus)
  next
    case (Can_bus a)
    have "adds (can_tags a) (\<lambda>nf. dev_tags nf (Can_bus a)) (common_names (can_common a) \<union> ({} \<union> {}))"
      unfolding can_tags_def dev_tags.simps by (intro adds_then adds_common adds_times adds_tags) (use v Can_bus in simp)
    then show ?thesis by (simp add: Can_bus)
  qed (use v adds_common in auto)
qed

subsection \<open>Adding a device\<close>

lemma item_infos [simp]:
  "item_info TAG_group" "item_info TAG_bus" "item_info TAG_device" "item_info TAG_synonym"
  by (simp_all add: item_info_def tag_kinds valid_name_def)

text \<open>The word behind the item header, written right after the item was made.\<close>

lemma set_item_word:
  assumes rep: "hw_rep lib ns (I @ [new_item ti name owner]) s" and ti: "ti_size ti = 16"
    and run: "set_fields (total_len I) [(12, le32l v)] s = Inr ((), s')"
  shows "hw_rep lib ns (I @ [(new_item ti name owner)\<lparr>hi_body := le32l v\<rparr>]) s' \<and> sp_asinfo s' = sp_asinfo s"
proof -
  let ?N = "new_item ti name owner" let ?N' = "?N\<lparr>hi_body := le32l v\<rparr>"
  let ?nf = "pool_off ns" and ?kf = "kids_of lib (I @ [?N])"
  let ?P = "enc_items ?nf ?kf 0 I @ (le16 (of_nat (head_len ?N div 4)) @ le16 (of_nat (?nf (hi_kind ?N)))) @
     le16 (of_nat (item_len ?N div 4)) @ (le16 (of_nat (?nf (hi_name ?N))) @ le16 (hi_owner ?N)) @ le16 (of_nat (?kf (total_len I)))"
  have len: "head_len ?N' = head_len ?N" "item_len ?N' = item_len ?N" "hi_body ?N = replicate 4 0" "hi_tags ?N = []"
    using ti by (simp_all add: new_item_def head_len_def item_len_def)
  have P: "total_len I + 12 = length ?P" by simp
  have s': "s' = s\<lparr>sp_hwinfo := enc_items ?nf ?kf 0 (I @ [?N']) @ replicate z 0\<rparr>"
    if "sp_hwinfo s = enc_items ?nf ?kf 0 (I @ [?N]) @ replicate z 0" for z
  proof -
    have "sp_hwinfo s = ?P @ replicate 4 0 @ replicate z 0"
      using that len by (simp add: enc_items_append enc_item_def)
    then have "poke (total_len I + 12) (le32l v) s = Inr ((), s\<lparr>sp_hwinfo := ?P @ le32l v @ replicate z 0\<rparr>)"
      by (rule poke_mid [OF _ P [symmetric]]) simp
    moreover have "enc_items ?nf ?kf 0 (I @ [?N']) @ replicate z 0 = ?P @ le32l v @ replicate z 0"
      using len by (simp add: enc_items_append enc_item_def)
    ultimately show ?thesis using run by simp
  qed
  have "item_ok lib ns (I @ [?N]) ?N" using rep by (simp add: hw_rep_def)
  then have "item_ok lib ns (I @ [?N]) ?N'" by (simp add: item_ok_def)
  then have "hw_rep lib ns (I @ [?N']) s'"
    by (intro rep_last_fields [OF rep]) (use len s' in simp_all)
  then show ?thesis using rep s' by (auto simp: hw_rep_def)
qed

definition find_ok :: "hwi_lib \<Rightarrow> hitem list \<Rightarrow> lsp \<Rightarrow> bool" where
  "find_ok lib I s \<longleftrightarrow> (\<forall>start path. owner_ok lib I (hwi_find_item lib start path s))"

lemma device_add_rep:
  assumes lib: "lib_ok lib" and rep: "hw_rep lib ns I s" and v: "valid_name name"
    and bus: "bus \<noteq> HWI_NULL_OFF" "owner_ok lib I bus"
    and run: "hwidev_add lib name pnp bus s = Inr (off, s')"
  shows "off = hwi_tag2off lib (total_len I) \<and> sp_asinfo s' = sp_asinfo s \<and>
    (\<exists>ns'. names_ext ns ns' \<and> hw_rep lib ns' (I @ [\<lparr>hi_kind = ''Device'', hi_name = name, hi_owner = ucast bus,
       hi_body = le32l pnp, hi_tags = []\<rparr>]) s')"
proof -
  obtain tag s1 where a: "hwi_alloc_item lib TAG_device name bus s = Inr (tag, s1)"
    and f: "set_fields tag [(12, le32l pnp)] s1 = Inr ((), s')" and off: "off = hwi_tag2off lib tag"
    using run bus(1) by (auto simp: hwidev_add_def hbind_Inr hthen_Inr simp del: set_fields.simps)
  obtain ns' where n: "tag = total_len I" "sp_asinfo s1 = sp_asinfo s" "names_ext ns ns'"
    "hw_rep lib ns' (I @ [new_item TAG_device name bus]) s1"
    using alloc_item_rep [OF lib rep bus(2) _ v a] by auto
  have "hw_rep lib ns' (I @ [(new_item TAG_device name bus)\<lparr>hi_body := le32l pnp\<rparr>]) s' \<and> sp_asinfo s' = sp_asinfo s1"
    using set_item_word [OF n(4)] f n(1) by (simp add: tag_kinds del: set_fields.simps)
  then show ?thesis using n off by (auto simp: new_item_def tag_kinds)
qed

lemma bus_add_rep:
  assumes lib: "lib_ok lib" and rep: "hw_rep lib ns I s" and v: "valid_name name"
    and bus: "bus \<noteq> HWI_NULL_OFF" "owner_ok lib I bus"
    and run: "hwibus_add lib name bus s = Inr (off, s')"
  shows "off = hwi_tag2off lib (total_len I) \<and> sp_asinfo s' = sp_asinfo s \<and>
    (\<exists>ns'. names_ext ns ns' \<and> hw_rep lib ns' (I @ [\<lparr>hi_kind = ''Bus'', hi_name = name, hi_owner = ucast bus,
       hi_body = [], hi_tags = []\<rparr>]) s')"
proof -
  obtain tag where a: "hwi_alloc_item lib TAG_bus name bus s = Inr (tag, s')" and off: "off = hwi_tag2off lib tag"
    using run bus(1) by (auto simp: hwibus_add_def hbind_Inr)
  have "new_item TAG_bus name bus = \<lparr>hi_kind = ''Bus'', hi_name = name, hi_owner = ucast bus, hi_body = [], hi_tags = []\<rparr>"
    by (simp add: new_item_def tag_kinds)
  then show ?thesis using alloc_item_rep [OF lib rep bus(2) _ v a] off by auto
qed

fun dev_base :: "hwi_lib \<Rightarrow> hw_dev \<Rightarrow> u32 \<Rightarrow> u32 hw" where
  "dev_base lib (Uart n a) bus = hwidev_add lib n 1 bus"
| "dev_base lib (Enet n a) bus = hwidev_add lib n 2 bus"
| "dev_base lib (Rtc_dev n a) bus = hwidev_add lib n 3 bus"
| "dev_base lib (Dma n a) bus = hwidev_add lib n 4 bus"
| "dev_base lib (Timer n a) bus = hwidev_add lib n 7 bus"
| "dev_base lib (I2c_bus a) bus = hwibus_add lib ''i2c'' bus"
| "dev_base lib (Spi_bus a) bus = hwibus_add lib ''spi'' bus"
| "dev_base lib (Usb_bus a) bus = hwibus_add lib ''usb'' bus"
| "dev_base lib (Pci_bus a) bus = hwibus_add lib ''pci'' bus"
| "dev_base lib (Can_bus a) bus = hwibus_add lib ''can'' bus"

lemma add_dev_split:
  "add_dev lib d bus = hbind (dev_base lib d bus) (\<lambda>off. if off \<noteq> HWI_NULL_OFF then hthen (dev_code d) (hret off) else hret off)"
  by (cases d; hypsubst; simp cong: if_cong add: with_attr_def hwidev_add_uart_def hwidev_add_enet_def hwidev_add_rtc_def hwidev_add_dma_def
      hwidev_add_timer_def hwibus_add_i2c_def hwibus_add_spi_def hwibus_add_usb_def hwibus_add_pci_def hwibus_add_can_def)

lemma dev_base_rep:
  assumes "lib_ok lib" and "hw_rep lib ns I s" and "dev_ok d" and "bus \<noteq> HWI_NULL_OFF" "owner_ok lib I bus"
    and "dev_base lib d bus s = Inr (off, s')"
  shows "off = hwi_tag2off lib (total_len I) \<and> sp_asinfo s' = sp_asinfo s \<and>
    (\<exists>ns'. names_ext ns ns' \<and> hw_rep lib ns' (I @ [dev_item d bus]) s')"
proof -
  have v: "valid_name (fst (snd (dev_head d)))" using assms(3) by (simp add: dev_ok_def)
  show ?thesis
    by (cases d) (use assms(6) v device_add_rep [OF assms(1,2) _ assms(4,5)] bus_add_rep [OF assms(1,2) _ assms(4,5)]
        in \<open>simp_all add: dev_item_def\<close>)
qed

lemma rep_off_valid:
  assumes "lib_ok lib" and "hw_rep lib ns I s"
  shows "hwi_tag2off lib (total_len I) \<noteq> HWI_NULL_OFF"
proof -
  have "4 dvd total_len I" "total_len I < 65535"
    using total_aligned [of I lib ns I] assms(2) rep_len [OF assms(2)] by (auto simp: hw_rep_def)
  then show ?thesis using lib_okD(1) [OF assms(1)] by force
qed

lemma add_dev_rep:
  assumes "lib_ok lib" and "hw_rep lib ns I s" and "dev_ok d" and "bus \<noteq> HWI_NULL_OFF" "owner_ok lib I bus"
    and "add_dev lib d bus s = Inr (off, s')"
  shows "off = hwi_tag2off lib (total_len I) \<and> sp_asinfo s' = sp_asinfo s \<and>
    (\<exists>ns'. names_ext ns ns' \<and> hw_rep lib ns' (fold place_tag (dev_tags (pool_off ns') d) (I @ [dev_item d bus])) s')"
proof -
  obtain s1 where b: "dev_base lib d bus s = Inr (off, s1)"
    and c: "(if off \<noteq> HWI_NULL_OFF then hthen (dev_code d) (hret off) else hret off) s1 = Inr (off, s')"
    using assms(6) by (auto simp: add_dev_split hbind_Inr hthen_Inr split: if_splits)
  obtain ns1 where r: "off = hwi_tag2off lib (total_len I)" "sp_asinfo s1 = sp_asinfo s" "names_ext ns ns1"
    "hw_rep lib ns1 (I @ [dev_item d bus]) s1"
    using dev_base_rep [OF assms(1-5) b] by blast
  have "off \<noteq> HWI_NULL_OFF" using rep_off_valid [OF assms(1,2)] r(1) by simp
  then have d: "dev_code d s1 = Inr ((), s')" using c by (auto simp: hthen_Inr)
  obtain ns' where n: "sp_asinfo s' = sp_asinfo s1" "names_ext ns1 ns'"
    "hw_rep lib ns' (fold place_tag (dev_tags (pool_off ns') d) (I @ [dev_item d bus])) s'"
    by (rule adds_runD [OF dev_code_adds [OF assms(3)] r(4) _ d]) simp
  show ?thesis using r n names_ext_trans [OF r(3) n(2)] by auto
qed

end
