(* ===== verification/HwiTotal.thy ===== *)
theory HwiTotal
  imports HwiDevices
begin

section \<open>Room enough: the operations of the section return\<close>

text \<open>
  An operation on a represented section can only fail when the system page reaches its maximum:
  every write lies within the section. Here each operation gets a bound on the bytes of the page it
  takes (\<open>cost\<close>), and returns where that much is left.
\<close>

definition left :: "lsp \<Rightarrow> nat \<Rightarrow> bool" where
  "left s n \<longleftrightarrow> unat (sp_total_size s) + n \<le> unat (sp_max_size s)"

text \<open>From \<open>s\<close> to \<open>s'\<close> at most \<open>n\<close> bytes were taken.\<close>

definition took :: "nat \<Rightarrow> lsp \<Rightarrow> lsp \<Rightarrow> bool" where
  "took n s s' \<longleftrightarrow> unat (sp_total_size s') \<le> unat (sp_total_size s) + n \<and> sp_max_size s' = sp_max_size s"

lemma took_refl [simp]: "took 0 s s"
  by (simp add: took_def)

lemma took_trans: "took m s s1 \<Longrightarrow> took n s1 s2 \<Longrightarrow> took (m + n) s s2"
  by (simp add: took_def)

lemma took_mono: "took m s s' \<Longrightarrow> m \<le> n \<Longrightarrow> took n s s'"
  by (simp add: took_def)

lemma left_took: "left s (m + n) \<Longrightarrow> took m s s' \<Longrightarrow> left s' n"
  by (simp add: left_def took_def)

lemma left_mono: "left s n \<Longrightarrow> m \<le> n \<Longrightarrow> left s m"
  by (simp add: left_def)

lemma grow_budget_total:
  assumes "room s" and "unat n < 2 ^ 31 + 16" and "left s (unat n + 7)"
  obtains s1 where "grow_budget n s = Inr s1" "took (unat n + 7) s s1"
proof -
  have r: "unat (ROUND n 8) \<le> unat n + 7"
    using unat_ROUND [of "8::u32" 3 n] assms(2) by (simp add: div_times_less_eq_dividend)
  then have u: "unat (sp_total_size s + ROUND n 8) = unat (sp_total_size s) + unat (ROUND n 8)"
    using assms(1,2) by (auto simp: room_def word_le_nat_alt unat_word_ariths)
  then have "\<not> sp_total_size s + ROUND n 8 > sp_max_size s"
    using assms(3) r by (simp add: left_def not_less word_le_nat_alt)
  then show ?thesis
    using that [of "if n = 0 then s else s\<lparr>sp_total_size := sp_total_size s + ROUND n 8\<rparr>"] u r
    by (auto simp: grow_budget_def Let_def took_def)
qed

lemma grow_hwinfo_total:
  assumes "room s" and "unat n < 2 ^ 31" and "left s (unat n + 7)"
  obtains s1 where "grow_hwinfo n s = Inr ((), s1)" "took (unat n + 7) s s1"
proof -
  obtain s0 where "grow_budget n s = Inr s0" "took (unat n + 7) s s0"
    by (rule grow_budget_total [OF assms(1) _ assms(3)]) (use assms(2) in simp)
  then show ?thesis
    by (intro that [of "s0\<lparr>sp_hwinfo := sp_hwinfo s0 @ replicate (unat (ROUND n 8)) 0\<rparr>"]) (simp_all add: grow_hwinfo_def took_def)
qed

lemma add_string_total:
  assumes "pool_inv ns s" and "room s" and "valid_name n" and "left s (length n + 9)"
  obtains off s1 where "add_string n s = Inr (off, s1)" "took (length n + 9) s s1"
proof (cases "n \<in> set ns")
  case True
  then show ?thesis by (intro that [of "pool_off ns n" s]) (auto simp: add_string_def scan_section [OF assms(1)] took_def)
next
  case False
  let ?len = "length n + 2" and ?spare = "length (sp_strings s) - length (pool_text ns)"
  let ?add = "if ?len > ?spare then ?len - ?spare else 0"
  have a: "?add \<le> length n + 2" "?add < 2 ^ 31 + 16" using assms(3) by (auto simp: valid_name_def)
  then have u: "unat (of_nat ?add :: u32) = ?add" by (intro unat_of_nat_small) simp
  obtain s0 where g: "grow_budget (of_nat ?add) s = Inr s0" "took (unat (of_nat ?add :: u32) + 7) s s0"
    by (rule grow_budget_total [OF assms(2), of "of_nat ?add"]) (use a u assms(4) in \<open>auto simp: left_def\<close>)
  have "took (length n + 9) s s0" by (rule took_mono [OF g(2)]) (use u a in auto)
  then show ?thesis
    using False g(1)
    by (intro that [of "length (pool_text ns)" "s0\<lparr>sp_strings := strcpy_at (length (pool_text ns)) n
          (sp_strings s0 @ replicate (unat (ROUND (of_nat ?add :: u32) 8)) NUL)\<rparr>"]) (auto simp: add_string_def scan_section [OF assms(1)] Let_def took_def
        simp del: add_2_eq_Suc add_2_eq_Suc')
qed

lemma poke_total:
  assumes "at + length bs \<le> length (sp_hwinfo s)"
  obtains s' where "poke at bs s = Inr ((), s')" "took 0 s s'" "length (sp_hwinfo s') = length (sp_hwinfo s)"
    "hwi_offset s' = hwi_offset s" "hwi_last_item s' = hwi_last_item s"
  using assms by (intro that [of "s\<lparr>sp_hwinfo := put_at at bs (sp_hwinfo s)\<rparr>"]) (simp_all add: poke_def took_def)

lemma add16_total:
  assumes "at + 2 \<le> length (sp_hwinfo s)"
  obtains s' where "add16 at d s = Inr ((), s')" "took 0 s s'" "length (sp_hwinfo s') = length (sp_hwinfo s)"
    "hwi_offset s' = hwi_offset s" "hwi_last_item s' = hwi_last_item s"
proof -
  obtain s' where "poke at (le16 (get_le 2 at (sp_hwinfo s) + d)) s = Inr ((), s')" "took 0 s s'"
    "length (sp_hwinfo s') = length (sp_hwinfo s)" "hwi_offset s' = hwi_offset s" "hwi_last_item s' = hwi_last_item s"
    by (rule poke_total [of at "le16 (get_le 2 at (sp_hwinfo s) + d)" s]) (use assms in simp_all)
  then show ?thesis using assms by (intro that [of s']) (simp_all add: add16_def hbind_def peek_def)
qed

lemma set_fields_total:
  assumes "fields_in lo hi fs" and "t + hi \<le> length (sp_hwinfo s)"
  obtains s' where "set_fields t fs s = Inr ((), s')" "took 0 s s'" "length (sp_hwinfo s') = length (sp_hwinfo s)"
    "hwi_offset s' = hwi_offset s" "hwi_last_item s' = hwi_last_item s"
  using assms
proof (induction fs arbitrary: s thesis)
  case (Cons f fs)
  obtain off bs where f: "f = (off, bs)" by (cases f)
  obtain s1 where 1: "poke (t + off) bs s = Inr ((), s1)" "took 0 s s1" "length (sp_hwinfo s1) = length (sp_hwinfo s)"
    "hwi_offset s1 = hwi_offset s" "hwi_last_item s1 = hwi_last_item s"
    by (rule poke_total [of "t + off" bs s]) (use Cons.prems f in auto)
  obtain s' where "set_fields t fs s1 = Inr ((), s')" "took 0 s1 s'" "length (sp_hwinfo s') = length (sp_hwinfo s1)"
    "hwi_offset s' = hwi_offset s1" "hwi_last_item s' = hwi_last_item s1"
    by (rule Cons.IH [of s1]) (use Cons.prems 1 f in auto)
  then show ?case using 1 f took_trans [of 0 s s1 0 s']
    by (intro Cons.prems(1) [of s']) (simp_all add: hthen_def hbind_def)
qed simp

definition tag_cost :: "tag_info \<Rightarrow> nat" where
  "tag_cost ti = (length (ti_name ti) + 9) + (unat (ti_size ti) + 7)"

lemma append_tag_total:
  assumes pool: "pool_inv ns s" and rm: "room s" and v: "valid_name (ti_name ti)"
    and sz: "4 \<le> unat (ti_size ti)" "unat (ti_size ti) < 2 ^ 31"
    and pl: "unat (hwi_last_item s) + 6 \<le> length (sp_hwinfo s) + unat (ti_size ti)" "unat (hwi_offset s) \<le> length (sp_hwinfo s)"
    and lf: "left s (tag_cost ti)"
  obtains tag s' where "append_tag ti s = Inr (tag, s')" "took (tag_cost ti) s s'"
proof -
  obtain off s1 where a: "add_string (ti_name ti) s = Inr (off, s1)" "took (length (ti_name ti) + 9) s s1"
    by (rule add_string_total [OF pool rm v]) (use lf in \<open>auto simp: tag_cost_def left_def\<close>)
  have lf1: "left s1 (unat (ti_size ti) + 7)" using left_took [OF lf [unfolded tag_cost_def] a(2)] .
  have rm1: "room s1" by (rule add_string_room [OF a(1) rm v pool])
  obtain s2 where g: "grow_hwinfo (ti_size ti) s1 = Inr ((), s2)" "took (unat (ti_size ti) + 7) s1 s2"
    by (rule grow_hwinfo_total [OF rm1 sz(2) lf1])
  obtain s2' where g': "((), s2) = ((), s2')" "sp_hwinfo s2' = sp_hwinfo s1 @ replicate (unat (ROUND (ti_size ti) 8)) 0"
    "hwi_offset s2' = hwi_offset s1" "hwi_last_item s2' = hwi_last_item s1"
    by (rule grow_hwinfo_run [OF g(1) rm1 sz(2)])
  have "unat (ti_size ti) \<le> unat (ROUND (ti_size ti) 8)" by (rule ROUND8_le) (use sz(2) in simp)
  then have len: "length (sp_hwinfo s) + unat (ti_size ti) \<le> length (sp_hwinfo s2)"
    using g' add_string_frame [OF a(1)] by simp
  have same: "hwi_offset s2 = hwi_offset s" "hwi_last_item s2 = hwi_last_item s"
    using g' add_string_frame [OF a(1)] by simp_all
  obtain s3 where w: "add16 (unat (hwi_last_item s) + 4) (ucast (ti_size ti div 4)) s2 = Inr ((), s3)" "took 0 s2 s3"
    "length (sp_hwinfo s3) = length (sp_hwinfo s2)"
    by (rule add16_total [of "unat (hwi_last_item s) + 4" s2]) (use len pl in simp_all)
  obtain s4 where f: "set_fields (unat (hwi_offset s)) [(0, le16 (ucast (ti_size ti div 4))), (2, le16 (of_nat off))] s3 = Inr ((), s4)"
    "took 0 s3 s4"
    by (rule set_fields_total [of 0 4 "[(0, le16 (ucast (ti_size ti div 4))), (2, le16 (of_nat off))]" "unat (hwi_offset s)" s3])
      (use w len pl sz in simp_all)
  have "took (tag_cost ti) s (s4\<lparr>hwi_offset := hwi_offset s4 + ti_size ti\<rparr>)"
    using a(2) g(2) w(2) f(2) by (simp add: took_def tag_cost_def)
  moreover have "append_tag ti s = Inr (unat (hwi_offset s), s4\<lparr>hwi_offset := hwi_offset s4 + ti_size ti\<rparr>)"
    using a(1) g(1) w(1) f(1) same
    by (simp add: append_tag_def hbind_def hthen_def Let_def del: set_fields.simps)
  ultimately show ?thesis using that by blast
qed

text \<open>A section with an item: its last item's header and its end are within it.\<close>

lemma rep_within:
  assumes "hw_rep lib ns I s"
  shows "pool_inv ns s" "room s" "unat (hwi_offset s) + 8 \<le> length (sp_hwinfo s)"
    "I \<noteq> [] \<Longrightarrow> unat (hwi_last_item s) + 12 \<le> length (sp_hwinfo s)"
proof -
  show "pool_inv ns s" "room s" using assms by (auto simp: hw_rep_def)
  obtain z where z: "8 \<le> z" "sp_hwinfo s = enc_items (pool_off ns) (kids_of lib I) 0 I @ replicate z 0"
    using assms by (auto simp: hw_rep_def)
  show "unat (hwi_offset s) + 8 \<le> length (sp_hwinfo s)" using z rep_offset [OF assms] by simp
  assume "I \<noteq> []"
  then obtain J it where I: "I = J @ [it]" by (cases I rule: rev_cases) auto
  have "hwi_last_item s = of_nat (total_len J)" using assms by (simp add: hw_rep_def I)
  moreover have "total_len J < 2 ^ 32" using rep_len [OF assms] by (simp add: I)
  ultimately show "unat (hwi_last_item s) + 12 \<le> length (sp_hwinfo s)"
    using z by (simp add: I unat_of_nat_small item_len_def head_len_def)
qed

lemma alloc_tag_total:
  assumes rep: "hw_rep lib ns I s" and ne: "I \<noteq> []" and ti: "tag_info_ok ti" and lf: "left s (23 + tag_cost ti)"
  obtains tag s' where "hwi_alloc_tag ti s = Inr (tag, s')" "took (23 + tag_cost ti) s s'"
proof (cases "ti_align ti = 8 \<and> \<not> 8 dvd total_len I")
  case True
  note w = rep_within [OF rep]
  have pc: "tag_cost TAG_pad = 23" by (simp add: tag_cost_def tag_kinds)
  obtain t1 s1 where p: "append_tag TAG_pad s = Inr (t1, s1)" "took 23 s s1"
  proof (rule append_tag_total [OF w(1,2), of TAG_pad])
    show "left s (tag_cost TAG_pad)" by (rule left_mono [OF lf]) (simp add: pc)
  qed (use w ne pad_info_ok pc in \<open>auto simp: tag_info_ok_def\<close>)
  have r1: "hw_rep lib (pool_add ns ''pad'') (push_tag pad_tag I) s1"
    using append_tag_rep [OF rep ne pad_info_ok p(1)] by (simp add: blank_pad) (simp add: tag_kinds)
  note w1 = rep_within [OF r1]
  obtain tag s' where a: "append_tag ti s1 = Inr (tag, s')" "took (tag_cost ti) s1 s'"
    by (rule append_tag_total [OF w1(1,2), of ti]) (use w1 ti left_took [OF lf p(2)] in \<open>auto simp: tag_info_ok_def\<close>)
  show ?thesis
    using True p(1) a(1) alloc_tag8 [OF rep_place_ok [OF rep]] rep_offset [OF rep] took_trans [OF p(2) a(2)]
    by (intro that [of tag s']) (simp_all add: hbind_def)
next
  case False
  note w = rep_within [OF rep]
  obtain tag s' where a: "append_tag ti s = Inr (tag, s')" "took (tag_cost ti) s s'"
    by (rule append_tag_total [OF w(1,2), of ti]) (use w ne ti left_mono [OF lf, of "tag_cost ti"] in \<open>auto simp: tag_info_ok_def\<close>)
  have "hwi_alloc_tag ti s = Inr (tag, s')"
    using False a(1) ti alloc_tag4 [OF rep_place_ok [OF rep]] alloc_tag8 [OF rep_place_ok [OF rep]] rep_offset [OF rep]
    by (auto simp: tag_info_ok_def)
  then show ?thesis using that took_mono [OF a(2), of "23 + tag_cost ti"] by simp
qed

lemma add_tag_total:
  assumes rep: "hw_rep lib ns I s" and ne: "I \<noteq> []" and ti: "tag_info_ok ti"
    and fs: "fields_in 4 (unat (ti_size ti)) fs" and lf: "left s (23 + tag_cost ti)"
  obtains s' where "add_tag ti fs s = Inr ((), s')" "took (23 + tag_cost ti) s s'"
proof -
  obtain tag s1 where a: "hwi_alloc_tag ti s = Inr (tag, s1)" "took (23 + tag_cost ti) s s1"
    by (rule alloc_tag_total [OF rep ne ti lf])
  define I1 where "I1 = (if ti_align ti = 8 \<and> \<not> 8 dvd total_len I then push_tag pad_tag I else I)"
  have I1: "I1 \<noteq> []" using ne by (simp add: I1_def)
  obtain ns' where r: "tag = total_len I1" "hw_rep lib ns' (push_tag (blank_tag ti) I1) s1"
    using alloc_tag_rep [OF rep ne ti a(1)] by (auto simp: Let_def I1_def)
  have "tag + unat (ti_size ti) \<le> length (sp_hwinfo s1)"
    using rep_within(3) [OF r(2)] rep_offset [OF r(2)] I1 ti r(1)
    by (simp add: tag_len_def blank_tag_def tag_info_ok_def)
  then obtain s' where "set_fields tag fs s1 = Inr ((), s')" "took 0 s1 s'"
    by (rule set_fields_total [OF fs])
  then show ?thesis using a took_trans [OF a(2), of 0 s'] by (intro that [of s']) (simp_all add: add_tag_def hbind_def)
qed

lemma alloc_item_total:
  assumes lib: "lib_ok lib" and rep: "hw_rep lib ns I s" and ow: "owner_ok lib I owner"
    and ti: "item_info ti" and nm: "valid_name name" and lf: "left s (length name + 9 + tag_cost ti)"
  obtains tag s' where "hwi_alloc_item lib ti name owner s = Inr (tag, s')" "took (length name + 9 + tag_cost ti) s s'"
proof -
  note w = rep_within [OF rep]
  obtain off s1 where a: "add_string name s = Inr (off, s1)" "took (length name + 9) s s1"
    by (rule add_string_total [OF w(1,2) nm left_mono [OF lf]]) simp_all
  note r1 = rep_add_string [OF rep a(1) nm]
  note w1 = rep_within [OF r1(1)]
  have al: "align_tag (ti_align ti) s1 = Inr ((), s1)"
    using align_tag4 [OF rep_place_ok [OF r1(1)]] ti by (simp add: item_info_def)
  define s2 where "s2 = s1\<lparr>hwi_last_item := hwi_offset s1\<rparr>"
  have t: "hwi_alloc_tag ti s2 = append_tag ti s2"
    using alloc_tag4 [of s2 ti] rep_place_ok [OF r1(1)] ti by (simp add: s2_def item_info_def place_ok_def)
  have w2: "pool_inv (pool_add ns name) s2" "room s2" using w1 by (simp_all add: s2_def pool_inv_def room_def)
  have lf1: "left s2 (tag_cost ti)" using left_took [OF lf a(2)] by (simp add: s2_def left_def)
  obtain tag s3 where p: "append_tag ti s2 = Inr (tag, s3)" "took (tag_cost ti) s2 s3"
    by (rule append_tag_total [OF w2, of ti]) (use w1 ti lf1 in \<open>auto simp: item_info_def s2_def\<close>)
  have g: "unat (hwi_offset s1) = total_len I" by (rule rep_offset [OF r1(1)])
  obtain z where z: "8 \<le> z" "sp_hwinfo s2 = enc_items (pool_off (pool_add ns name)) (kids_of lib I) 0 I @ replicate z 0"
    using r1(1) by (auto simp: hw_rep_def s2_def)
  have X: "length (enc_items (pool_off (pool_add ns name)) (kids_of lib I) 0 I) = unat (hwi_offset s2)"
    using g by (simp add: s2_def)
  have v: "valid_name (ti_name ti)" and sz: "12 \<le> unat (ti_size ti)" "unat (ti_size ti) < 2 ^ 31"
    and last: "hwi_last_item s2 = hwi_offset s2" using ti by (simp_all add: item_info_def s2_def)
  have tag: "tag = total_len I" and sect: "total_len I + 12 \<le> length (sp_hwinfo s3)"
    using append_tag_new [OF p(1) w2 v z(2) X last sz] g X by (auto simp: s2_def)
  obtain s4 where f: "set_fields tag [(6, le16 (of_nat off)), (8, le16 (ucast owner))] s3 = Inr ((), s4)" "took 0 s3 s4"
    "length (sp_hwinfo s4) = length (sp_hwinfo s3)"
    by (rule set_fields_total [of 6 10 "[(6, le16 (of_nat off)), (8, le16 (ucast owner))]" tag s3]) (use sect tag in simp_all)
  have "\<exists>s'. (if owner \<noteq> HWI_NULL_OFF then add16 (hwi_off2tag lib owner + 10) 1 else hret ()) s4 = Inr ((), s') \<and> took 0 s4 s'"
  proof (cases "owner = HWI_NULL_OFF")
    case False
    then obtain p where q: "p \<in> set (item_places 0 I)" "owner = hwi_tag2off lib p" using ow by (auto simp: owner_ok_def)
    have "hwi_off2tag lib owner = p" using lib_okD(2) [OF lib rep_places(1,3) [OF rep q(1)]] q(2) by simp
    then have "hwi_off2tag lib owner + 10 + 2 \<le> length (sp_hwinfo s4)"
      using rep_places(2) [OF rep q(1)] sect f(3) by simp
    then obtain s' where "add16 (hwi_off2tag lib owner + 10) 1 s4 = Inr ((), s')" "took 0 s4 s'" by (rule add16_total)
    then show ?thesis using False by auto
  qed simp
  then obtain s' where k: "(if owner \<noteq> HWI_NULL_OFF then add16 (hwi_off2tag lib owner + 10) 1 else hret ()) s4 = Inr ((), s')" "took 0 s4 s'"
    by blast
  have "hwi_alloc_item lib ti name owner s = Inr (tag, s')"
    using a(1) al t p(1) f(1) k(1)
    by (simp add: hwi_alloc_item_def hbind_def hthen_def s2_def del: set_fields.simps split del: if_split)
  moreover have "took (length name + 9 + tag_cost ti) s s'"
    using a(2) p(2) f(2) k(2) by (simp add: took_def s2_def)
  ultimately show ?thesis by (rule that)
qed

subsection \<open>Code that adds tags, with its cost\<close>

definition adds_in :: "unit hw \<Rightarrow> ((string \<Rightarrow> nat) \<Rightarrow> tag_spec list) \<Rightarrow> string set \<Rightarrow> nat \<Rightarrow> bool" where
  "adds_in m T N c \<longleftrightarrow> adds m T N \<and>
     (\<forall>lib ns I s. hw_rep lib ns I s \<longrightarrow> I \<noteq> [] \<longrightarrow> left s c \<longrightarrow> (\<exists>s'. m s = Inr ((), s') \<and> took c s s'))"

lemma adds_in_adds: "adds_in m T N c \<Longrightarrow> adds m T N"
  by (simp add: adds_in_def)

lemma adds_in_returns:
  assumes "adds_in m T N c" and "hw_rep lib ns I s" and "I \<noteq> []" and "left s c"
  obtains s' where "m s = Inr ((), s')" "took c s s'"
  using assms unfolding adds_in_def by blast

lemma adds_inI:
  assumes "adds m T N"
    and "\<And>lib ns I s. hw_rep lib ns I s \<Longrightarrow> I \<noteq> [] \<Longrightarrow> left s c \<Longrightarrow> \<exists>s'. m s = Inr ((), s') \<and> took c s s'"
  shows "adds_in m T N c"
  using assms unfolding adds_in_def by blast

lemma adds_in_ret: "adds_in (hret ()) (\<lambda>_. []) {} 0"
  by (rule adds_inI [OF adds_ret]) simp

lemma adds_in_tag:
  assumes "tag_info_ok ti" and "fields_in 4 (unat (ti_size ti)) fs"
  shows "adds_in (add_tag ti fs) (\<lambda>_. [(ti, fs)]) {} (23 + tag_cost ti)"
proof (rule adds_inI [OF adds_tag [OF assms]])
  fix lib ns I s
  assume "hw_rep lib ns I s" "I \<noteq> []" "left s (23 + tag_cost ti)"
  then obtain s' where "add_tag ti fs s = Inr ((), s')" "took (23 + tag_cost ti) s s'"
    by (rule add_tag_total [OF _ _ assms])
  then show "\<exists>s'. add_tag ti fs s = Inr ((), s') \<and> took (23 + tag_cost ti) s s'" by blast
qed

lemma adds_in_then:
  assumes "adds_in m1 T1 N1 c1" and "adds_in m2 T2 N2 c2"
  shows "adds_in (hthen m1 m2) (\<lambda>nf. T1 nf @ T2 nf) (N1 \<union> N2) (c1 + c2)"
proof (rule adds_inI [OF adds_then [OF assms [THEN adds_in_adds]]])
  fix lib ns I s
  assume rep: "hw_rep lib ns I s" and ne: "I \<noteq> []" and lf: "left s (c1 + c2)"
  obtain s1 where 1: "m1 s = Inr ((), s1)" "took c1 s s1"
    by (rule adds_in_returns [OF assms(1) rep ne left_mono [OF lf]]) simp_all
  obtain ns1 where r: "hw_rep lib ns1 (fold place_tag (T1 (pool_off ns1)) I) s1"
    by (rule adds_runD [OF adds_in_adds [OF assms(1)] rep ne 1(1)])
  obtain s2 where 2: "m2 s1 = Inr ((), s2)" "took c2 s1 s2"
    by (rule adds_in_returns [OF assms(2) r fold_place_not_Nil [OF ne] left_took [OF lf 1(2)]])
  show "\<exists>s'. hthen m1 m2 s = Inr ((), s') \<and> took (c1 + c2) s s'"
    using 1(1) 2(1) took_trans [OF 1(2) 2(2)] by (auto simp: hthen_def hbind_def)
qed

lemma adds_in_mono:
  assumes "adds_in m T N c" and "c \<le> c'"
  shows "adds_in m T N c'"
proof (rule adds_inI [OF adds_in_adds [OF assms(1)]])
  fix lib ns I s
  assume rep: "hw_rep lib ns I s" and ne: "I \<noteq> []" and lf: "left s c'"
  obtain s' where "m s = Inr ((), s')" "took c s s'"
    by (rule adds_in_returns [OF assms(1) rep ne left_mono [OF lf assms(2)]])
  then show "\<exists>s'. m s = Inr ((), s') \<and> took c' s s'" using took_mono [OF _ assms(2)] by blast
qed

lemma adds_in_for_each:
  assumes "\<And>x. x \<in> set xs \<Longrightarrow> adds_in (f x) (\<lambda>_. T x) {} c"
  shows "adds_in (for_each xs f) (\<lambda>_. concat (map T xs)) {} (length xs * c)"
  using assms
proof (induction xs)
  case (Cons x xs)
  have "adds_in (hthen (f x) (for_each xs f)) (\<lambda>_. T x @ concat (map T xs)) ({} \<union> {}) (c + length xs * c)"
    using Cons by (intro adds_in_then) auto
  then show ?case by simp
qed (simp add: adds_in_ret)

lemma adds_in_times:
  "adds_in m (\<lambda>_. [t]) {} c \<Longrightarrow> adds_in (times n m) (\<lambda>_. replicate (unat n) t) {} (unat n * c)"
  using adds_in_for_each [of "[0..<unat n]" "\<lambda>_. m" "\<lambda>_. [t]"] by (simp only: concat_same length_upt minus_nat.diff_0)

lemma adds_in_named:
  assumes "valid_name n" and "\<And>idx. adds_in (m idx) (\<lambda>_. T idx) {} c"
  shows "adds_in (hbind (add_string n) m) (\<lambda>nf. T (nf n)) {n} (length n + 9 + c)"
proof (rule adds_inI [OF adds_named [OF assms(1) adds_in_adds [OF assms(2)]]])
  fix lib ns I s
  assume rep: "hw_rep lib ns I s" and ne: "I \<noteq> []" and lf: "left s (length n + 9 + c)"
  note w = rep_within [OF rep]
  obtain off s1 where a: "add_string n s = Inr (off, s1)" "took (length n + 9) s s1"
    by (rule add_string_total [OF w(1,2) assms(1) left_mono [OF lf]]) simp_all
  obtain s2 where 2: "m off s1 = Inr ((), s2)" "took c s1 s2"
    by (rule adds_in_returns [OF assms(2) rep_add_string(1) [OF rep a(1) assms(1)] ne left_took [OF lf a(2)]])
  show "\<exists>s'. hbind (add_string n) m s = Inr ((), s') \<and> took (length n + 9 + c) s s'"
    using a(1) 2(1) took_trans [OF a(2) 2(2)] by (auto simp: hbind_def)
qed

lemma adds_in_option:
  assumes "\<And>x. r = Some x \<Longrightarrow> adds_in (f x) (\<lambda>nf. T nf x) {x} (c x)"
  shows "adds_in (case r of Some x \<Rightarrow> f x | None \<Rightarrow> hret ()) (\<lambda>nf. case r of Some x \<Rightarrow> T nf x | None \<Rightarrow> [])
    (set_option r) (case r of Some x \<Rightarrow> c x | None \<Rightarrow> 0)"
  using assms adds_in_ret by (cases r) auto

text \<open>What a tag of each kind takes at most, with its name, its padding and the rounding.\<close>

definition spec_cost :: "tag_info \<Rightarrow> nat" where
  "spec_cost ti = 23 + tag_cost ti"

lemma adds_in_tags:
  "adds_in (hwitag_add_location base len rs as) (\<lambda>_. [location_spec base len rs as]) {} (spec_cost TAG_location)"
  "adds_in (hwitag_add_irq v) (\<lambda>_. [irq_spec v]) {} (spec_cost TAG_irq)"
  "adds_in (hwitag_add_irqrange v n) (\<lambda>_. [irqrange_spec v n]) {} (spec_cost TAG_irqrange)"
  "adds_in (hwitag_add_inputclk c d) (\<lambda>_. [inputclk_spec c d]) {} (spec_cost TAG_inputclk)"
  "adds_in (hwitag_add_nicphyaddr a) (\<lambda>_. [nicphyaddr_spec a]) {} (spec_cost TAG_nicphyaddr)"
  "adds_in (hwitag_add_busattr None) (\<lambda>_. [busattr_spec]) {} (spec_cost TAG_busattr)"
  "adds_in (hwitag_add_errata n) (\<lambda>_. [errata_spec n]) {} (spec_cost TAG_errata)"
  unfolding hwitag_add_location_def hwitag_add_irq_def hwitag_add_irqrange_def hwitag_add_inputclk_def
    hwitag_add_nicphyaddr_def hwitag_add_busattr_def hwitag_add_errata_def tag_specs option.case spec_cost_def
  by (rule adds_in_tag; simp)+

lemma adds_in_names:
  "valid_name d \<Longrightarrow> adds_in (hwitag_add_dll d) (\<lambda>nf. [name_spec TAG_dll (nf d)]) {d} (length d + 9 + spec_cost TAG_dll)"
  "valid_name d \<Longrightarrow> adds_in (hwitag_add_optstr d) (\<lambda>nf. [name_spec TAG_optstr (nf d)]) {d} (length d + 9 + spec_cost TAG_optstr)"
  "valid_name d \<Longrightarrow> adds_in (hwitag_add_regname d r) (\<lambda>nf. [regname_spec (nf d) r]) {d} (length d + 9 + spec_cost TAG_regname)"
  unfolding hwitag_add_dll_def hwitag_add_optstr_def hwitag_add_regname_def tag_specs spec_cost_def
  by (rule adds_in_named; (assumption | rule adds_in_tag; simp))+

lemma adds_in_mac:
  assumes "length mac = 6"
  shows "adds_in (hwitag_add_nicaddr mac 6) (\<lambda>_. [mac_spec mac]) {} (spec_cost (TAG_nicaddr 16))"
  unfolding mac_code [OF assms] mac_spec_def spec_cost_def by (rule adds_in_tag) (use assms in simp_all)

definition common_cost :: "hwiattr_common \<Rightarrow> nat" where
  "common_cost a = spec_cost TAG_location + (unat (at_num_irq a) * spec_cost TAG_irq +
     ((case at_dll a of Some d \<Rightarrow> length d + 9 + spec_cost TAG_dll | None \<Rightarrow> 0) +
     ((case at_optstr a of Some d \<Rightarrow> length d + 9 + spec_cost TAG_optstr | None \<Rightarrow> 0) +
      unat (at_num_errata a) * spec_cost TAG_errata)))"

lemma adds_in_common:
  assumes "\<forall>n \<in> common_names a. valid_name n"
  shows "adds_in (hwitag_add_common a) (\<lambda>nf. common_tags nf a) (common_names a) (common_cost a)"
proof -
  have "adds_in (hwitag_add_common a) (\<lambda>nf. common_tags nf a)
      ({} \<union> ({} \<union> (set_option (at_dll a) \<union> (set_option (at_optstr a) \<union> {})))) (common_cost a)"
    unfolding hwitag_add_common_def common_tags_def common_cost_def
    by (intro adds_in_then adds_in_tags adds_in_times adds_in_option adds_in_names) (use assms in \<open>simp_all add: common_names_def\<close>)
  then show ?thesis by (simp add: common_names_def)
qed

subsection \<open>Devices\<close>

fun dev_code_cost :: "hw_dev \<Rightarrow> nat" where
  "dev_code_cost (Uart n a) = common_cost (uart_common a) + unat (uart_num_clks a) * spec_cost TAG_inputclk"
| "dev_code_cost (Enet n a) = common_cost (enet_common a) + (unat (enet_num_phys a) * spec_cost TAG_nicphyaddr +
     (unat (enet_num_clks a) * spec_cost TAG_inputclk + spec_cost (TAG_nicaddr 16)))"
| "dev_code_cost (Rtc_dev n a) = common_cost (rtc_common a) +
     (case centreg_name a of Some r \<Rightarrow> length r + 9 + spec_cost TAG_regname | None \<Rightarrow> 0)"
| "dev_code_cost (Dma n a) = common_cost a"
| "dev_code_cost (Timer n a) = common_cost (timer_common a) + unat (timer_num_clks a) * spec_cost TAG_inputclk"
| "dev_code_cost (I2c_bus a) = common_cost (i2c_common a) +
     (unat (i2c_num_clks a) * spec_cost TAG_inputclk + unat (i2c_num_busattr a) * spec_cost TAG_busattr)"
| "dev_code_cost (Spi_bus a) = common_cost (spi_common a) +
     (unat (spi_num_clks a) * spec_cost TAG_inputclk + unat (spi_num_busattr a) * spec_cost TAG_busattr)"
| "dev_code_cost (Usb_bus a) = common_cost a"
| "dev_code_cost (Pci_bus a) = common_cost (pci_common a) +
     (unat (pci_num_irqblks a) * spec_cost TAG_irqrange + unat (pci_num_busattr a) * spec_cost TAG_busattr)"
| "dev_code_cost (Can_bus a) = common_cost (can_common a) +
     (unat (can_num_clks a) * spec_cost TAG_inputclk + unat (can_num_memaddr a) * spec_cost TAG_location)"

lemma adds_in_enet:
  assumes "\<forall>n \<in> common_names (enet_common a). valid_name n" and "length (enet_mac a) = 6"
  shows "adds_in (enet_tags a) (\<lambda>nf. dev_tags nf (Enet n a)) (common_names (enet_common a)) (dev_code_cost (Enet n a))"
proof -
  have "adds_in (if enet_mac a \<noteq> replicate 6 0 then hwitag_add_nicaddr (enet_mac a) 6 else hret ())
      (\<lambda>_. if enet_mac a \<noteq> replicate 6 0 then [mac_spec (enet_mac a)] else []) {} (spec_cost (TAG_nicaddr 16))"
    using adds_in_mac [OF assms(2)] adds_in_mono [OF adds_in_ret] by simp
  moreover have "adds_in (for_each [0..<unat (enet_num_phys a)] (\<lambda>i. hwitag_add_nicphyaddr (of_nat i)))
      (\<lambda>_. concat (map (\<lambda>i. [nicphyaddr_spec (of_nat i)]) [0..<unat (enet_num_phys a)])) {}
      (length [0..<unat (enet_num_phys a)] * spec_cost TAG_nicphyaddr)"
    by (rule adds_in_for_each) (rule adds_in_tags)
  then have "adds_in (for_each [0..<unat (enet_num_phys a)] (\<lambda>i. hwitag_add_nicphyaddr (of_nat i)))
      (\<lambda>_. concat (map (\<lambda>i. [nicphyaddr_spec (of_nat i)]) [0..<unat (enet_num_phys a)])) {}
      (unat (enet_num_phys a) * spec_cost TAG_nicphyaddr)" by simp
  ultimately have "adds_in (enet_tags a) (\<lambda>nf. dev_tags nf (Enet n a)) (common_names (enet_common a) \<union> ({} \<union> ({} \<union> {})))
      (dev_code_cost (Enet n a))"
    unfolding enet_tags_def dev_tags.simps dev_code_cost.simps
    by (intro adds_in_then adds_in_common adds_in_times adds_in_tags) (use assms in simp_all)
  then show ?thesis by simp
qed

lemma dev_code_in:
  assumes "dev_ok d"
  shows "adds_in (dev_code d) (\<lambda>nf. dev_tags nf d) (dev_names d) (dev_code_cost d)"
proof -
  have v: "\<forall>n \<in> dev_names d. valid_name n" using assms by (simp add: dev_ok_def)
  note defs = uart_tags_def rtc_tags_def timer_tags_def i2c_tags_def spi_tags_def pci_tags_def can_tags_def
    dev_tags.simps dev_code_cost.simps dev_code.simps dev_names.simps
  have none: "adds_in m T (N \<union> {}) c \<Longrightarrow> adds_in m T N c" "adds_in m T (N \<union> ({} \<union> {})) c \<Longrightarrow> adds_in m T N c" for m T N c
    by simp_all
  show ?thesis
  proof (cases d)
    case (Uart n a)
    show ?thesis unfolding Uart defs
      by (rule none(1), intro adds_in_then adds_in_common adds_in_times adds_in_tags) (use v Uart in simp)
  next
    case (Enet n a)
    then show ?thesis using adds_in_enet [of a n] assms v by (simp add: dev_ok_def)
  next
    case (Rtc_dev n a)
    show ?thesis unfolding Rtc_dev defs
      by (intro adds_in_then adds_in_common adds_in_option adds_in_names) (use v Rtc_dev in auto)
  next
    case (Timer n a)
    show ?thesis unfolding Timer defs
      by (rule none(1), intro adds_in_then adds_in_common adds_in_times adds_in_tags) (use v Timer in simp)
  next
    case (I2c_bus a)
    show ?thesis unfolding I2c_bus defs
      by (rule none(2), intro adds_in_then adds_in_common adds_in_times adds_in_tags) (use v I2c_bus in simp)
  next
    case (Spi_bus a)
    show ?thesis unfolding Spi_bus defs
      by (rule none(2), intro adds_in_then adds_in_common adds_in_times adds_in_tags) (use v Spi_bus in simp)
  next
    case (Pci_bus a)
    show ?thesis unfolding Pci_bus defs
      by (rule none(2), intro adds_in_then adds_in_common adds_in_times adds_in_tags) (use v Pci_bus in simp)
  next
    case (Can_bus a)
    show ?thesis unfolding Can_bus defs
      by (rule none(2), intro adds_in_then adds_in_common adds_in_times adds_in_tags) (use v Can_bus in simp)
  qed (use v adds_in_common in auto)
qed

lemma device_add_total:
  assumes lib: "lib_ok lib" and rep: "hw_rep lib ns I s" and v: "valid_name name"
    and bus: "bus \<noteq> HWI_NULL_OFF" "owner_ok lib I bus" and lf: "left s (length name + 9 + tag_cost TAG_device)"
  obtains off s' where "hwidev_add lib name pnp bus s = Inr (off, s')" "took (length name + 9 + tag_cost TAG_device) s s'"
proof -
  obtain tag s1 where a: "hwi_alloc_item lib TAG_device name bus s = Inr (tag, s1)" "took (length name + 9 + tag_cost TAG_device) s s1"
    by (rule alloc_item_total [OF lib rep bus(2) item_infos(3) v lf])
  obtain ns' where n: "tag = total_len I" "hw_rep lib ns' (I @ [new_item TAG_device name bus]) s1"
    using alloc_item_rep [OF lib rep bus(2) item_infos(3) v a(1)] by auto
  have "tag + 16 \<le> length (sp_hwinfo s1)"
    using rep_within(3) [OF n(2)] rep_offset [OF n(2)] n(1)
    by (simp add: new_item_def item_len_def head_len_def tag_kinds)
  then obtain s' where f: "set_fields tag [(12, le32l pnp)] s1 = Inr ((), s')" "took 0 s1 s'"
    by (rule set_fields_total [of 12 16 "[(12, le32l pnp)]" tag s1, rotated]) simp_all
  then show ?thesis using a(1) f(1) took_trans [OF a(2) f(2)] bus(1)
    by (intro that [of "hwi_tag2off lib tag" s']) (simp_all add: hwidev_add_def hbind_def hthen_def hret_def del: set_fields.simps)
qed

lemma bus_add_total:
  assumes lib: "lib_ok lib" and rep: "hw_rep lib ns I s" and v: "valid_name name"
    and bus: "bus \<noteq> HWI_NULL_OFF" "owner_ok lib I bus" and lf: "left s (length name + 9 + tag_cost TAG_bus)"
  obtains off s' where "hwibus_add lib name bus s = Inr (off, s')" "took (length name + 9 + tag_cost TAG_bus) s s'"
proof -
  obtain tag s1 where a: "hwi_alloc_item lib TAG_bus name bus s = Inr (tag, s1)" "took (length name + 9 + tag_cost TAG_bus) s s1"
    by (rule alloc_item_total [OF lib rep bus(2) item_infos(2) v lf])
  then show ?thesis using bus(1)
    by (intro that [of "hwi_tag2off lib tag" s1]) (simp_all add: hwibus_add_def hbind_def hret_def)
qed

fun dev_base_cost :: "hw_dev \<Rightarrow> nat" where
  "dev_base_cost (Uart n a) = length n + 9 + tag_cost TAG_device"
| "dev_base_cost (Enet n a) = length n + 9 + tag_cost TAG_device"
| "dev_base_cost (Rtc_dev n a) = length n + 9 + tag_cost TAG_device"
| "dev_base_cost (Dma n a) = length n + 9 + tag_cost TAG_device"
| "dev_base_cost (Timer n a) = length n + 9 + tag_cost TAG_device"
| "dev_base_cost d = 12 + tag_cost TAG_bus"

definition dev_cost :: "hw_dev \<Rightarrow> nat" where
  "dev_cost d = dev_base_cost d + dev_code_cost d"

lemma dev_base_total:
  assumes "lib_ok lib" and "hw_rep lib ns I s" and "dev_ok d" and "bus \<noteq> HWI_NULL_OFF" "owner_ok lib I bus"
    and "left s (dev_base_cost d)"
  shows "\<exists>off s'. dev_base lib d bus s = Inr (off, s') \<and> took (dev_base_cost d) s s'"
proof -
  have v: "valid_name (fst (snd (dev_head d)))" using assms(3) by (simp add: dev_ok_def)
  have dv: "\<exists>off s'. hwidev_add lib n pnp bus s = Inr (off, s') \<and> took (length n + 9 + tag_cost TAG_device) s s'"
    if "valid_name n" "left s (length n + 9 + tag_cost TAG_device)" for n pnp
    by (rule device_add_total [OF assms(1,2) that(1) assms(4,5) that(2)]) blast
  have bs: "\<exists>off s'. hwibus_add lib n bus s = Inr (off, s') \<and> took (length n + 9 + tag_cost TAG_bus) s s'"
    if "valid_name n" "left s (length n + 9 + tag_cost TAG_bus)" for n
    by (rule bus_add_total [OF assms(1,2) that(1) assms(4,5) that(2)]) blast
  show ?thesis
    by (cases d) (use v assms(6) dv bs [of "fst (snd (dev_head d))"] in simp_all)
qed

text \<open>Where the page has room for a device, adding it returns, with the item and its tags in place.\<close>

lemma add_dev_total:
  assumes lib: "lib_ok lib" and rep: "hw_rep lib ns I s" and ok: "dev_ok d"
    and bus: "bus \<noteq> HWI_NULL_OFF" "owner_ok lib I bus" and lf: "left s (dev_cost d)"
  obtains s' ns' where "add_dev lib d bus s = Inr (hwi_tag2off lib (total_len I), s')" "took (dev_cost d) s s'"
    "sp_asinfo s' = sp_asinfo s" "names_ext ns ns'"
    "hw_rep lib ns' (fold place_tag (dev_tags (pool_off ns') d) (I @ [dev_item d bus])) s'"
proof -
  obtain off s1 where b: "dev_base lib d bus s = Inr (off, s1)" "took (dev_base_cost d) s s1"
    using dev_base_total [OF lib rep ok bus left_mono [OF lf]] by (auto simp: dev_cost_def)
  obtain ns1 where r: "hw_rep lib ns1 (I @ [dev_item d bus]) s1"
    using dev_base_rep [OF lib rep ok bus b(1)] by blast
  obtain s' where c: "dev_code d s1 = Inr ((), s')" "took (dev_code_cost d) s1 s'"
    by (rule adds_in_returns [OF dev_code_in [OF ok] r _ left_took [OF lf [unfolded dev_cost_def] b(2)]]) simp
  have "off \<noteq> HWI_NULL_OFF" using dev_base_rep [OF lib rep ok bus b(1)] rep_off_valid [OF lib rep] by simp
  then have run: "add_dev lib d bus s = Inr (off, s')"
    using b(1) c(1) by (simp add: add_dev_split hbind_def hthen_def hret_def)
  show ?thesis
    using that add_dev_rep [OF lib rep ok bus run] run took_trans [OF b(2) c(2)] by (auto simp: dev_cost_def)
qed

end
