(* ===== verification/HwiPrint.thy ===== *)
theory HwiPrint
  imports HwinfoSpec
begin

section \<open>Reading the hardware information section\<close>

text \<open>
  \<open>print_hwinfo\<close> of \<open>startup/lib/print_sysp.c\<close>: the walk over the tags by their sizes, up to
  a size of zero. A printed line is a record of what its \<open>kprintf\<close> calls show. A section
  without an end is read past its last byte, which is an error here.
\<close>

record hwi_line =
  ln_off :: nat
  ln_size :: u16
  ln_tag :: u16
  ln_name :: string
  ln_item :: "(u16 \<times> u16 \<times> string \<times> u16 \<times> u16) option"
  ln_bytes :: "u8 list"

definition get_string :: "lsp \<Rightarrow> u16 \<Rightarrow> string" where
  "get_string s off = hwi_find_string s (unat off)"

definition upper_name :: "string \<Rightarrow> bool" where
  "upper_name n \<longleftrightarrow> n \<noteq> [] \<and> of_char (hd n) \<ge> (65 :: nat) \<and> of_char (hd n) \<le> (90 :: nat)"

definition print_tag :: "lsp \<Rightarrow> nat \<Rightarrow> hwi_line" where
  "print_tag s p =
     (let b = sp_hwinfo s; sz = get_le 2 p b; next_tag = p + 4 * unat sz; nm = get_string s (get_le 2 (p + 2) b)
      in if upper_name nm
         then \<lparr>ln_off = p, ln_size = sz, ln_tag = get_le 2 (p + 2) b, ln_name = nm,
                ln_item = Some (get_le 2 (p + 4) b, get_le 2 (p + 6) b, get_string s (get_le 2 (p + 6) b),
                  get_le 2 (p + 8) b, get_le 2 (p + 10) b),
                ln_bytes = drop (p + 12) (take next_tag b)\<rparr>
         else \<lparr>ln_off = p, ln_size = sz, ln_tag = get_le 2 (p + 2) b, ln_name = nm, ln_item = None,
                ln_bytes = drop (p + 4) (take next_tag b)\<rparr>)"

function print_hwinfo_from :: "lsp \<Rightarrow> nat \<Rightarrow> hwi_line list res" where
  "print_hwinfo_from s p =
     (if length (sp_hwinfo s) < p + 4 then Inl ''read past the hwinfo section''
      else let sz = get_le 2 p (sp_hwinfo s) :: u16
           in if sz = 0 then Inr []
              else bind_res (print_hwinfo_from s (p + 4 * unat sz)) (\<lambda>ls. Inr (print_tag s p # ls)))"
  by pat_completeness auto
termination
proof (relation "measure (\<lambda>(s, p). length (sp_hwinfo s) - p)")
  fix s :: lsp and p sz
  assume "\<not> length (sp_hwinfo s) < p + 4" "sz = (get_le 2 p (sp_hwinfo s) :: u16)" "sz \<noteq> 0"
  moreover from this(3) have "0 < unat sz" by (metis gr0I unat_eq_0)
  ultimately show "((s, p + 4 * unat sz), s, p) \<in> measure (\<lambda>(s, p). length (sp_hwinfo s) - p)"
    by simp
qed simp

declare print_hwinfo_from.simps [simp del]

definition print_hwinfo :: "lsp \<Rightarrow> hwi_line list res" where
  "print_hwinfo s = print_hwinfo_from s 0"

subsection \<open>The lines of an abstract section\<close>

definition tag_line :: "(string \<Rightarrow> nat) \<Rightarrow> nat \<Rightarrow> htag \<Rightarrow> hwi_line" where
  "tag_line nf p t = \<lparr>ln_off = p, ln_size = of_nat (tag_len t div 4), ln_tag = of_nat (nf (ht_name t)), ln_name = ht_name t,
     ln_item = None, ln_bytes = ht_body t\<rparr>"

fun tag_lines :: "(string \<Rightarrow> nat) \<Rightarrow> nat \<Rightarrow> htag list \<Rightarrow> hwi_line list" where
  "tag_lines nf p [] = []"
| "tag_lines nf p (t # ts) = tag_line nf p t # tag_lines nf (p + tag_len t) ts"

definition item_line :: "(string \<Rightarrow> nat) \<Rightarrow> nat \<Rightarrow> nat \<Rightarrow> hitem \<Rightarrow> hwi_line" where
  "item_line nf k p it = \<lparr>ln_off = p, ln_size = of_nat (head_len it div 4), ln_tag = of_nat (nf (hi_kind it)),
     ln_name = hi_kind it,
     ln_item = Some (of_nat (item_len it div 4), of_nat (nf (hi_name it)), hi_name it, hi_owner it, of_nat k),
     ln_bytes = hi_body it\<rparr>"

fun item_lines :: "(string \<Rightarrow> nat) \<Rightarrow> (nat \<Rightarrow> nat) \<Rightarrow> nat \<Rightarrow> hitem list \<Rightarrow> hwi_line list" where
  "item_lines nf kf p [] = []"
| "item_lines nf kf p (it # its) =
     item_line nf (kf p) p it # tag_lines nf (p + head_len it) (hi_tags it) @ item_lines nf kf (p + item_len it) its"

text \<open>Item kinds start with a capital letter, tag names do not.\<close>

definition kinds_ok :: "hitem list \<Rightarrow> bool" where
  "kinds_ok I \<longleftrightarrow> (\<forall>it \<in> set I. upper_name (hi_kind it) \<and> (\<forall>t \<in> set (hi_tags it). \<not> upper_name (ht_name t)))"

subsection \<open>The walk\<close>

lemma get_le_at: "length A = p \<Longrightarrow> get_le 2 p (A @ le16 v @ C) = v"
  using get_le16 by blast

lemma print_step:
  assumes "sp_hwinfo s = A @ le16 (of_nat n) @ C" and "length A = p" and "0 < n" "n < 2 ^ 16" and "2 \<le> length C"
    and "print_hwinfo_from s (p + 4 * n) = Inr ls"
  shows "print_hwinfo_from s p = Inr (print_tag s p # ls)"
proof -
  have sz: "get_le 2 p (sp_hwinfo s) = (of_nat n :: u16)" using assms(1,2) get_le_at by simp
  have u: "unat (of_nat n :: u16) = n" using assms(4) by (simp add: unat_of_nat_small)
  then have "(of_nat n :: u16) \<noteq> 0" using assms(3) by (metis unat_eq_0 not_gr_zero)
  then show ?thesis
    using assms(1,2,5,6) sz u by (subst print_hwinfo_from.simps) (simp add: Let_def)
qed

lemma print_end:
  assumes "sp_hwinfo s = A @ replicate z 0" and "length A = p" and "4 \<le> z"
  shows "print_hwinfo_from s p = Inr []"
proof -
  have "replicate z (0::u8) = replicate (2 + (z - 2)) 0"
    by (rule arg_cong [where f = "\<lambda>n. replicate n 0"]) (use assms(3) in simp)
  then have "replicate z (0::u8) = le16 0 @ replicate (z - 2) 0"
    by (simp only: replicate_add le_bytes_0)
  then have "get_le 2 p (sp_hwinfo s) = (0 :: u16)" using assms(1,2) get_le_at by simp
  then show ?thesis using assms by (subst print_hwinfo_from.simps) (simp add: Let_def)
qed

lemma print_tag_tag:
  assumes "sp_hwinfo s = A @ enc_tag nf t @ R" and "length A = p" and "4 dvd length (ht_body t)"
    and "tag_len t div 4 < 2 ^ 16" and "get_string s (of_nat (nf (ht_name t))) = ht_name t" and "\<not> upper_name (ht_name t)"
  shows "print_tag s p = tag_line nf p t"
proof -
  let ?w = "of_nat (tag_len t div 4) :: u16" and ?n = "of_nat (nf (ht_name t)) :: u16"
  have b: "sp_hwinfo s = A @ le16 ?w @ le16 ?n @ ht_body t @ R" using assms(1) by (simp add: enc_tag_def)
  have 0: "get_le 2 p (sp_hwinfo s) = ?w" using b assms(2) get_le_at by simp
  have "sp_hwinfo s = (A @ le16 ?w) @ le16 ?n @ ht_body t @ R" using b by simp
  then have 2: "get_le 2 (p + 2) (sp_hwinfo s) = ?n" using assms(2) get_le_at [of "A @ le16 ?w" "p + 2"] by simp
  have d: "4 dvd tag_len t" "tag_len t = 4 + length (ht_body t)" using assms(3) by (simp_all add: tag_len_def)
  have "unat ?w = tag_len t div 4" by (rule unat_of_nat_small) (use assms(4) in simp)
  then have n: "4 * unat ?w = 4 + length (ht_body t)" using d by simp
  have "drop (p + 4) (take (p + 4 * unat ?w) (sp_hwinfo s)) = ht_body t"
    unfolding n using b assms(2) by simp
  then show ?thesis
    using 0 2 assms(5,6) by (simp add: print_tag_def Let_def tag_line_def)
qed

lemma print_tags:
  assumes "sp_hwinfo s = A @ concat (map (enc_tag nf) ts) @ R" and "length A = p" and "length (sp_hwinfo s) < 65535"
    and "\<And>t. t \<in> set ts \<Longrightarrow> 4 dvd length (ht_body t) \<and> get_string s (of_nat (nf (ht_name t))) = ht_name t \<and> \<not> upper_name (ht_name t)"
    and "print_hwinfo_from s (p + sum_list (map tag_len ts)) = Inr ls"
  shows "print_hwinfo_from s p = Inr (tag_lines nf p ts @ ls)"
  using assms
proof (induction ts arbitrary: A p)
  case (Cons t ts)
  let ?C = "concat (map (enc_tag nf) ts) @ R"
  have b: "sp_hwinfo s = A @ enc_tag nf t @ ?C" using Cons.prems(1) by simp
  have t: "4 dvd length (ht_body t)" "get_string s (of_nat (nf (ht_name t))) = ht_name t" "\<not> upper_name (ht_name t)"
    using Cons.prems(4) [of t] by auto
  have l: "length A + tag_len t \<le> length (sp_hwinfo s)" by (simp add: b)
  then have w: "tag_len t div 4 < 2 ^ 16" "0 < tag_len t div 4" using Cons.prems(3) by (auto simp: tag_len_def)
  have d: "4 * (tag_len t div 4) = tag_len t" using t(1) by (simp add: tag_len_def)
  have "print_hwinfo_from s (p + tag_len t) = Inr (tag_lines nf (p + tag_len t) ts @ ls)"
    by (rule Cons.IH [of "A @ enc_tag nf t"]) (use Cons.prems in \<open>simp_all add: add.assoc\<close>)
  then have "print_hwinfo_from s p = Inr (print_tag s p # (tag_lines nf (p + tag_len t) ts @ ls))"
    by (intro print_step [where A = A and C = "le16 (of_nat (nf (ht_name t))) @ ht_body t @ ?C", OF _ Cons.prems(2) w(2,1)])
      (use b d in \<open>simp_all add: enc_tag_def\<close>)
  then show ?case using print_tag_tag [OF b Cons.prems(2) t(1) w(1) t(2,3)] by simp
qed simp

lemma print_tag_item:
  assumes "sp_hwinfo s = A @ enc_item nf k it @ R" and "length A = p" and "4 dvd length (hi_body it)"
    and "head_len it div 4 < 2 ^ 16" and "get_string s (of_nat (nf (hi_kind it))) = hi_kind it" and "upper_name (hi_kind it)"
    and "get_string s (of_nat (nf (hi_name it))) = hi_name it"
  shows "print_tag s p = item_line nf k p it"
proof -
  let ?w = "le16 (of_nat (head_len it div 4))" and ?n = "le16 (of_nat (nf (hi_kind it)))" and ?iw = "le16 (of_nat (item_len it div 4))"
    and ?in = "le16 (of_nat (nf (hi_name it)))" and ?o = "le16 (hi_owner it)" and ?k = "le16 (of_nat k)"
  let ?R = "concat (map (enc_tag nf) (hi_tags it)) @ R"
  have b: "sp_hwinfo s = A @ ?w @ ?n @ ?iw @ ?in @ ?o @ ?k @ hi_body it @ ?R" using assms(1) by (simp add: enc_item_def)
  have 0: "get_le 2 p (sp_hwinfo s) = (of_nat (head_len it div 4) :: u16)"
    by (simp add: b get_le_at [OF assms(2)])
  have 2: "get_le 2 (p + 2) (sp_hwinfo s) = (of_nat (nf (hi_kind it)) :: u16)"
    using get_le_at [of "A @ ?w" "p + 2"] assms(2) by (simp add: b)
  have 4: "get_le 2 (p + 4) (sp_hwinfo s) = (of_nat (item_len it div 4) :: u16)"
    using get_le_at [of "A @ ?w @ ?n" "p + 4"] assms(2) by (simp add: b)
  have 6: "get_le 2 (p + 6) (sp_hwinfo s) = (of_nat (nf (hi_name it)) :: u16)"
    using get_le_at [of "A @ ?w @ ?n @ ?iw" "p + 6"] assms(2) by (simp add: b)
  have 8: "get_le 2 (p + 8) (sp_hwinfo s) = hi_owner it"
    using get_le_at [of "A @ ?w @ ?n @ ?iw @ ?in" "p + 8"] assms(2) by (simp add: b)
  have 10: "get_le 2 (p + 10) (sp_hwinfo s) = (of_nat k :: u16)"
    using get_le_at [of "A @ ?w @ ?n @ ?iw @ ?in @ ?o" "p + 10"] assms(2) by (simp add: b)
  have d: "4 dvd head_len it" "head_len it = 12 + length (hi_body it)" using assms(3) by (simp_all add: head_len_def)
  have "unat (of_nat (head_len it div 4) :: u16) = head_len it div 4" by (rule unat_of_nat_small) (use assms(4) in simp)
  then have n: "4 * unat (of_nat (head_len it div 4) :: u16) = 12 + length (hi_body it)" using d by simp
  have "drop (p + 12) (take (p + 4 * unat (of_nat (head_len it div 4) :: u16)) (sp_hwinfo s)) = hi_body it"
    unfolding n using b assms(2) by simp
  then show ?thesis
    using 0 2 4 6 8 10 assms(5-7) by (simp add: print_tag_def Let_def item_line_def)
qed

definition printable :: "lsp \<Rightarrow> (string \<Rightarrow> nat) \<Rightarrow> hitem \<Rightarrow> bool" where
  "printable s nf it \<longleftrightarrow> 4 dvd length (hi_body it) \<and> upper_name (hi_kind it) \<and>
      get_string s (of_nat (nf (hi_kind it))) = hi_kind it \<and> get_string s (of_nat (nf (hi_name it))) = hi_name it \<and>
      (\<forall>t \<in> set (hi_tags it). 4 dvd length (ht_body t) \<and> get_string s (of_nat (nf (ht_name t))) = ht_name t \<and> \<not> upper_name (ht_name t))"

lemma print_items:
  assumes "sp_hwinfo s = A @ enc_items nf kf p I @ R" and "length A = p" and "length (sp_hwinfo s) < 65535"
    and "\<forall>it \<in> set I. printable s nf it"
    and "print_hwinfo_from s (p + total_len I) = Inr ls"
  shows "print_hwinfo_from s p = Inr (item_lines nf kf p I @ ls)"
  using assms
proof (induction I arbitrary: A p)
  case (Cons it I)
  let ?E = "enc_items nf kf (p + item_len it) I @ R"
  have b: "sp_hwinfo s = A @ enc_item nf (kf p) it @ ?E" using Cons.prems(1) by simp
  have it: "4 dvd length (hi_body it)" "upper_name (hi_kind it)" "get_string s (of_nat (nf (hi_kind it))) = hi_kind it"
    "get_string s (of_nat (nf (hi_name it))) = hi_name it"
    "\<And>t. t \<in> set (hi_tags it) \<Longrightarrow> 4 dvd length (ht_body t) \<and> get_string s (of_nat (nf (ht_name t))) = ht_name t \<and> \<not> upper_name (ht_name t)"
    using Cons.prems(4) by (auto simp: printable_def)
  have "length A + item_len it \<le> length (sp_hwinfo s)" by (simp add: b)
  then have w: "head_len it div 4 < 2 ^ 16" "0 < head_len it div 4" using Cons.prems(3) by (auto simp: item_len_def head_len_def)
  have d: "4 * (head_len it div 4) = head_len it" using it(1) by (simp add: head_len_def)
  have rest: "print_hwinfo_from s (p + item_len it) = Inr (item_lines nf kf (p + item_len it) I @ ls)"
    by (rule Cons.IH [of "A @ enc_item nf (kf p) it"]) (use Cons.prems in \<open>simp_all add: add.assoc\<close>)
  let ?H = "A @ le16 (of_nat (head_len it div 4)) @ le16 (of_nat (nf (hi_kind it))) @ le16 (of_nat (item_len it div 4)) @
     le16 (of_nat (nf (hi_name it))) @ le16 (hi_owner it) @ le16 (of_nat (kf p)) @ hi_body it"
  have "print_hwinfo_from s (p + head_len it) =
      Inr (tag_lines nf (p + head_len it) (hi_tags it) @ (item_lines nf kf (p + item_len it) I @ ls))"
    by (rule print_tags [where A = ?H and R = ?E, OF _ _ Cons.prems(3) it(5)])
      (use b rest Cons.prems(2) in \<open>simp_all add: enc_item_def head_len_def item_len_def add.assoc\<close>)
  then have "print_hwinfo_from s p = Inr (print_tag s p # (tag_lines nf (p + head_len it) (hi_tags it) @ (item_lines nf kf (p + item_len it) I @ ls)))"
    by (intro print_step [where A = A and C = "drop 2 (enc_item nf (kf p) it) @ ?E", OF _ Cons.prems(2) w(2,1)])
      (use b d in \<open>simp_all add: enc_item_def\<close>)
  then show ?case using print_tag_item [OF b Cons.prems(2) it(1) w(1) it(3,2,4)] by simp
qed simp

lemma pool_off_less: "n \<in> set ns \<Longrightarrow> pool_off ns n < length (pool_text ns)"
  unfolding pool_off_def
proof (induction ns)
  case (Cons m ns)
  then show ?case by (cases "m = n") auto
qed simp

lemma rep_get_string:
  assumes "hw_rep lib ns I s" and "n \<in> set ns"
  shows "get_string s (of_nat (pool_off ns n)) = n"
proof -
  have inv: "pool_inv ns s" and rm: "room s" using assms(1) by (auto simp: hw_rep_def)
  have "length (pool_text ns) \<le> length (sp_strings s)" using inv by (auto simp: pool_inv_def)
  then have "pool_off ns n < 2 ^ 16"
    using pool_off_less [OF assms(2)] rm by (auto simp: room_def word_le_nat_alt)
  then have "unat (of_nat (pool_off ns n) :: u16) = pool_off ns n" by (intro unat_of_nat_small) simp
  then show ?thesis using find_string_pool [OF inv assms(2)] by (simp add: get_string_def)
qed

lemma print_rep:
  assumes rep: "hw_rep lib ns I s" and k: "kinds_ok I"
  shows "print_hwinfo s = Inr (item_lines (pool_off ns) (kids_of lib I) 0 I)"
proof -
  obtain z where z: "8 \<le> z" "sp_hwinfo s = enc_items (pool_off ns) (kids_of lib I) 0 I @ replicate z 0"
    using rep by (auto simp: hw_rep_def)
  have len: "length (sp_hwinfo s) < 65535" using rep by (auto simp: hw_rep_def room_def word_le_nat_alt)
  have e: "print_hwinfo_from s (0 + total_len I) = Inr []"
    by (rule print_end [OF z(2)]) (use z(1) in simp_all)
  have ok: "\<forall>it \<in> set I. item_ok lib ns I it" using rep by (simp add: hw_rep_def)
  have "print_hwinfo_from s 0 = Inr (item_lines (pool_off ns) (kids_of lib I) 0 I @ [])"
    by (rule print_items [where A = "[]", OF _ _ len _ e])
      (use z(2) ok k rep_get_string [OF rep] in \<open>auto simp: printable_def item_ok_def tag_ok_def kinds_ok_def\<close>)
  then show ?thesis by (simp add: print_hwinfo_def)
qed

end
