(* ===== verification/HwiBoard.thy ===== *)
theory HwiBoard
  imports HwiTotal HwiPrint
begin

section \<open>The hardware information of the i.MX6 board\<close>

text \<open>
  \<open>hwi_imx6dq\<close> of \<open>boards/imx6x/sabrelite/hwi_imx6q_ddr3.c\<close>, one definition per block in the
  order of the source. The addresses and vectors are those of \<open>public/arm/mx6x.h\<close>;
  \<open>uart_clock\<close> is the board's variable.
\<close>

subsection \<open>The function\<close>

definition set_loc :: "hwi_lib \<Rightarrow> u32 \<Rightarrow> u32 \<Rightarrow> hwiattr_common \<Rightarrow> hwiattr_common hw" where
  "set_loc lib base len a = hbind (hwi_find_as lib base True) (\<lambda>as. hret (HWIATTR_SET_LOCATION base len 0 as a))"

definition assert_unit :: "hwi_lib \<Rightarrow> u32 \<Rightarrow> int \<Rightarrow> unit hw" where
  "assert_unit lib off n = hbind (hget (hwi_find_unit lib off)) (\<lambda>u. hassert (u = n))"

definition one_irq :: hwiattr_common where
  "one_irq = HWIATTR_SET_NUM_IRQ 1 HWIATTR_COMMON_INITIALIZER"

definition ignore :: "'a hw \<Rightarrow> unit hw" where
  "ignore m = hbind m (\<lambda>_. hret ())"

definition imx6_i2c :: "hwi_lib \<Rightarrow> u32 \<Rightarrow> u32 \<Rightarrow> int \<Rightarrow> unit hw" where
  "imx6_i2c lib base irq unit =
     hbind (set_loc lib base 0x4000 one_irq) (\<lambda>c.
     hbind (hwibus_add_i2c lib 0 (Some \<lparr>i2c_common = c, i2c_num_clks = 0, i2c_num_busattr = 0\<rparr>)) (\<lambda>off.
     hthen (assert_unit lib off unit) (ignore (hwitag_set_ivec lib off 0 irq))))"

definition imx6_uart :: "hwi_lib \<Rightarrow> u32 \<Rightarrow> unit hw" where
  "imx6_uart lib uart_clock =
     hbind (set_loc lib 0x021F0000 0x4000 one_irq) (\<lambda>c.
     hbind (hwidev_add_uart lib ''uart'' (Some \<lparr>uart_common = c, uart_num_clks = 1\<rparr>) 0) (\<lambda>off.
     hthen (assert_unit lib off 0)
    (hthen (ignore (hwitag_set_ivec lib off 0 61))
    (hthen (ignore (hwitag_set_inputclk lib off 0 uart_clock 16))
    (hbind (hget (hwi_find_device lib ''uart'' 0)) (\<lambda>dev. ignore (hwi_add_synonym lib dev ''sermxl'')))))))"

definition imx6_fec :: "hwi_lib \<Rightarrow> unit hw" where
  "imx6_fec lib =
     hbind (set_loc lib 0x02188000 0x4000 one_irq) (\<lambda>c.
     hbind (hwidev_add_enet lib ''fec''
       (Some \<lparr>enet_common = c, enet_mac = replicate 6 0, enet_num_clks = 0, enet_num_phys = 0\<rparr>) 0) (\<lambda>off.
     hthen (assert_unit lib off 0) (ignore (hwitag_set_avail_ivec lib off 0 150))))"

definition imx6_usb :: "hwi_lib \<Rightarrow> unit hw" where
  "imx6_usb lib =
     hbind (set_loc lib 0x02184000 0x4000 one_irq) (\<lambda>c.
     hbind (hwibus_add_usb lib 0 (Some c)) (\<lambda>off.
     hthen (hassert (off \<noteq> HWI_NULL_OFF)) (ignore (hwitag_set_avail_ivec lib off 0 75))))"

definition imx6_sdma :: "hwi_lib \<Rightarrow> unit hw" where
  "imx6_sdma lib =
     hbind (set_loc lib 0x020EC000 0x4000 one_irq) (\<lambda>c.
     hbind (hwidev_add_dma lib ''dma'' (Some c) 0) (\<lambda>off.
     hthen (assert_unit lib off 0) (ignore (hwitag_set_avail_ivec lib off 0 34))))"

definition imx6_wdog :: "hwi_lib \<Rightarrow> unit hw" where
  "imx6_wdog lib =
     hbind (set_loc lib 0x020BC000 0x4000 HWIATTR_COMMON_INITIALIZER) (\<lambda>c.
     hbind (hwidev_add_timer lib ''wdog'' (Some \<lparr>timer_common = c, timer_num_clks = 1\<rparr>) HWI_NULL_OFF) (\<lambda>off.
     hthen (hassert (off \<noteq> HWI_NULL_OFF)) (ignore (hwitag_set_inputclk lib off 0 10 1))))"

definition imx6x_hwibus_add_can :: "hwi_lib \<Rightarrow> u32 \<Rightarrow> hwiattr_can option \<Rightarrow> u32 hw" where
  "imx6x_hwibus_add_can lib parent attr = with_attr (hwibus_add lib ''can'' parent) attr
     (\<lambda>a. hthen (hwitag_add_common (can_common a)) (times (can_num_clks a) (hwitag_add_inputclk 0 1)))"

definition imx6_can :: "hwi_lib \<Rightarrow> u32 \<Rightarrow> u32 \<Rightarrow> u32 \<Rightarrow> int \<Rightarrow> unit hw" where
  "imx6_can lib port mem irq unit =
     hbind (set_loc lib port 0x4000 one_irq) (\<lambda>c.
     hbind (imx6x_hwibus_add_can lib 0 (Some \<lparr>can_common = c, can_num_clks = 0, can_num_memaddr = 1\<rparr>)) (\<lambda>off.
     hthen (hwitag_add_location mem 0x4000 0 0)
    (hthen (assert_unit lib off unit) (ignore (hwitag_set_ivec lib off 0 irq)))))"

text \<open>
  The devices without a class: the item, its common tags and, where the source sets one, its
  vector.
\<close>

definition imx6_plain :: "hwi_lib \<Rightarrow> string \<Rightarrow> u32 \<Rightarrow> u32 \<Rightarrow> hwiattr_common \<Rightarrow> u32 option \<Rightarrow> unit hw" where
  "imx6_plain lib name base len a vec =
     hbind (hwidev_add lib name 0 HWI_NULL_OFF) (\<lambda>off.
     hbind (set_loc lib base len a) (\<lambda>c.
     hthen (hwitag_add_common c)
    (hthen (hassert (off \<noteq> HWI_NULL_OFF))
           (case vec of Some v \<Rightarrow> ignore (hwitag_set_ivec lib off 0 v) | None \<Rightarrow> hret ()))))"

text \<open>The three SSI blocks assert before they add their tags.\<close>

definition imx6_ssi :: "hwi_lib \<Rightarrow> u32 \<Rightarrow> unit hw" where
  "imx6_ssi lib base =
     hbind (hwidev_add lib ''ssi'' 0 HWI_NULL_OFF) (\<lambda>off.
     hthen (hassert (off \<noteq> HWI_NULL_OFF))
    (hbind (set_loc lib base 0x4000 HWIATTR_COMMON_INITIALIZER) hwitag_add_common))"

definition hwi_imx6dq :: "hwi_lib \<Rightarrow> u32 \<Rightarrow> unit hw" where
  "hwi_imx6dq lib uart_clock =
     hthen (imx6_i2c lib 0x021A0000 68 0)
    (hthen (imx6_i2c lib 0x021A4000 69 1)
    (hthen (imx6_i2c lib 0x021A8000 70 2)
    (hthen (imx6_uart lib uart_clock)
    (hthen (imx6_fec lib)
    (hthen (imx6_usb lib)
    (hthen (imx6_sdma lib)
    (hthen (imx6_wdog lib)
    (hthen (imx6_can lib 0x02090000 0x02090080 142 0)
    (hthen (imx6_can lib 0x02094000 0x02094080 143 1)
    (hthen (imx6_plain lib ''mlb'' 0x0218C000 0x4000 one_irq (Some 85))
    (hthen (imx6_plain lib ''gpu2d'' 0x00134000 0x4000 HWIATTR_COMMON_INITIALIZER None)
    (hthen (imx6_plain lib ''gpu3d'' 0x00130000 0x4000 one_irq (Some 41))
    (hthen (imx6_plain lib ''ipu'' 0x02600000 0x400000 HWIATTR_COMMON_INITIALIZER None)
    (hthen (imx6_plain lib ''ipu'' 0x02A00000 0x400000 HWIATTR_COMMON_INITIALIZER None)
    (hthen (imx6_plain lib ''vpu'' 0x02040000 0x3C000 one_irq (Some 44))
    (hthen (imx6_plain lib ''esai'' 0x02024000 0x4000 one_irq None)
    (hthen (imx6_ssi lib 0x02028000)
    (hthen (imx6_ssi lib 0x0202C000)
           (imx6_ssi lib 0x02030000)))))))))))))))))))"

end
