(* ===== verification/HwiSection.thy ===== *)
theory HwiSection
  imports HwiTotal HwiPrint
begin

section \<open>The hardware information section: its properties\<close>

text \<open>
  The section as startup first makes it (\<open>hwi_default\<close> on an empty section), devices added to
  it, and what a reader of the section gets.
\<close>

subsection \<open>The first two items\<close>

definition blank_section :: "lsp \<Rightarrow> bool" where
  "blank_section s \<longleftrightarrow> room s \<and> hwi_offset s = 0 \<and> hwi_last_item s = 0 \<and> sp_strings s \<noteq> [] \<and>
     (\<forall>c \<in> set (sp_strings s). c = NUL) \<and> 8 \<le> length (sp_hwinfo s) \<and> (\<forall>b \<in> set (sp_hwinfo s). b = 0)"

lemma blank_rep:
  assumes "blank_section s"
  shows "hw_rep lib [] [] s"
proof -
  define k z where "k = length (sp_strings s)" "z = length (sp_hwinfo s)"
  have "sp_strings s = replicate k NUL" "sp_hwinfo s = replicate z 0"
    using assms by (auto simp: blank_section_def k_z_def intro: replicate_eqI)
  moreover have "0 < k" "8 \<le> z" using assms by (simp_all add: blank_section_def k_z_def)
  ultimately have "pool_inv [] s" "\<exists>z. 8 \<le> z \<and> sp_hwinfo s = replicate z 0"
    by (auto simp: pool_inv_def pool_names_def)
  then show ?thesis using assms by (simp add: hw_rep_def blank_section_def)
qed

definition default_items :: "hwi_lib \<Rightarrow> hitem list" where
  "default_items lib =
    [\<lparr>hi_kind = ''Group'', hi_name = ''hw'', hi_owner = ucast HWI_NULL_OFF, hi_body = [], hi_tags = []\<rparr>,
     \<lparr>hi_kind = ''Bus'', hi_name = ''unknown'', hi_owner = ucast (hwi_tag2off lib 0), hi_body = [], hi_tags = []\<rparr>]"

lemma new_items:
  "new_item TAG_group n w = \<lparr>hi_kind = ''Group'', hi_name = n, hi_owner = ucast w, hi_body = [], hi_tags = []\<rparr>"
  "new_item TAG_bus n w = \<lparr>hi_kind = ''Bus'', hi_name = n, hi_owner = ucast w, hi_body = [], hi_tags = []\<rparr>"
  by (simp_all add: new_item_def tag_kinds)

lemma valid_hw: "valid_name ''hw''" "valid_name ''unknown''"
  by (simp_all add: valid_name_def)

lemma owner_first: "owner_ok lib (it # I) (hwi_tag2off lib 0)"
  by (auto simp: owner_ok_def)

lemma default_total:
  assumes lib: "lib_ok lib" and blank: "blank_section s" and lf: "left s 91"
  obtains s' ns where "hwi_default lib s = Inr ((), s')" "hw_rep lib ns (default_items lib) s'" "took 91 s s'"
    "sp_asinfo s' = sp_asinfo s"
proof -
  note rep = blank_rep [OF blank, of lib]
  have n0: "owner_ok lib [] HWI_NULL_OFF" by (simp add: owner_ok_def)
  have c: "length ''hw'' + 9 + tag_cost TAG_group = 44" "length ''unknown'' + 9 + tag_cost TAG_bus = 47"
    by (simp_all add: tag_cost_def tag_kinds)
  obtain t1 s1 where 1: "hwi_alloc_item lib TAG_group ''hw'' HWI_NULL_OFF s = Inr (t1, s1)" "took 44 s s1"
    by (rule alloc_item_total [OF lib rep n0 item_infos(1) valid_hw(1)]) (use c lf left_mono in auto)
  obtain ns1 where r1: "t1 = 0" "sp_asinfo s1 = sp_asinfo s" "hw_rep lib ns1 [new_item TAG_group ''hw'' HWI_NULL_OFF] s1"
    using alloc_item_rep [OF lib rep n0 item_infos(1) valid_hw(1) 1(1)] by auto
  have lf1: "left s1 47" by (rule left_took [OF _ 1(2)]) (use lf in simp)
  obtain t2 s2 where 2: "hwi_alloc_item lib TAG_bus ''unknown'' (hwi_tag2off lib 0) s1 = Inr (t2, s2)" "took 47 s1 s2"
    by (rule alloc_item_total [OF lib r1(3) owner_first item_infos(2) valid_hw(2)]) (use c lf1 in auto)
  obtain ns2 where r2: "sp_asinfo s2 = sp_asinfo s1"
    "hw_rep lib ns2 ([new_item TAG_group ''hw'' HWI_NULL_OFF] @ [new_item TAG_bus ''unknown'' (hwi_tag2off lib 0)]) s2"
    using alloc_item_rep [OF lib r1(3) owner_first item_infos(2) valid_hw(2) 2(1)] by auto
  show ?thesis
  proof (rule that [of s2 ns2])
    show "hwi_default lib s = Inr ((), s2)" using 1(1) 2(1) r1(1) by (simp add: hwi_default_def hbind_def hret_def)
    show "hw_rep lib ns2 (default_items lib) s2" using r2(2) by (simp add: default_items_def new_items)
    show "took 91 s s2" using took_trans [OF 1(2) 2(2)] by simp
    show "sp_asinfo s2 = sp_asinfo s" using r1 r2 by simp
  qed
qed

subsection \<open>Concrete instances\<close>

text \<open>Offsets as word counts, a page of 16 KB with an empty section, and a serial port.\<close>

definition lib0 :: hwi_lib where
  "lib0 = \<lparr>hwi_find_item = (\<lambda>_ _ _. HWI_NULL_OFF), hwi_find_unit = (\<lambda>_ _. 0), hwi_find_device = (\<lambda>_ _ _. HWI_NULL_OFF),
     hwi_tag_find = (\<lambda>_ _ _ _. None), hwi_tag2off = (\<lambda>p. of_nat (p div 4)), hwi_off2tag = (\<lambda>w. 4 * unat w),
     as_entry2off = (\<lambda>_. 0)\<rparr>"

definition page0 :: lsp where
  "page0 = \<lparr>sp_total_size = 512, sp_max_size = 16384, sp_strings = replicate 8 NUL, sp_asinfo = [],
     sp_hwinfo = replicate 8 0, hwi_offset = 0, hwi_last_item = 0\<rparr>"

definition uart0 :: hw_dev where
  "uart0 = Uart ''uart'' \<lparr>uart_common = HWIATTR_SET_NUM_IRQ 1 (HWIATTR_SET_LOCATION 0x021F0000 0x4000 0 0 HWIATTR_COMMON_INITIALIZER),
     uart_num_clks = 1\<rparr>"

lemma lib0_ok: "lib_ok lib0"
proof -
  have "of_nat (p div 4) < (0xFFFF :: u32) \<and> 4 * unat (of_nat (p div 4) :: u32) = p" if "4 dvd p" "p < 65535" for p
  proof -
    have "unat (of_nat (p div 4) :: u32) = p div 4" by (rule unat_of_nat_small) (use that in simp)
    then show ?thesis using that by (auto simp: word_less_nat_alt)
  qed
  then show ?thesis by (simp add: lib_ok_def lib0_def HWI_NULL_OFF_def)
qed

lemma page0_blank: "blank_section page0" "left page0 91"
  by (simp_all add: blank_section_def page0_def room_def left_def)

lemma uart0_ok: "dev_ok uart0" "dev_cost uart0 \<le> 512"
  by (simp_all add: dev_ok_def uart0_def common_names_def HWIATTR_SET_NUM_IRQ_def HWIATTR_SET_LOCATION_def
      HWIATTR_COMMON_INITIALIZER_def valid_name_def dev_cost_def common_cost_def spec_cost_def tag_cost_def tag_kinds)

lemma default_page0:
  obtains s ns where "hwi_default lib0 page0 = Inr ((), s)" "hw_rep lib0 ns (default_items lib0) s" "left s 512"
proof -
  obtain s ns where "hwi_default lib0 page0 = Inr ((), s)" "hw_rep lib0 ns (default_items lib0) s" "took 91 page0 s"
    by (rule default_total [OF lib0_ok page0_blank])
  moreover from this(3) have "left s 512" by (rule left_took [rotated]) (simp add: left_def page0_def)
  ultimately show ?thesis using that by blast
qed

subsection \<open>Adding a device\<close>

text \<open>C34: where the page has room for it, adding a device or bus of any kind returns its offset in the
  section and leaves the old items and names as they were, followed by the new item with exactly the
  tags of its kind, in the order of the attributes.
\<close>

theorem device_added:
  assumes "lib_ok lib" and "hw_rep lib ns I s" and "dev_ok d" and "bus \<noteq> HWI_NULL_OFF" "owner_ok lib I bus"
    and "unat (sp_total_size s) + dev_cost d \<le> unat (sp_max_size s)"
  shows "\<exists>s' ns'. add_dev lib d bus s = Inr (hwi_tag2off lib (total_len I), s') \<and> names_ext ns ns' \<and>
    sp_asinfo s' = sp_asinfo s \<and> sp_total_size s' \<le> sp_max_size s' \<and>
    hw_rep lib ns' (fold place_tag (dev_tags (pool_off ns') d) (I @ [dev_item d bus])) s'"
proof -
  obtain s' ns' where a: "add_dev lib d bus s = Inr (hwi_tag2off lib (total_len I), s')"
    "sp_asinfo s' = sp_asinfo s" "names_ext ns ns'"
    "hw_rep lib ns' (fold place_tag (dev_tags (pool_off ns') d) (I @ [dev_item d bus])) s'"
    by (rule add_dev_total [OF assms(1-5) assms(6) [folded left_def]])
  then have "sp_total_size s' \<le> sp_max_size s'" by (simp add: hw_rep_def room_def)
  with a show ?thesis by blast
qed

theorem device_added_witness:
  "\<exists>s s' ns'. hwi_default lib0 page0 = Inr ((), s) \<and> add_dev lib0 uart0 0 s = Inr (6, s') \<and>
     hw_rep lib0 ns' (fold place_tag (dev_tags (pool_off ns') uart0) (default_items lib0 @ [dev_item uart0 0])) s'"
proof -
  obtain s ns where d: "hwi_default lib0 page0 = Inr ((), s)" "hw_rep lib0 ns (default_items lib0) s" "left s 512"
    by (rule default_page0)
  have bus: "0 \<noteq> HWI_NULL_OFF" "owner_ok lib0 (default_items lib0) 0"
    using owner_first [of lib0] by (simp_all add: default_items_def lib0_def HWI_NULL_OFF_def)
  have "hwi_tag2off lib0 (total_len (default_items lib0)) = 6"
    by (simp add: lib0_def default_items_def item_len_def head_len_def)
  then show ?thesis
    using device_added [OF lib0_ok d(2) uart0_ok(1) bus] left_mono [OF d(3) uart0_ok(2)] d(1) by (auto simp: left_def)
qed

subsection \<open>Reading it back\<close>



subsection \<open>Alignment\<close>



end
