(* ===== verification/HwiBoardSpec.thy ===== *)
theory HwiBoardSpec
  imports HwiBoard HwiSection
begin

section \<open>The hardware information of the board: what it represents\<close>

text \<open>
  Every block of \<open>hwi_imx6dq\<close> appends one item and fills in a tag of it. The blocks are
  described as steps from one abstract section to the next (\<open>board_step\<close>), under the laws the
  search functions of libdrvr keep (\<open>finder_ok\<close>), and composed to the table of the board.
\<close>

subsection \<open>The tags of the last item\<close>

fun placed :: "nat \<Rightarrow> tag_spec list \<Rightarrow> htag list" where
  "placed n [] = []"
| "placed n ((ti, fs) # ts) =
     (let pad = if ti_align ti = 8 \<and> \<not> 8 dvd n then [pad_tag] else []; t = filled_tag ti fs
      in pad @ t # placed (n + sum_list (map tag_len pad) + tag_len t) ts)"

lemma fold_place: "fold place_tag ts (J @ [it]) = J @ [it\<lparr>hi_tags := hi_tags it @ placed (total_len (J @ [it])) ts\<rparr>]"
proof (induction ts arbitrary: it)
  case (Cons tf ts)
  obtain ti fs where tf: "tf = (ti, fs)" by (cases tf)
  define pad where "pad = (if ti_align ti = 8 \<and> \<not> 8 dvd total_len (J @ [it]) then [pad_tag] else [])"
  define it1 where "it1 = it\<lparr>hi_tags := hi_tags it @ pad @ [filled_tag ti fs]\<rparr>"
  have p: "place_tag tf (J @ [it]) = J @ [it1]"
    by (simp add: place_tag_def tf it1_def pad_def)
  have n: "total_len (J @ [it1]) = total_len (J @ [it]) + sum_list (map tag_len pad) + tag_len (filled_tag ti fs)"
    by (simp add: it1_def item_len_def head_len_def)
  have "placed (total_len (J @ [it])) (tf # ts) = pad @ filled_tag ti fs # placed (total_len (J @ [it1])) ts"
    by (simp only: tf placed.simps Let_def n pad_def [symmetric])
  then show ?case by (simp only: fold_simps p Cons.IH) (simp add: it1_def)
qed simp

lemma placed_append:
  "placed n (ts @ us) = placed n ts @ placed (n + sum_list (map tag_len (placed n ts))) us"
  by (induction n ts rule: placed.induct) (simp_all add: Let_def add.assoc)

lemma placed_names: "t \<in> set (placed n ts) \<Longrightarrow> ht_name t = ''pad'' \<or> ht_name t \<in> (ti_name \<circ> fst) ` set ts"
  by (induction n ts rule: placed.induct) (auto simp: Let_def pad_tag_def filled_tag_def)

lemma placed_fields:
  assumes "fields_in 4 (unat (ti_size ti)) fs" and "fields_in 4 (unat (ti_size ti)) fs'" and "ti_align ti = 4"
  shows "\<exists>B. placed n ((ti, fs) # us) = filled_tag ti fs # B \<and> placed n ((ti, fs') # us) = filled_tag ti fs' # B"
  using assms by simp

subsection \<open>Fields of a tag of the last item\<close>

abbreviation refilled :: "(nat \<times> u8 list) list \<Rightarrow> htag \<Rightarrow> htag" where
  "refilled fs t \<equiv> t\<lparr>ht_body := write_fields (map (\<lambda>(off, bs). (off - 4, bs)) fs) (ht_body t)\<rparr>"

lemma enc_tag_refilled:
  assumes "fields_in 4 (tag_len t) fs"
  shows "write_fields fs (enc_tag nf t) = enc_tag nf (refilled fs t)" "tag_len (refilled fs t) = tag_len t"
proof -
  let ?H = "le16 (of_nat (tag_len t div 4)) @ le16 (of_nat (nf (ht_name t)))"
  show l: "tag_len (refilled fs t) = tag_len t"
    using fields_in_map [OF assms, of 4] length_write_fields by (simp add: tag_len_def)
  have "write_fields fs (?H @ ht_body t) = ?H @ write_fields (map (\<lambda>(off, bs). (off - length ?H, bs)) fs) (ht_body t)"
    by (rule write_fields_behind) (use assms in \<open>simp add: tag_len_def\<close>)
  then show "write_fields fs (enc_tag nf t) = enc_tag nf (refilled fs t)" using l by (simp add: enc_tag_def)
qed

lemma rep_set_tag:
  assumes rep: "hw_rep lib ns (J @ [it\<lparr>hi_tags := A @ t # B\<rparr>]) s" and fs: "fields_in 4 (tag_len t) fs"
  obtains s' where "set_fields (total_len J + head_len it + sum_list (map tag_len A)) fs s = Inr ((), s')"
    "hw_rep lib ns (J @ [it\<lparr>hi_tags := A @ refilled fs t # B\<rparr>]) s'" "took 0 s s'" "sp_asinfo s' = sp_asinfo s"
proof -
  let ?old = "it\<lparr>hi_tags := A @ t # B\<rparr>" and ?new = "it\<lparr>hi_tags := A @ refilled fs t # B\<rparr>"
  let ?nf = "pool_off ns" and ?kf = "kids_of lib (J @ [?old])"
  note l = enc_tag_refilled(2) [OF fs]
  have il: "item_len ?new = item_len ?old" using l by (simp add: item_len_def head_len_def)
  let ?P = "enc_items ?nf ?kf 0 J @
      (le16 (of_nat (head_len it div 4)) @ le16 (of_nat (?nf (hi_kind it)))) @ le16 (of_nat (item_len ?old div 4)) @
      (le16 (of_nat (?nf (hi_name it))) @ le16 (hi_owner it)) @ le16 (of_nat (?kf (total_len J))) @
      hi_body it @ concat (map (enc_tag ?nf) A)"
  let ?Z = "concat (map (enc_tag ?nf) B)"
  have P: "length ?P = total_len J + head_len it + sum_list (map tag_len A)"
    by (simp add: head_len_def length_concat comp_def)
  have old: "enc_items ?nf ?kf 0 (J @ [?old]) = ?P @ enc_tag ?nf t @ ?Z"
    by (simp add: enc_items_append enc_item_def head_len_def)
  have new: "enc_items ?nf ?kf 0 (J @ [?new]) = ?P @ enc_tag ?nf (refilled fs t) @ ?Z"
    by (simp add: enc_items_append enc_item_def il) (simp add: head_len_def)
  obtain z where z: "sp_hwinfo s = enc_items ?nf ?kf 0 (J @ [?old]) @ replicate z 0" using rep by (auto simp: hw_rep_def)
  have run: "set_fields (length ?P) fs s = Inr ((), s\<lparr>sp_hwinfo := enc_items ?nf ?kf 0 (J @ [?new]) @ replicate z 0\<rparr>)"
    if "sp_hwinfo s = enc_items ?nf ?kf 0 (J @ [?old]) @ replicate z 0" for z
  proof -
    have "sp_hwinfo s = ?P @ enc_tag ?nf t @ (?Z @ replicate z 0)" using that old by simp
    then have "set_fields (length ?P) fs s =
        Inr ((), s\<lparr>sp_hwinfo := ?P @ write_fields fs (enc_tag ?nf t) @ (?Z @ replicate z 0)\<rparr>)"
      by (rule set_fields_inside [where lo = 4]) (use fs in simp)
    then show ?thesis by (simp only: enc_tag_refilled(1) [OF fs] new) simp
  qed
  define s' where "s' = s\<lparr>sp_hwinfo := enc_items ?nf ?kf 0 (J @ [?new]) @ replicate z 0\<rparr>"
  have "item_ok lib ns (J @ [?old]) ?old" using rep by (simp add: hw_rep_def)
  then have "item_ok lib ns (J @ [?old]) ?new" using l by (auto simp: item_ok_def tag_ok_def tag_len_def)
  then have "hw_rep lib ns (J @ [?new]) s'"
    by (intro rep_last_fields [OF rep]) (use il run [OF z] run in \<open>auto simp: s'_def\<close>)
  moreover have "took 0 s s'" by (simp add: s'_def took_def)
  moreover have "set_fields (total_len J + head_len it + sum_list (map tag_len A)) fs s = Inr ((), s')"
    using run [OF z] unfolding P s'_def .
  moreover have "sp_asinfo s' = sp_asinfo s" by (simp add: s'_def)
  ultimately show ?thesis using that by blast
qed

subsection \<open>The search functions\<close>

text \<open>
  What libc and libdrvr promise of a section that holds the items \<open>I\<close>: \<open>hwi_tag_find\<close>
  returns the tag with the given name and index of the item, and the next index;
  \<open>hwi_find_unit\<close> counts the earlier items with the same name; \<open>hwi_find_item\<close> and
  \<open>hwi_find_device\<close> return the first item with the name, or with the path of owner and name.
\<close>

definition finds_tags :: "hwi_lib \<Rightarrow> bool" where
  "finds_tags lib \<longleftrightarrow> (\<forall>ns J it K A t B idx s. hw_rep lib ns (J @ it # K) s \<and> kinds_ok (J @ it # K) \<and>
     hi_tags it = A @ t # B \<and> unat idx = length (filter (\<lambda>u. ht_name u = ht_name t) A) \<longrightarrow>
     hwi_tag_find lib (hwi_tag2off lib (total_len J)) (ht_name t) idx s =
       Some (total_len J + head_len it + sum_list (map tag_len A), idx + 1))"

definition finds_units :: "hwi_lib \<Rightarrow> bool" where
  "finds_units lib \<longleftrightarrow> (\<forall>ns J it K s. hw_rep lib ns (J @ it # K) s \<and> kinds_ok (J @ it # K) \<longrightarrow>
     hwi_find_unit lib (hwi_tag2off lib (total_len J)) s =
       int (length (filter (\<lambda>x. hi_kind x = hi_kind it \<and> hi_name x = hi_name it) J)))"

definition finds_items :: "hwi_lib \<Rightarrow> bool" where
  "finds_items lib \<longleftrightarrow> (\<forall>ns J it K s. hw_rep lib ns (J @ it # K) s \<and> kinds_ok (J @ it # K) \<longrightarrow>
     ((\<forall>x \<in> set J. hi_name x \<noteq> hi_name it) \<longrightarrow>
       hwi_find_item lib HWI_NULL_OFF [hi_name it] s = hwi_tag2off lib (total_len J)) \<and>
     (hi_kind it = ''Device'' \<and> (\<forall>x \<in> set J. hi_kind x = ''Device'' \<longrightarrow> hi_name x \<noteq> hi_name it) \<longrightarrow>
       hwi_find_device lib (hi_name it) 0 s = hwi_tag2off lib (total_len J)))"

definition finds_paths :: "hwi_lib \<Rightarrow> bool" where
  "finds_paths lib \<longleftrightarrow> (\<forall>ns J ow J' it K s. hw_rep lib ns (J @ ow # J' @ it # K) s \<and> kinds_ok (J @ ow # J' @ it # K) \<and>
     (\<forall>x \<in> set J. hi_name x \<noteq> hi_name ow) \<and> (\<forall>x \<in> set (J @ ow # J'). hi_name x \<noteq> hi_name it) \<and>
     hi_owner it = ucast (hwi_tag2off lib (total_len J)) \<longrightarrow>
     hwi_find_item lib HWI_NULL_OFF [hi_name ow, hi_name it] s = hwi_tag2off lib (total_len (J @ ow # J')))"

text \<open>The hardware section starts at offset 0.\<close>

definition finder_ok :: "hwi_lib \<Rightarrow> bool" where
  "finder_ok lib \<longleftrightarrow> lib_ok lib \<and> hwi_tag2off lib 0 = 0 \<and> finds_tags lib \<and> finds_units lib \<and> finds_items lib \<and> finds_paths lib"

subsection \<open>The address space of a register block\<close>

text \<open>The entries of the address space section are named by names of the string section.\<close>

definition as_named :: "string list \<Rightarrow> lsp \<Rightarrow> bool" where
  "as_named ns s \<longleftrightarrow> as_tree_ok s \<and> (\<forall>e \<in> set (sp_asinfo s). \<exists>n \<in> set ns. as_name e = pool_off ns n)"

definition as_at :: "hwi_lib \<Rightarrow> lsp \<Rightarrow> u32 \<Rightarrow> u32" where
  "as_at lib s b = (case as_find_containing None b (b + 1) ''memory'' s of Inr r \<Rightarrow> as_entry2off lib r | Inl _ \<Rightarrow> 0)"

lemma find_as_at: "as_named ns s \<Longrightarrow> hwi_find_as lib b True s = Inr (as_at lib s b, s)"
  using find_containing_from_spec [of s b "b + 1" "''memory''" 0]
  by (auto simp: as_named_def hwi_find_as_def as_at_def as_find_containing_def)

lemma match_name_cong:
  assumes "sp_asinfo s' = sp_asinfo s" and "\<forall>e \<in> set (sp_asinfo s). hwi_find_string s' (as_name e) = hwi_find_string s (as_name e)"
  shows "match_name fuel s' i name = match_name fuel s i name"
proof (induction fuel arbitrary: i)
  case (Suc fuel)
  show ?case
    using assms Suc by (cases "i < length (sp_asinfo s)") (auto simp: as_off2info_def undef_def split: option.splits)
qed simp

lemma find_containing_cong:
  assumes "sp_asinfo s' = sp_asinfo s" and "\<forall>e \<in> set (sp_asinfo s). hwi_find_string s' (as_name e) = hwi_find_string s (as_name e)"
  shows "find_containing_from s' st en c i = find_containing_from s st en c i"
proof (induction "length (sp_asinfo s) - i" arbitrary: i rule: less_induct)
  case less
  show ?case
  proof (cases "i < length (sp_asinfo s)")
    case True
    then have "find_containing_from s' st en c (Suc i) = find_containing_from s st en c (Suc i)"
      by (intro less) simp
    then show ?thesis
      by (subst (1 2) find_containing_from.simps) (simp add: assms(1) match_name_cong [OF assms] split: sum.splits)
  next
    case False
    then show ?thesis by (subst (1 2) find_containing_from.simps) (simp add: assms(1))
  qed
qed

lemma as_named_ext:
  assumes "as_named ns s" and "pool_inv ns s" and "pool_inv ns' s'" and "names_ext ns ns'" and "sp_asinfo s' = sp_asinfo s"
  shows "as_named ns' s'" "as_at lib s' = as_at lib s"
proof -
  have n: "\<exists>n \<in> set ns. as_name e = pool_off ns n" if "e \<in> set (sp_asinfo s)" for e
    using assms(1) that by (simp add: as_named_def)
  have "hwi_find_string s' (as_name e) = hwi_find_string s (as_name e)" if e: "e \<in> set (sp_asinfo s)" for e
  proof -
    obtain n where "n \<in> set ns" "as_name e = pool_off ns n" using n [OF e] by blast
    then show ?thesis
      using find_string_pool [OF assms(2)] find_string_pool [OF assms(3)] names_ext_off [OF assms(4)] by metis
  qed
  then have "find_containing_from s' st en c i = find_containing_from s st en c i" for st en c i
    by (intro find_containing_cong [OF assms(5)]) blast
  then show "as_at lib s' = as_at lib s" by (simp add: as_at_def as_find_containing_def fun_eq_iff)
  have "\<exists>n \<in> set ns'. as_name e = pool_off ns' n" if "e \<in> set (sp_asinfo s)" for e
    using n [OF that] names_ext_off [OF assms(4)] by metis
  moreover have "as_tree_ok s'" using assms(1,5) unfolding as_named_def as_tree_ok_def by presburger
  ultimately show "as_named ns' s'" using assms(5) by (simp add: as_named_def)
qed

subsection \<open>Steps from one section to the next\<close>

definition board_st :: "hwi_lib \<Rightarrow> (u32 \<Rightarrow> u32) \<Rightarrow> string list \<Rightarrow> hitem list \<Rightarrow> lsp \<Rightarrow> bool" where
  "board_st lib as ns I s \<longleftrightarrow> hw_rep lib ns I s \<and> kinds_ok I \<and> as_named ns s \<and> as_at lib s = as"

lemma board_st_rep: "board_st lib as ns I s \<Longrightarrow> hw_rep lib ns I s" "board_st lib as ns I s \<Longrightarrow> kinds_ok I"
  by (simp_all add: board_st_def)

lemma board_st_as: "board_st lib as ns I s \<Longrightarrow> hwi_find_as lib b True s = Inr (as b, s)"
  using find_as_at by (auto simp: board_st_def)

lemma board_st_next:
  assumes "board_st lib as ns I s" and "hw_rep lib ns' I' s'" and "names_ext ns ns'" and "sp_asinfo s' = sp_asinfo s" and "kinds_ok I'"
  shows "board_st lib as ns' I' s'"
  using assms as_named_ext [of ns s ns' s'] by (auto simp: board_st_def hw_rep_def)

definition board_step :: "hwi_lib \<Rightarrow> (u32 \<Rightarrow> u32) \<Rightarrow> unit hw \<Rightarrow> hitem list \<Rightarrow> hitem list \<Rightarrow> nat \<Rightarrow> bool" where
  "board_step lib as m I I' c \<longleftrightarrow> (\<forall>ns s. board_st lib as ns I s \<longrightarrow> left s c \<longrightarrow>
     (\<exists>ns' s'. m s = Inr ((), s') \<and> board_st lib as ns' I' s' \<and> names_ext ns ns' \<and> sp_asinfo s' = sp_asinfo s \<and> took c s s'))"

lemma board_stepI:
  assumes "\<And>ns s. board_st lib as ns I s \<Longrightarrow> left s c \<Longrightarrow>
    \<exists>ns' s'. m s = Inr ((), s') \<and> board_st lib as ns' I' s' \<and> names_ext ns ns' \<and> sp_asinfo s' = sp_asinfo s \<and> took c s s'"
  shows "board_step lib as m I I' c"
  using assms unfolding board_step_def by blast

lemma board_stepD:
  assumes "board_step lib as m I I' c" and "board_st lib as ns I s" and "left s c"
  obtains ns' s' where "m s = Inr ((), s')" "board_st lib as ns' I' s'" "names_ext ns ns'" "sp_asinfo s' = sp_asinfo s" "took c s s'"
  using assms unfolding board_step_def by blast

lemma board_step_then:
  assumes "board_step lib as m1 I I1 c1" and "board_step lib as m2 I1 I2 c2"
  shows "board_step lib as (hthen m1 m2) I I2 (c1 + c2)"
proof (rule board_stepI)
  fix ns s
  assume st: "board_st lib as ns I s" and lf: "left s (c1 + c2)"
  obtain ns1 s1 where 1: "m1 s = Inr ((), s1)" "board_st lib as ns1 I1 s1" "names_ext ns ns1" "sp_asinfo s1 = sp_asinfo s" "took c1 s s1"
    by (rule board_stepD [OF assms(1) st left_mono [OF lf]]) simp_all
  obtain ns2 s2 where 2: "m2 s1 = Inr ((), s2)" "board_st lib as ns2 I2 s2" "names_ext ns1 ns2" "sp_asinfo s2 = sp_asinfo s1" "took c2 s1 s2"
    by (rule board_stepD [OF assms(2) 1(2) left_took [OF lf 1(5)]])
  then show "\<exists>ns' s'. hthen m1 m2 s = Inr ((), s') \<and> board_st lib as ns' I2 s' \<and> names_ext ns ns' \<and> sp_asinfo s' = sp_asinfo s \<and> took (c1 + c2) s s'"
    using 1 names_ext_trans [OF 1(3) 2(3)] took_trans [OF 1(5) 2(5)] by (auto simp: hthen_def hbind_def)
qed

subsection \<open>Adding an item with its tags\<close>

definition add_item :: "hitem \<times> tag_spec list \<Rightarrow> hitem list \<Rightarrow> hitem list" where
  "add_item e I = fold place_tag (snd e) (I @ [fst e])"

definition entry_ok :: "hitem \<times> tag_spec list \<Rightarrow> bool" where
  "entry_ok e \<longleftrightarrow> upper_name (hi_kind (fst e)) \<and> hi_tags (fst e) = [] \<and> (\<forall>tf \<in> set (snd e). \<not> upper_name (ti_name (fst tf)))"

lemma add_item_form:
  assumes "hi_tags it = []"
  shows "add_item (it, ts) I = I @ [it\<lparr>hi_tags := placed (total_len (I @ [it])) ts\<rparr>]"
  by (simp add: add_item_def fold_place assms)

lemma kinds_ok_add: "kinds_ok I \<Longrightarrow> entry_ok e \<Longrightarrow> kinds_ok (add_item e I)"
  by (cases e) (auto simp: entry_ok_def add_item_form kinds_ok_def upper_name_def dest!: placed_names)

definition dev_entry :: "hw_dev \<Rightarrow> u32 \<Rightarrow> hitem \<times> tag_spec list" where
  "dev_entry d bus = (dev_item d bus, dev_tags (\<lambda>_. 0) d)"

lemma common_low: "\<forall>tf \<in> set (common_tags nf a). \<not> upper_name (ti_name (fst tf))"
  by (auto simp: common_tags_def tag_specs tag_kinds upper_name_def split: option.splits)

lemma dev_entry_ok: "entry_ok (dev_entry d bus)"
proof -
  obtain k n b where h: "dev_head d = (k, n, b)" by (cases "dev_head d")
  moreover have "upper_name (fst (dev_head d))" by (cases d) (simp_all add: upper_name_def)
  moreover have "\<forall>tf \<in> set (dev_tags nf d). \<not> upper_name (ti_name (fst tf))" for nf
    using common_low by (cases d) (auto simp: tag_specs tag_kinds upper_name_def split: option.splits)
  ultimately show ?thesis by (simp add: entry_ok_def dev_entry_def dev_item_def)
qed

lemma st_dev:
  assumes lib: "lib_ok lib" and st: "board_st lib as ns I s" and d: "dev_ok d" "dev_names d = {}"
    and bus: "bus \<noteq> HWI_NULL_OFF" "owner_ok lib I bus" and lf: "left s (dev_cost d)"
  obtains ns' s' where "add_dev lib d bus s = Inr (hwi_tag2off lib (total_len I), s')"
    "board_st lib as ns' (add_item (dev_entry d bus) I) s'" "names_ext ns ns'" "sp_asinfo s' = sp_asinfo s" "took (dev_cost d) s s'"
proof -
  obtain s' ns' where a: "add_dev lib d bus s = Inr (hwi_tag2off lib (total_len I), s')" "took (dev_cost d) s s'"
    "sp_asinfo s' = sp_asinfo s" "names_ext ns ns'"
    "hw_rep lib ns' (fold place_tag (dev_tags (pool_off ns') d) (I @ [dev_item d bus])) s'"
    by (rule add_dev_total [OF lib board_st_rep(1) [OF st] d(1) bus lf])
  have "dev_tags (pool_off ns') d = dev_tags (\<lambda>_. 0) d"
    by (rule adds_congD [OF dev_code_adds [OF d(1)]]) (simp add: d(2))
  then have r: "hw_rep lib ns' (add_item (dev_entry d bus) I) s'" using a(5) by (simp add: add_item_def dev_entry_def)
  show ?thesis
    using that [OF a(1) board_st_next [OF st r a(4,3) kinds_ok_add [OF board_st_rep(2) [OF st] dev_entry_ok]] a(4,3,2)] .
qed

text \<open>A device without a class, and its common tags.\<close>

definition plain_item :: "string \<Rightarrow> u32 \<Rightarrow> hitem" where
  "plain_item name bus = \<lparr>hi_kind = ''Device'', hi_name = name, hi_owner = ucast bus, hi_body = le32l 0, hi_tags = []\<rparr>"

lemma st_plain:
  assumes lib: "lib_ok lib" and st: "board_st lib as ns I s" and v: "valid_name name"
    and bus: "bus \<noteq> HWI_NULL_OFF" "owner_ok lib I bus" and lf: "left s (length name + 9 + tag_cost TAG_device)"
  obtains ns' s' where "hwidev_add lib name 0 bus s = Inr (hwi_tag2off lib (total_len I), s')"
    "board_st lib as ns' (I @ [plain_item name bus]) s'" "names_ext ns ns'" "sp_asinfo s' = sp_asinfo s"
    "took (length name + 9 + tag_cost TAG_device) s s'"
proof -
  note rep = board_st_rep(1) [OF st]
  obtain off s' where a: "hwidev_add lib name 0 bus s = Inr (off, s')" "took (length name + 9 + tag_cost TAG_device) s s'"
    by (rule device_add_total [OF lib rep v bus lf])
  obtain ns' where r: "off = hwi_tag2off lib (total_len I)" "sp_asinfo s' = sp_asinfo s" "names_ext ns ns'"
    "hw_rep lib ns' (I @ [plain_item name bus]) s'"
    using device_add_rep [OF lib rep v bus a(1)] by (auto simp: plain_item_def)
  have "kinds_ok (I @ [plain_item name bus])"
    using board_st_rep(2) [OF st] by (simp add: kinds_ok_def plain_item_def upper_name_def)
  from board_st_next [OF st r(4,3,2) this] show ?thesis using that a r by simp
qed

lemma st_adds:
  assumes st: "board_st lib as ns (J @ [it]) s" and m: "adds_in m (\<lambda>_. ts) {} c" and ok: "entry_ok (it, ts)" and lf: "left s c"
  obtains ns' s' where "m s = Inr ((), s')" "board_st lib as ns' (add_item (it, ts) J) s'" "names_ext ns ns'"
    "sp_asinfo s' = sp_asinfo s" "took c s s'"
proof -
  note rep = board_st_rep(1) [OF st]
  obtain s' where a: "m s = Inr ((), s')" "took c s s'" by (rule adds_in_returns [OF m rep _ lf]) simp
  obtain ns' where r: "sp_asinfo s' = sp_asinfo s" "names_ext ns ns'" "hw_rep lib ns' (fold place_tag ts (J @ [it])) s'"
    by (rule adds_runD [OF adds_in_adds [OF m] rep _ a(1)]) auto
  have "kinds_ok J" using board_st_rep(2) [OF st] by (simp add: kinds_ok_def)
  from board_st_next [OF st r(3) [folded add_item_def [of "(it, ts)" J, simplified]] r(2,1) kinds_ok_add [OF this ok]]
  show ?thesis using that a r by simp
qed

lemma st_common:
  assumes st: "board_st lib as ns (J @ [it]) s" and it: "hi_tags it = []" "upper_name (hi_kind it)" and a: "common_names a = {}"
    and lf: "left s (common_cost a)"
  obtains ns' s' where "hwitag_add_common a s = Inr ((), s')" "board_st lib as ns' (add_item (it, common_tags (\<lambda>_. 0) a) J) s'"
    "names_ext ns ns'" "sp_asinfo s' = sp_asinfo s" "took (common_cost a) s s'"
proof (rule st_adds [OF st _ _ lf])
  have c: "adds_in (hwitag_add_common a) (\<lambda>nf. common_tags nf a) {} (common_cost a)"
    using adds_in_common [of a] by (simp add: a)
  have "common_tags nf a = common_tags (\<lambda>_. 0) a" for nf
    by (rule adds_congD [OF adds_in_adds [OF c]]) simp
  then have "(\<lambda>nf. common_tags nf a) = (\<lambda>_. common_tags (\<lambda>_. 0) a)" by (rule ext)
  then show "adds_in (hwitag_add_common a) (\<lambda>_. common_tags (\<lambda>_. 0) a) {} (common_cost a)" using c by simp
  show "entry_ok (it, common_tags (\<lambda>_. 0) a)" using it common_low by (simp add: entry_ok_def)
qed (rule that)

subsection \<open>Filling in a tag\<close>

lemma rep_tag_body:
  assumes "hw_rep lib ns (J @ [it\<lparr>hi_tags := A @ t # B\<rparr>]) s"
  obtains P Z where "sp_hwinfo s = P @ ht_body t @ Z" "length P = total_len J + head_len it + sum_list (map tag_len A) + 4"
proof -
  let ?it = "it\<lparr>hi_tags := A @ t # B\<rparr>" let ?nf = "pool_off ns" and ?kf = "kids_of lib (J @ [?it])"
  let ?P = "enc_items ?nf ?kf 0 J @
      (le16 (of_nat (head_len it div 4)) @ le16 (of_nat (?nf (hi_kind it)))) @ le16 (of_nat (item_len ?it div 4)) @
      (le16 (of_nat (?nf (hi_name it))) @ le16 (hi_owner it)) @ le16 (of_nat (?kf (total_len J))) @
      hi_body it @ concat (map (enc_tag ?nf) A) @ le16 (of_nat (tag_len t div 4)) @ le16 (of_nat (?nf (ht_name t)))"
  obtain z where z: "sp_hwinfo s = enc_items ?nf ?kf 0 (J @ [?it]) @ replicate z 0" using assms by (auto simp: hw_rep_def)
  have "enc_items ?nf ?kf 0 (J @ [?it]) = ?P @ ht_body t @ concat (map (enc_tag ?nf) B)"
    by (simp add: enc_items_append enc_item_def head_len_def enc_tag_def [of _ t])
  then have "sp_hwinfo s = ?P @ ht_body t @ (concat (map (enc_tag ?nf) B) @ replicate z 0)" using z by simp
  moreover have "length ?P = total_len J + head_len it + sum_list (map tag_len A) + 4"
    by (simp add: head_len_def length_concat comp_def)
  ultimately show ?thesis by (rule that)
qed

lemma placed_split:
  assumes "fields_in 4 (unat (ti_size ti)) fs0" and "fields_in 4 (unat (ti_size ti)) fs" and "ti_align ti = 4"
  obtains A B where "placed n (ts @ (ti, fs0) # us) = A @ filled_tag ti fs0 # B"
    "placed n (ts @ (ti, fs) # us) = A @ filled_tag ti fs # B" "A = placed n ts"
  using placed_fields [OF assms] by (metis placed_append)

lemma st_set:
  assumes fin: "finder_ok lib" and st: "board_st lib as ns (add_item (it, ts @ (ti, fs0) # us) J) s"
    and it: "hi_tags it = []" and ti: "ti_align ti = 4" "ti_name ti \<noteq> ''pad''" "\<forall>tf \<in> set ts. ti_name (fst tf) \<noteq> ti_name ti"
    and fs: "4 \<le> unat (ti_size ti)" "fields_in 4 (unat (ti_size ti)) fs0" "fields_in 4 (unat (ti_size ti)) fs"
    and all: "refilled fs (filled_tag ti fs0) = filled_tag ti fs"
  obtains tag s' where "hwi_tag_find lib (hwi_tag2off lib (total_len J)) (ti_name ti) 0 s = Some (tag, 1)"
    "set_fields tag fs s = Inr ((), s')" "board_st lib as ns (add_item (it, ts @ (ti, fs) # us) J) s'" "took 0 s s'"
    "sp_asinfo s' = sp_asinfo s" "\<exists>P Z. sp_hwinfo s = P @ ht_body (filled_tag ti fs0) @ Z \<and> length P = tag + 4"
proof -
  let ?n = "total_len (J @ [it])" let ?t = "filled_tag ti fs0"
  obtain A B where ab: "placed ?n (ts @ (ti, fs0) # us) = A @ ?t # B" "placed ?n (ts @ (ti, fs) # us) = A @ filled_tag ti fs # B"
    "A = placed ?n ts" by (rule placed_split [OF fs(2,3) ti(1)])
  have I: "add_item (it, ts @ (ti, fs0) # us) J = J @ [it\<lparr>hi_tags := A @ ?t # B\<rparr>]"
    "add_item (it, ts @ (ti, fs) # us) J = J @ [it\<lparr>hi_tags := A @ filled_tag ti fs # B\<rparr>]"
    by (simp_all only: add_item_form [OF it] ab(1,2))
  note rep = board_st_rep(1) [OF st, unfolded I] and k = board_st_rep(2) [OF st, unfolded I]
  have tl: "tag_len ?t = unat (ti_size ti)" using fs by (simp add: tag_len_def filled_tag_def)
  let ?p = "total_len J + head_len it + sum_list (map tag_len A)"
  obtain s' where s': "set_fields ?p fs s = Inr ((), s')" "hw_rep lib ns (J @ [it\<lparr>hi_tags := A @ refilled fs ?t # B\<rparr>]) s'"
    "took 0 s s'" "sp_asinfo s' = sp_asinfo s"
    by (rule rep_set_tag [OF rep fs(3) [folded tl]])
  have nA: "filter (\<lambda>u. ht_name u = ti_name ti) A = []"
    using placed_names [of _ ?n ts] ti(2,3) by (fastforce simp: ab(3) filter_empty_conv)
  have f: "hwi_tag_find lib (hwi_tag2off lib (total_len J)) (ti_name ti) 0 s = Some (?p, 1)"
  proof -
    have "finds_tags lib" using fin by (simp add: finder_ok_def)
    from this [unfolded finds_tags_def, rule_format, of ns J "it\<lparr>hi_tags := A @ ?t # B\<rparr>" "[]" s A ?t B 0]
    show ?thesis using rep k nA by (simp add: head_len_def filled_tag_def)
  qed
  have "kinds_ok (J @ [it\<lparr>hi_tags := A @ filled_tag ti fs # B\<rparr>])"
    using k by (simp add: kinds_ok_def filled_tag_def)
  then have b: "board_st lib as ns (add_item (it, ts @ (ti, fs) # us) J) s'"
    using board_st_next [OF st, of ns "J @ [it\<lparr>hi_tags := A @ filled_tag ti fs # B\<rparr>]" s'] s'(2,4) names_ext_refl
    by (simp add: I(2) all)
  obtain P Z where "sp_hwinfo s = P @ ht_body ?t @ Z" "length P = ?p + 4" by (rule rep_tag_body [OF rep])
  then show ?thesis using that [OF f s'(1) b s'(3,4)] by blast
qed

lemma get_le32: "get_le 4 (length A) (A @ le32l v @ C) = v"
proof -
  have u: "[0..<4] = [0, 1, 2, 3::nat]" by (simp add: upt_rec)
  have "bit (get_le 4 0 (le32l v @ C) :: u32) n = bit v n" if "n < 32" for n
    by (cases "n < 8"; cases "n < 16"; cases "n < 24") (use that in \<open>auto simp: u get_le_def le_bytes_def bit_simps nth_append\<close>)
  then have "get_le 4 0 (le32l v @ C) = v" by (intro bit_word_eqI) simp
  then show ?thesis using get_le_app [where 'a = 32, of 4 A 0 "le32l v @ C"] by simp
qed

lemma irq_body: "ht_body (filled_tag TAG_irq [(4, le32l v)]) = le32l v"
  by (simp add: filled_tag_def write_fields_def put_at_def)

lemma refill_irq: "refilled [(4, le32l v)] (filled_tag TAG_irq [(4, le32l w)]) = filled_tag TAG_irq [(4, le32l v)]"
  by (simp add: filled_tag_def write_fields_def put_at_def)

lemma refill_inputclk:
  "refilled [(4, le32l c), (8, le32l d)] (filled_tag TAG_inputclk [(4, le32l c0), (8, le32l d0)]) =
   filled_tag TAG_inputclk [(4, le32l c), (8, le32l d)]"
  by (simp add: filled_tag_def write_fields_def put_at_def)

subsection \<open>Rules for the operations of a block\<close>

lemma step_mono: "board_step lib as m I I' c \<Longrightarrow> c \<le> c' \<Longrightarrow> board_step lib as m I I' c'"
  unfolding board_step_def by (metis left_mono took_mono)

lemma step_assert: "b \<Longrightarrow> board_step lib as (hassert b) I I 0"
  by (rule board_stepI) (auto simp: hassert_def names_ext_refl)

lemma step_loc:
  assumes "board_step lib as (f (HWIATTR_SET_LOCATION base len 0 (as base) a)) I I' c"
  shows "board_step lib as (hbind (set_loc lib base len a) f) I I' c"
proof (rule board_stepI)
  fix ns s
  assume st: "board_st lib as ns I s" and lf: "left s c"
  have "hbind (set_loc lib base len a) f s = f (HWIATTR_SET_LOCATION base len 0 (as base) a) s"
    by (simp add: set_loc_def hbind_def hret_def board_st_as [OF st])
  then show "\<exists>ns' s'. hbind (set_loc lib base len a) f s = Inr ((), s') \<and> board_st lib as ns' I' s' \<and> names_ext ns ns' \<and>
      sp_asinfo s' = sp_asinfo s \<and> took c s s'"
    using assms st lf unfolding board_step_def by simp
qed

lemma step_bind:
  assumes "\<And>ns s. board_st lib as ns I s \<Longrightarrow> left s c1 \<Longrightarrow>
      \<exists>ns' s'. m s = Inr (x, s') \<and> board_st lib as ns' I1 s' \<and> names_ext ns ns' \<and> sp_asinfo s' = sp_asinfo s \<and> took c1 s s'"
    and "board_step lib as (f x) I1 I' c2"
  shows "board_step lib as (hbind m f) I I' (c1 + c2)"
proof (rule board_stepI)
  fix ns s
  assume st: "board_st lib as ns I s" and lf: "left s (c1 + c2)"
  obtain ns1 s1 where 1: "m s = Inr (x, s1)" "board_st lib as ns1 I1 s1" "names_ext ns ns1" "sp_asinfo s1 = sp_asinfo s" "took c1 s s1"
    using assms(1) [OF st left_mono [OF lf]] by auto
  obtain ns2 s2 where 2: "f x s1 = Inr ((), s2)" "board_st lib as ns2 I' s2" "names_ext ns1 ns2" "sp_asinfo s2 = sp_asinfo s1" "took c2 s1 s2"
    by (rule board_stepD [OF assms(2) 1(2) left_took [OF lf 1(5)]])
  then show "\<exists>ns' s'. hbind m f s = Inr ((), s') \<and> board_st lib as ns' I' s' \<and> names_ext ns ns' \<and> sp_asinfo s' = sp_asinfo s \<and> took (c1 + c2) s s'"
    using 1 names_ext_trans [OF 1(3) 2(3)] took_trans [OF 1(5) 2(5)] by (auto simp: hbind_def)
qed

lemma step_dev:
  assumes "lib_ok lib" and "dev_ok d" "dev_names d = {}" and "bus \<noteq> HWI_NULL_OFF" "owner_ok lib I bus"
    and "board_step lib as (f (hwi_tag2off lib (total_len I))) (add_item (dev_entry d bus) I) I' c"
  shows "board_step lib as (hbind (add_dev lib d bus) f) I I' (dev_cost d + c)"
proof -
  have d: "\<exists>ns' s'. add_dev lib d bus s = Inr (hwi_tag2off lib (total_len I), s') \<and> board_st lib as ns' (add_item (dev_entry d bus) I) s' \<and>
      names_ext ns ns' \<and> sp_asinfo s' = sp_asinfo s \<and> took (dev_cost d) s s'"
    if st: "board_st lib as ns I s" and lf: "left s (dev_cost d)" for ns s
    using st_dev [OF assms(1) st assms(2-5) lf] by metis
  show ?thesis by (rule step_bind; (rule d assms(6))?; assumption?)
qed

text \<open>The start of the section, and the numbers of items of each name.\<close>

definition starts :: "hwi_lib \<Rightarrow> hitem list \<Rightarrow> bool" where
  "starts lib I \<longleftrightarrow> (\<exists>K. I = default_items lib @ K)"

definition heads :: "hitem list \<Rightarrow> (string \<times> string) list" where
  "heads I = map (\<lambda>it. (hi_kind it, hi_name it)) I"

lemma heads_add: "hi_tags (fst e) = [] \<Longrightarrow> heads (add_item e I) = heads I @ [(hi_kind (fst e), hi_name (fst e))]"
  by (cases e) (simp add: add_item_form heads_def)

lemma starts_add: "hi_tags (fst e) = [] \<Longrightarrow> starts lib I \<Longrightarrow> starts lib (add_item e I)"
  by (cases e) (auto simp: add_item_form starts_def)

lemma starts_owner:
  assumes "finder_ok lib" and "starts lib I"
  shows "owner_ok lib I 0" "owner_ok lib I (hwi_tag2off lib 12)" "hwi_tag2off lib 12 \<noteq> HWI_NULL_OFF"
proof -
  obtain K where I: "I = default_items lib @ K" using assms(2) by (auto simp: starts_def)
  have "0 \<in> set (item_places 0 I)" "12 \<in> set (item_places 0 I)" by (simp_all add: I default_items_def item_len_def head_len_def)
  then show "owner_ok lib I 0" "owner_ok lib I (hwi_tag2off lib 12)"
    using assms(1) unfolding owner_ok_def finder_ok_def by metis+
  show "hwi_tag2off lib 12 \<noteq> HWI_NULL_OFF" using lib_okD(1) [of lib 12] assms(1) by (auto simp: finder_ok_def)
qed

lemma find_start:
  assumes fin: "finder_ok lib" and st: "board_st lib as ns I s" and "starts lib I"
  shows "hwi_find_item lib HWI_NULL_OFF [''hw''] s = 0" "hwi_find_item lib HWI_NULL_OFF [''hw'', ''unknown''] s = hwi_tag2off lib 12"
proof -
  obtain K where I: "I = default_items lib @ K" using assms(3) by (auto simp: starts_def)
  define h u where "h = hd (default_items lib)" and "u = default_items lib ! 1"
  have d: "default_items lib = [h, u]" "hi_name h = ''hw''" "hi_name u = ''unknown''" "hi_owner u = ucast (hwi_tag2off lib 0)" "total_len [h] = 12"
    by (simp_all add: h_def u_def default_items_def item_len_def head_len_def)
  have r: "hw_rep lib ns (h # u # K) s" "kinds_ok (h # u # K)" using board_st_rep [OF st] by (simp_all add: I d(1))
  have f: "finds_items lib" "finds_paths lib" "hwi_tag2off lib 0 = 0" using fin by (simp_all add: finder_ok_def)
  have "hwi_find_item lib HWI_NULL_OFF [hi_name h] s = hwi_tag2off lib (total_len [])"
    using f(1) [unfolded finds_items_def, rule_format, of ns "[]" h "u # K" s] r by simp
  then show "hwi_find_item lib HWI_NULL_OFF [''hw''] s = 0" using f(3) d(2) by simp
  have "hwi_find_item lib HWI_NULL_OFF [hi_name h, hi_name u] s = hwi_tag2off lib (total_len ([] @ h # []))"
    by (rule f(2) [unfolded finds_paths_def, rule_format, of ns "[]" h "[]" u K s]) (use r d(2-4) in simp)
  then show "hwi_find_item lib HWI_NULL_OFF [''hw'', ''unknown''] s = hwi_tag2off lib 12" using d by simp
qed

lemma step_unit:
  assumes fin: "finder_ok lib" and e: "hi_tags (fst e) = []"
    and n: "n = int (count_list (heads J) (hi_kind (fst e), hi_name (fst e)))"
  shows "board_step lib as (assert_unit lib (hwi_tag2off lib (total_len J)) n) (add_item e J) (add_item e J) 0"
proof (rule board_stepI)
  fix ns s
  assume st: "board_st lib as ns (add_item e J) s"
  obtain it ts where [simp]: "e = (it, ts)" by (cases e)
  let ?it = "it\<lparr>hi_tags := placed (total_len (J @ [it])) ts\<rparr>"
  have r: "hw_rep lib ns (J @ ?it # []) s" "kinds_ok (J @ ?it # [])"
    using board_st_rep [OF st] e by (simp_all add: add_item_form)
  have u: "finds_units lib" using fin by (simp add: finder_ok_def)
  have "hwi_find_unit lib (hwi_tag2off lib (total_len J)) s = int (length (filter (\<lambda>x. hi_kind x = hi_kind ?it \<and> hi_name x = hi_name ?it) J))"
    by (rule u [unfolded finds_units_def, rule_format]) (use r in blast)
  moreover have "count_list (heads J) (hi_kind it, hi_name it) = length (filter (\<lambda>x. hi_kind x = hi_kind it \<and> hi_name x = hi_name it) J)"
    by (induction J) (simp_all add: heads_def)
  ultimately have "hwi_find_unit lib (hwi_tag2off lib (total_len J)) s = n" using n by simp
  then have "assert_unit lib (hwi_tag2off lib (total_len J)) n s = Inr ((), s)"
    by (simp add: assert_unit_def hget_def hbind_def hassert_def)
  then show "\<exists>ns' s'. assert_unit lib (hwi_tag2off lib (total_len J)) n s = Inr ((), s') \<and> board_st lib as ns' (add_item e J) s' \<and>
      names_ext ns ns' \<and> sp_asinfo s' = sp_asinfo s \<and> took 0 s s'"
    using st names_ext_refl by auto
qed

subsection \<open>Filling in vectors and clocks\<close>

text \<open>The entry whose tag is filled in; every tag before it has another name.\<close>

definition other_tags :: "string \<Rightarrow> tag_spec list \<Rightarrow> bool" where
  "other_tags n ts \<longleftrightarrow> (\<forall>tf \<in> set ts. ti_name (fst tf) \<noteq> n)"

lemma irq_info: "ti_name TAG_irq = ''irq''" "ti_align TAG_irq = 4" "ti_name TAG_inputclk = ''inputclk''" "ti_align TAG_inputclk = 4"
  by (simp_all add: tag_kinds)

lemma step_ivec:
  assumes fin: "finder_ok lib" and it: "hi_tags it = []" and ts: "other_tags ''irq'' ts"
  shows "board_step lib as (ignore (hwitag_set_ivec lib (hwi_tag2off lib (total_len J)) 0 v))
    (add_item (it, ts @ irq_spec w # us) J) (add_item (it, ts @ irq_spec v # us) J) 0"
proof (rule board_stepI)
  fix ns s
  let ?off = "hwi_tag2off lib (total_len J)"
  assume st: "board_st lib as ns (add_item (it, ts @ irq_spec w # us) J) s"
  obtain tag s' where r: "hwi_tag_find lib ?off ''irq'' 0 s = Some (tag, 1)" "set_fields tag [(4, le32l v)] s = Inr ((), s')"
    "board_st lib as ns (add_item (it, ts @ irq_spec v # us) J) s'" "took 0 s s'" "sp_asinfo s' = sp_asinfo s"
    by (rule st_set [OF fin st [unfolded irq_spec_def] it _ _ _ _ _ _ refill_irq])
      (use ts in \<open>auto simp: irq_info other_tags_def irq_spec_def\<close>)
  have "ignore (hwitag_set_ivec lib ?off 0 v) s = Inr ((), s')"
    by (simp add: ignore_def hwitag_set_ivec_def set_found_def hbind_def hget_def hthen_def r(1,2) del: set_fields.simps)
  then show "\<exists>ns' s'. ignore (hwitag_set_ivec lib ?off 0 v) s = Inr ((), s') \<and>
      board_st lib as ns' (add_item (it, ts @ irq_spec v # us) J) s' \<and> names_ext ns ns' \<and> sp_asinfo s' = sp_asinfo s \<and> took 0 s s'"
    using r names_ext_refl by blast
qed

lemma step_inputclk:
  assumes fin: "finder_ok lib" and it: "hi_tags it = []" and ts: "other_tags ''inputclk'' ts"
  shows "board_step lib as (ignore (hwitag_set_inputclk lib (hwi_tag2off lib (total_len J)) 0 clk dv))
    (add_item (it, ts @ inputclk_spec c d # us) J) (add_item (it, ts @ inputclk_spec clk dv # us) J) 0"
proof (rule board_stepI)
  fix ns s
  let ?off = "hwi_tag2off lib (total_len J)"
  assume st: "board_st lib as ns (add_item (it, ts @ inputclk_spec c d # us) J) s"
  obtain tag s' where r: "hwi_tag_find lib ?off ''inputclk'' 0 s = Some (tag, 1)"
    "set_fields tag [(4, le32l clk), (8, le32l dv)] s = Inr ((), s')"
    "board_st lib as ns (add_item (it, ts @ inputclk_spec clk dv # us) J) s'" "took 0 s s'" "sp_asinfo s' = sp_asinfo s"
    by (rule st_set [OF fin st [unfolded inputclk_spec_def] it _ _ _ _ _ _ refill_inputclk])
      (use ts in \<open>auto simp: irq_info other_tags_def inputclk_spec_def\<close>)
  have "ignore (hwitag_set_inputclk lib ?off 0 clk dv) s = Inr ((), s')"
    by (simp add: ignore_def hwitag_set_inputclk_def set_found_def hbind_def hget_def hthen_def r(1,2) del: set_fields.simps)
  then show "\<exists>ns' s'. ignore (hwitag_set_inputclk lib ?off 0 clk dv) s = Inr ((), s') \<and>
      board_st lib as ns' (add_item (it, ts @ inputclk_spec clk dv # us) J) s' \<and> names_ext ns ns' \<and>
      sp_asinfo s' = sp_asinfo s \<and> took 0 s s'"
    using r names_ext_refl by blast
qed

text \<open>\<open>hwitag_set_avail_ivec\<close> with index 0 looks at the first vector tag only, which must be unset.\<close>

lemma step_avail:
  assumes fin: "finder_ok lib" and it: "hi_tags it = []" and ts: "other_tags ''irq'' ts"
  shows "board_step lib as (ignore (hwitag_set_avail_ivec lib (hwi_tag2off lib (total_len J)) 0 v))
    (add_item (it, ts @ irq_spec HWI_ILLEGAL_VECTOR # us) J) (add_item (it, ts @ irq_spec v # us) J) 0"
proof (rule board_stepI)
  fix ns s
  let ?off = "hwi_tag2off lib (total_len J)"
  assume st: "board_st lib as ns (add_item (it, ts @ irq_spec HWI_ILLEGAL_VECTOR # us) J) s"
  obtain tag s' where r: "hwi_tag_find lib ?off ''irq'' 0 s = Some (tag, 1)" "set_fields tag [(4, le32l v)] s = Inr ((), s')"
    "board_st lib as ns (add_item (it, ts @ irq_spec v # us) J) s'" "took 0 s s'" "sp_asinfo s' = sp_asinfo s"
    "\<exists>P Z. sp_hwinfo s = P @ ht_body (filled_tag TAG_irq [(4, le32l HWI_ILLEGAL_VECTOR)]) @ Z \<and> length P = tag + 4"
    by (rule st_set [OF fin st [unfolded irq_spec_def] it _ _ _ _ _ _ refill_irq])
      (use ts in \<open>auto simp: irq_info other_tags_def irq_spec_def\<close>)
  then obtain P Z where p: "sp_hwinfo s = P @ le32l HWI_ILLEGAL_VECTOR @ Z" "length P = tag + 4" by (auto simp: irq_body)
  have "peek 4 (tag + 4) s = Inr (HWI_ILLEGAL_VECTOR, s)"
    using get_le32 [of P HWI_ILLEGAL_VECTOR Z] by (simp add: peek_def p(1) p(2) [symmetric])
  then have "ignore (hwitag_set_avail_ivec lib ?off 0 v) s = Inr ((), s')"
    by (simp add: ignore_def hwitag_set_avail_ivec_def hbind_def hget_def hthen_def hret_def r(1,2) del: set_fields.simps)
  then show "\<exists>ns' s'. ignore (hwitag_set_avail_ivec lib ?off 0 v) s = Inr ((), s') \<and>
      board_st lib as ns' (add_item (it, ts @ irq_spec v # us) J) s' \<and> names_ext ns ns' \<and> sp_asinfo s' = sp_asinfo s \<and> took 0 s s'"
    using r names_ext_refl by blast
qed

end
