(* ===== verification/HwiBoardRun.thy ===== *)
theory HwiBoardRun
  imports HwiBoardSpec
begin

section \<open>The hardware information of the board: the table\<close>

text \<open>
  The items and tags \<open>hwi_imx6dq\<close> describes, as a table; each block of the function appends its
  entry, and together they make the section of the board.
\<close>

subsection \<open>The table\<close>

type_synonym entry = "hitem \<times> tag_spec list"

definition bus_item :: "string \<Rightarrow> hitem" where
  "bus_item n = \<lparr>hi_kind = ''Bus'', hi_name = n, hi_owner = 0, hi_body = [], hi_tags = []\<rparr>"

definition class_item :: "string \<Rightarrow> u32 \<Rightarrow> u32 \<Rightarrow> hitem" where
  "class_item n cls owner = \<lparr>hi_kind = ''Device'', hi_name = n, hi_owner = ucast owner, hi_body = le32l cls, hi_tags = []\<rparr>"

definition regs :: "(u32 \<Rightarrow> u32) \<Rightarrow> u32 \<Rightarrow> u32 \<Rightarrow> tag_spec" where
  "regs as base len = location_spec base len 0 (as base)"

definition i2c_entry :: "(u32 \<Rightarrow> u32) \<Rightarrow> u32 \<Rightarrow> u32 \<Rightarrow> entry" where
  "i2c_entry as base irq = (bus_item ''i2c'', [regs as base 0x4000, irq_spec irq])"

definition uart_entry :: "(u32 \<Rightarrow> u32) \<Rightarrow> u32 \<Rightarrow> entry" where
  "uart_entry as clk = (class_item ''uart'' 1 0, [regs as 0x021F0000 0x4000, irq_spec 61, inputclk_spec clk 16])"

definition can_entry :: "(u32 \<Rightarrow> u32) \<Rightarrow> u32 \<Rightarrow> u32 \<Rightarrow> u32 \<Rightarrow> entry" where
  "can_entry as port mem irq = (bus_item ''can'', [regs as port 0x4000, irq_spec irq, location_spec mem 0x4000 0 0])"

definition plain_entry :: "hwi_lib \<Rightarrow> (u32 \<Rightarrow> u32) \<Rightarrow> string \<Rightarrow> u32 \<Rightarrow> u32 \<Rightarrow> u32 option \<Rightarrow> entry" where
  "plain_entry lib as n base len vec = (class_item n 0 (hwi_tag2off lib 12),
     regs as base len # (case vec of Some v \<Rightarrow> [irq_spec v] | None \<Rightarrow> []))"

definition synonym_entry :: "string \<Rightarrow> u32 \<Rightarrow> entry" where
  "synonym_entry n off = (\<lparr>hi_kind = ''Synonym'', hi_name = n, hi_owner = 0, hi_body = le32l off, hi_tags = []\<rparr>, [])"

text \<open>The entries before the UART, whose offset the synonym holds, and those behind.\<close>

definition i2c_entries :: "(u32 \<Rightarrow> u32) \<Rightarrow> entry list" where
  "i2c_entries as = [i2c_entry as 0x021A0000 68, i2c_entry as 0x021A4000 69, i2c_entry as 0x021A8000 70]"

definition other_entries :: "hwi_lib \<Rightarrow> (u32 \<Rightarrow> u32) \<Rightarrow> entry list" where
  "other_entries lib as =
    [(class_item ''fec'' 2 0, [regs as 0x02188000 0x4000, irq_spec 150]),
     (bus_item ''usb'', [regs as 0x02184000 0x4000, irq_spec 75]),
     (class_item ''dma'' 4 0, [regs as 0x020EC000 0x4000, irq_spec 34]),
     (class_item ''wdog'' 7 (hwi_tag2off lib 12), [regs as 0x020BC000 0x4000, inputclk_spec 10 1]),
     can_entry as 0x02090000 0x02090080 142,
     can_entry as 0x02094000 0x02094080 143,
     plain_entry lib as ''mlb'' 0x0218C000 0x4000 (Some 85),
     plain_entry lib as ''gpu2d'' 0x00134000 0x4000 None,
     plain_entry lib as ''gpu3d'' 0x00130000 0x4000 (Some 41),
     plain_entry lib as ''ipu'' 0x02600000 0x400000 None,
     plain_entry lib as ''ipu'' 0x02A00000 0x400000 None,
     plain_entry lib as ''vpu'' 0x02040000 0x3C000 (Some 44),
     plain_entry lib as ''esai'' 0x02024000 0x4000 (Some HWI_ILLEGAL_VECTOR),
     plain_entry lib as ''ssi'' 0x02028000 0x4000 None,
     plain_entry lib as ''ssi'' 0x0202C000 0x4000 None,
     plain_entry lib as ''ssi'' 0x02030000 0x4000 None]"

definition board_items :: "hwi_lib \<Rightarrow> (u32 \<Rightarrow> u32) \<Rightarrow> u32 \<Rightarrow> hitem list" where
  "board_items lib as clk =
     (let I = fold add_item (i2c_entries as) (default_items lib)
      in fold add_item (uart_entry as clk # synonym_entry ''sermxl'' (hwi_tag2off lib (total_len I)) # other_entries lib as) I)"

subsection \<open>The blocks\<close>

lemma common_loc:
  "common_tags nf (HWIATTR_SET_LOCATION base len 0 a one_irq) = [location_spec base len 0 a, irq_spec HWI_ILLEGAL_VECTOR]"
  "common_tags nf (HWIATTR_SET_LOCATION base len 0 a HWIATTR_COMMON_INITIALIZER) = [location_spec base len 0 a]"
proof -
  have "(ucast (ucast (b :: u32) :: u64) :: u32) = b" "(ucast (ucast (ucast b :: u16) :: u32) :: u16) = ucast b" for b
    by (rule bit_word_eqI; auto simp: bit_simps)+
  then show "common_tags nf (HWIATTR_SET_LOCATION base len 0 a one_irq) = [location_spec base len 0 a, irq_spec HWI_ILLEGAL_VECTOR]"
    "common_tags nf (HWIATTR_SET_LOCATION base len 0 a HWIATTR_COMMON_INITIALIZER) = [location_spec base len 0 a]"
    by (simp_all add: common_tags_def HWIATTR_SET_LOCATION_def one_irq_def HWIATTR_SET_NUM_IRQ_def HWIATTR_COMMON_INITIALIZER_def
        location_spec_def)
qed

lemma loc_names: "common_names (HWIATTR_SET_LOCATION base len 0 a one_irq) = {}"
  "common_names (HWIATTR_SET_LOCATION base len 0 a HWIATTR_COMMON_INITIALIZER) = {}"
  by (simp_all add: common_names_def HWIATTR_SET_LOCATION_def one_irq_def HWIATTR_SET_NUM_IRQ_def HWIATTR_COMMON_INITIALIZER_def)

lemma loc_cost: "common_cost (HWIATTR_SET_LOCATION base len 0 a one_irq) = 121"
  "common_cost (HWIATTR_SET_LOCATION base len 0 a HWIATTR_COMMON_INITIALIZER) = 71"
  by (simp_all add: common_cost_def HWIATTR_SET_LOCATION_def one_irq_def HWIATTR_SET_NUM_IRQ_def HWIATTR_COMMON_INITIALIZER_def
      spec_cost_def tag_cost_def tag_kinds)

lemmas loc_simps = common_loc loc_names loc_cost

lemma unit_ivec:
  assumes fin: "finder_ok lib" and it: "hi_tags it = []" "other_tags ''irq'' ts"
    and n: "n = int (count_list (heads J) (hi_kind it, hi_name it))"
  shows "board_step lib as (hthen (assert_unit lib (hwi_tag2off lib (total_len J)) n) (ignore (hwitag_set_ivec lib (hwi_tag2off lib (total_len J)) 0 v)))
      (add_item (it, ts @ irq_spec w # us) J) (add_item (it, ts @ irq_spec v # us) J) 0"
  using board_step_then [OF step_unit [OF fin, of "(it, ts @ irq_spec w # us)" n J] step_ivec [OF fin it]] it n by simp

lemma unit_avail:
  assumes fin: "finder_ok lib" and it: "hi_tags it = []" "other_tags ''irq'' ts"
    and n: "n = int (count_list (heads J) (hi_kind it, hi_name it))"
  shows "board_step lib as (hthen (assert_unit lib (hwi_tag2off lib (total_len J)) n) (ignore (hwitag_set_avail_ivec lib (hwi_tag2off lib (total_len J)) 0 v)))
      (add_item (it, ts @ irq_spec HWI_ILLEGAL_VECTOR # us) J) (add_item (it, ts @ irq_spec v # us) J) 0"
  using board_step_then [OF step_unit [OF fin, of "(it, ts @ irq_spec HWI_ILLEGAL_VECTOR # us)" n J] step_avail [OF fin it]] it n by simp

lemma regs_other [simp]: "n \<noteq> ''location'' \<Longrightarrow> other_tags n [regs as base len]"
  by (simp add: other_tags_def regs_def location_spec_def tag_kinds)

lemma items_simps [simp]:
  "hi_tags (bus_item n) = []" "hi_kind (bus_item n) = ''Bus''" "hi_name (bus_item n) = n"
  "hi_tags (class_item n c w) = []" "hi_kind (class_item n c w) = ''Device''" "hi_name (class_item n c w) = n"
  by (simp_all add: bus_item_def class_item_def)

text \<open>A device with its attributes and what the block does with it.\<close>

lemma dev_block_more:
  assumes fin: "finder_ok lib" and I: "starts lib I" and d: "dev_ok d" "dev_names d = {}" "dev_cost d + c \<le> 300"
    and bus: "bus = 0 \<or> bus = hwi_tag2off lib 12" and e: "dev_entry d bus = e"
    and f: "board_step lib as (f (hwi_tag2off lib (total_len I))) (add_item e I) I' c"
  shows "board_step lib as (hbind (add_dev lib d bus) f) I I' 300"
proof -
  have b: "bus \<noteq> HWI_NULL_OFF" "owner_ok lib I bus" using bus starts_owner [OF fin I] by (auto simp: HWI_NULL_OFF_def)
  have lib: "lib_ok lib" using fin by (simp add: finder_ok_def)
  have "board_step lib as (hbind (add_dev lib d bus) f) I I' (dev_cost d + c)"
    by (rule step_dev [OF lib d(1,2) b]) (simp only: e f)
  then show ?thesis by (rule step_mono) (simp add: d(3))
qed

lemma dev_block:
  assumes "finder_ok lib" and "starts lib I" and "dev_ok d" "dev_names d = {}" "dev_cost d \<le> 300"
    and "bus = 0 \<or> bus = hwi_tag2off lib 12" and "dev_entry d bus = e"
    and "board_step lib as (f (hwi_tag2off lib (total_len I))) (add_item e I) I' 0"
  shows "board_step lib as (hbind (add_dev lib d bus) f) I I' 300"
proof (rule dev_block_more [OF assms(1-4) _ assms(6,7)])
  show "dev_cost d + 0 \<le> 300" using assms(5) by simp
qed (rule assms(8))

lemmas dev_simps = dev_entry_def dev_item_def dev_ok_def valid_name_def dev_cost_def tag_cost_def spec_cost_def tag_kinds
  loc_simps bus_item_def class_item_def

lemma i2c_block:
  assumes fin: "finder_ok lib" and I: "starts lib I" and n: "n = int (count_list (heads I) (''Bus'', ''i2c''))"
  shows "board_step lib as (imx6_i2c lib base irq n) I (add_item (i2c_entry as base irq) I) 300"
proof -
  let ?d = "I2c_bus \<lparr>i2c_common = HWIATTR_SET_LOCATION base 0x4000 0 (as base) one_irq, i2c_num_clks = 0, i2c_num_busattr = 0\<rparr>"
  let ?e = "(bus_item ''i2c'', [regs as base 0x4000] @ irq_spec HWI_ILLEGAL_VECTOR # [])"
  have "board_step lib as (hbind (add_dev lib ?d 0) (\<lambda>off. hthen (assert_unit lib off n) (ignore (hwitag_set_ivec lib off 0 irq)))) I
      (add_item (bus_item ''i2c'', [regs as base 0x4000] @ irq_spec irq # []) I) 300"
  proof (rule dev_block [OF fin I])
    show "dev_entry ?d 0 = ?e" by (simp add: dev_simps regs_def)
    show "board_step lib as (hthen (assert_unit lib (hwi_tag2off lib (total_len I)) n) (ignore (hwitag_set_ivec lib (hwi_tag2off lib (total_len I)) 0 irq)))
        (add_item ?e I) (add_item (bus_item ''i2c'', [regs as base 0x4000] @ irq_spec irq # []) I) 0"
      by (rule unit_ivec [OF fin]) (simp_all add: n)
  qed (simp_all add: dev_simps)
  then show ?thesis unfolding imx6_i2c_def i2c_entry_def by (intro step_loc) simp
qed

lemma fec_block:
  assumes fin: "finder_ok lib" and I: "starts lib I" and n: "count_list (heads I) (''Device'', ''fec'') = 0"
  shows "board_step lib as (imx6_fec lib) I (add_item (class_item ''fec'' 2 0, [regs as 0x02188000 0x4000, irq_spec 150]) I) 300"
proof -
  let ?d = "Enet ''fec'' \<lparr>enet_common = HWIATTR_SET_LOCATION 0x02188000 0x4000 0 (as 0x02188000) one_irq,
    enet_mac = replicate 6 0, enet_num_clks = 0, enet_num_phys = 0\<rparr>"
  let ?t = "\<lambda>v. (class_item ''fec'' 2 0, [regs as 0x02188000 0x4000] @ irq_spec v # [])"
  have "board_step lib as (hbind (add_dev lib ?d 0) (\<lambda>off. hthen (assert_unit lib off 0) (ignore (hwitag_set_avail_ivec lib off 0 150)))) I
      (add_item (?t 150) I) 300"
  proof (rule dev_block [OF fin I])
    show "dev_entry ?d 0 = ?t HWI_ILLEGAL_VECTOR" by (simp add: dev_simps regs_def)
    show "board_step lib as (hthen (assert_unit lib (hwi_tag2off lib (total_len I)) 0) (ignore (hwitag_set_avail_ivec lib (hwi_tag2off lib (total_len I)) 0 150)))
        (add_item (?t HWI_ILLEGAL_VECTOR) I) (add_item (?t 150) I) 0"
      by (rule unit_avail [OF fin]) (simp_all add: n)
  qed (simp_all add: dev_simps)
  then show ?thesis unfolding imx6_fec_def by (intro step_loc) simp
qed

lemma sdma_block:
  assumes fin: "finder_ok lib" and I: "starts lib I" and n: "count_list (heads I) (''Device'', ''dma'') = 0"
  shows "board_step lib as (imx6_sdma lib) I (add_item (class_item ''dma'' 4 0, [regs as 0x020EC000 0x4000, irq_spec 34]) I) 300"
proof -
  let ?d = "Dma ''dma'' (HWIATTR_SET_LOCATION 0x020EC000 0x4000 0 (as 0x020EC000) one_irq)"
  let ?t = "\<lambda>v. (class_item ''dma'' 4 0, [regs as 0x020EC000 0x4000] @ irq_spec v # [])"
  have "board_step lib as (hbind (add_dev lib ?d 0) (\<lambda>off. hthen (assert_unit lib off 0) (ignore (hwitag_set_avail_ivec lib off 0 34)))) I
      (add_item (?t 34) I) 300"
  proof (rule dev_block [OF fin I])
    show "dev_entry ?d 0 = ?t HWI_ILLEGAL_VECTOR" by (simp add: dev_simps regs_def)
    show "board_step lib as (hthen (assert_unit lib (hwi_tag2off lib (total_len I)) 0) (ignore (hwitag_set_avail_ivec lib (hwi_tag2off lib (total_len I)) 0 34)))
        (add_item (?t HWI_ILLEGAL_VECTOR) I) (add_item (?t 34) I) 0"
      by (rule unit_avail [OF fin]) (simp_all add: n)
  qed (simp_all add: dev_simps)
  then show ?thesis unfolding imx6_sdma_def by (intro step_loc) simp
qed

lemma step_off:
  assumes "lib_ok lib"
  shows "board_step lib as (hassert (hwi_tag2off lib (total_len J) \<noteq> HWI_NULL_OFF)) (J @ [it]) (J @ [it]) 0"
proof (rule board_stepI)
  fix ns s
  assume st: "board_st lib as ns (J @ [it]) s"
  note rep = board_st_rep(1) [OF st]
  have "4 dvd total_len J" using rep total_aligned [of J lib ns "J @ [it]"] by (simp add: hw_rep_def)
  then have "hwi_tag2off lib (total_len J) < HWI_NULL_OFF" by (rule lib_okD(1) [OF assms]) (use rep_len [OF rep] in simp)
  then show "\<exists>ns' s'. hassert (hwi_tag2off lib (total_len J) \<noteq> HWI_NULL_OFF) s = Inr ((), s') \<and> board_st lib as ns' (J @ [it]) s' \<and>
      names_ext ns ns' \<and> sp_asinfo s' = sp_asinfo s \<and> took 0 s s'"
    using st names_ext_refl by (auto simp: hassert_def)
qed

lemma step_off_item:
  assumes "lib_ok lib" and "hi_tags it = []"
  shows "board_step lib as (hassert (hwi_tag2off lib (total_len J) \<noteq> HWI_NULL_OFF)) (add_item (it, ts) J) (add_item (it, ts) J) 0"
  using step_off [OF assms(1)] by (simp add: add_item_form assms(2))

lemma usb_block:
  assumes fin: "finder_ok lib" and I: "starts lib I"
  shows "board_step lib as (imx6_usb lib) I (add_item (bus_item ''usb'', [regs as 0x02184000 0x4000, irq_spec 75]) I) 300"
proof -
  let ?d = "Usb_bus (HWIATTR_SET_LOCATION 0x02184000 0x4000 0 (as 0x02184000) one_irq)"
  let ?t = "\<lambda>v. (bus_item ''usb'', [regs as 0x02184000 0x4000] @ irq_spec v # [])"
  have lib: "lib_ok lib" using fin by (simp add: finder_ok_def)
  have "board_step lib as (hbind (add_dev lib ?d 0) (\<lambda>off. hthen (hassert (off \<noteq> HWI_NULL_OFF)) (ignore (hwitag_set_avail_ivec lib off 0 75)))) I
      (add_item (?t 75) I) 300"
  proof (rule dev_block [OF fin I])
    show "dev_entry ?d 0 = ?t HWI_ILLEGAL_VECTOR" by (simp add: dev_simps regs_def)
    show "board_step lib as (hthen (hassert (hwi_tag2off lib (total_len I) \<noteq> HWI_NULL_OFF)) (ignore (hwitag_set_avail_ivec lib (hwi_tag2off lib (total_len I)) 0 75)))
        (add_item (?t HWI_ILLEGAL_VECTOR) I) (add_item (?t 75) I) 0"
      by (rule board_step_then [OF step_off_item [OF lib] step_avail [OF fin], simplified]) simp_all
  qed (simp_all add: dev_simps)
  then show ?thesis unfolding imx6_usb_def by (intro step_loc) simp
qed

text \<open>\<open>imx6x_hwibus_add_can\<close> is \<open>hwibus_add_can\<close> for a bus without memory addresses.\<close>

lemma add_can_same:
  "imx6x_hwibus_add_can lib parent (Some a) = hwibus_add_can lib parent (Some (a\<lparr>can_num_memaddr := 0\<rparr>))"
proof -
  have "hthen m (hret ()) = m" for m by (rule ext) simp
  then show ?thesis by (simp add: imx6x_hwibus_add_can_def hwibus_add_can_def can_tags_def with_attr_def cong: if_cong)
qed

lemma step_location:
  assumes "entry_ok (it, ts @ [location_spec b l r a])"
  shows "board_step lib as (hwitag_add_location b l r a) (add_item (it, ts) J) (add_item (it, ts @ [location_spec b l r a]) J) 71"
proof (rule board_stepI)
  fix ns s
  assume st: "board_st lib as ns (add_item (it, ts) J) s" and lf: "left s 71"
  let ?it = "it\<lparr>hi_tags := placed (total_len (J @ [it])) ts\<rparr>"
  have it: "hi_tags it = []" using assms by (simp add: entry_ok_def)
  note rep = board_st_rep(1) [OF st]
  have m: "adds_in (hwitag_add_location b l r a) (\<lambda>_. [location_spec b l r a]) {} 71"
    using adds_in_tags(1) [of b l r a] by (simp add: spec_cost_def tag_cost_def tag_kinds)
  have ne: "add_item (it, ts) J \<noteq> []" by (simp add: add_item_form it)
  obtain s' where a: "hwitag_add_location b l r a s = Inr ((), s')" "took 71 s s'" by (rule adds_in_returns [OF m rep ne lf])
  obtain ns' where r: "sp_asinfo s' = sp_asinfo s" "names_ext ns ns'" "hw_rep lib ns' (fold place_tag [location_spec b l r a] (add_item (it, ts) J)) s'"
    by (rule adds_runD [OF adds_in_adds [OF m] rep ne a(1)]) auto
  have i: "fold place_tag [location_spec b l r a] (add_item (it, ts) J) = add_item (it, ts @ [location_spec b l r a]) J"
    by (simp add: add_item_def)
  have "kinds_ok J" using board_st_rep(2) [OF st] it by (simp add: kinds_ok_def add_item_form)
  from board_st_next [OF st r(3) [unfolded i] r(2,1) kinds_ok_add [OF this assms]]
  show "\<exists>ns' s'. hwitag_add_location b l r a s = Inr ((), s') \<and> board_st lib as ns' (add_item (it, ts @ [location_spec b l r a]) J) s' \<and>
      names_ext ns ns' \<and> sp_asinfo s' = sp_asinfo s \<and> took 71 s s'" using a r by blast
qed

lemma can_block:
  assumes fin: "finder_ok lib" and I: "starts lib I" and n: "n = int (count_list (heads I) (''Bus'', ''can''))"
  shows "board_step lib as (imx6_can lib port mem irq n) I (add_item (can_entry as port mem irq) I) 300"
proof -
  let ?d = "Can_bus \<lparr>can_common = HWIATTR_SET_LOCATION port 0x4000 0 (as port) one_irq, can_num_clks = 0, can_num_memaddr = 0\<rparr>"
  let ?m = "location_spec mem 0x4000 0 0" and ?off = "hwi_tag2off lib (total_len I)"
  let ?t = "\<lambda>v us. (bus_item ''can'', [regs as port 0x4000] @ irq_spec v # us)"
  have ok: "entry_ok (bus_item ''can'', ([regs as port 0x4000] @ irq_spec HWI_ILLEGAL_VECTOR # []) @ [?m])"
    by (simp add: entry_ok_def regs_def location_spec_def irq_spec_def tag_kinds upper_name_def)
  have loc: "board_step lib as (hwitag_add_location mem 0x4000 0 0) (add_item (?t HWI_ILLEGAL_VECTOR []) I) (add_item (?t HWI_ILLEGAL_VECTOR [?m]) I) 71"
    using step_location [OF ok] by simp
  have rest: "board_step lib as (hthen (assert_unit lib ?off n) (ignore (hwitag_set_ivec lib ?off 0 irq)))
      (add_item (?t HWI_ILLEGAL_VECTOR [?m]) I) (add_item (?t irq [?m]) I) 0"
    by (rule unit_ivec [OF fin]) (simp_all add: n)
  have "board_step lib as (hbind (add_dev lib ?d 0) (\<lambda>off. hthen (hwitag_add_location mem 0x4000 0 0)
      (hthen (assert_unit lib off n) (ignore (hwitag_set_ivec lib off 0 irq))))) I (add_item (?t irq [?m]) I) 300"
  proof (rule dev_block_more [OF fin I])
    show "dev_entry ?d 0 = ?t HWI_ILLEGAL_VECTOR []" by (simp add: dev_simps regs_def)
    show "board_step lib as (hthen (hwitag_add_location mem 0x4000 0 0) (hthen (assert_unit lib ?off n) (ignore (hwitag_set_ivec lib ?off 0 irq))))
        (add_item (?t HWI_ILLEGAL_VECTOR []) I) (add_item (?t irq [?m]) I) 71"
      using board_step_then [OF loc rest] by simp
  qed (simp_all add: dev_simps)
  then show ?thesis unfolding imx6_can_def can_entry_def by (intro step_loc) (simp add: add_can_same)
qed

text \<open>Without a bus the device is put under the bus \<open>unknown\<close>.\<close>

lemma step_cong:
  assumes "\<And>ns s. board_st lib as ns I s \<Longrightarrow> m s = m' s" and "board_step lib as m' I I' c"
  shows "board_step lib as m I I' c"
  using assms(2) unfolding board_step_def by (simp add: assms(1))

lemma null_bus:
  assumes "finder_ok lib" and "board_st lib as ns I s" and "starts lib I"
  shows "hwidev_add lib n p HWI_NULL_OFF s = hwidev_add lib n p (hwi_tag2off lib 12) s"
  using find_start(2) [OF assms] starts_owner(3) [OF assms(1,3)] by (simp add: hwidev_add_def hbind_def hget_def hret_def)

lemma wdog_block:
  assumes fin: "finder_ok lib" and I: "starts lib I"
  shows "board_step lib as (imx6_wdog lib) I
    (add_item (class_item ''wdog'' 7 (hwi_tag2off lib 12), [regs as 0x020BC000 0x4000, inputclk_spec 10 1]) I) 300"
proof -
  let ?a = "\<lparr>timer_common = HWIATTR_SET_LOCATION 0x020BC000 0x4000 0 (as 0x020BC000) HWIATTR_COMMON_INITIALIZER, timer_num_clks = 1\<rparr>"
  let ?d = "Timer ''wdog'' ?a" and ?bus = "hwi_tag2off lib 12"
  let ?f = "\<lambda>off. hthen (hassert (off \<noteq> HWI_NULL_OFF)) (ignore (hwitag_set_inputclk lib off 0 10 1))"
  let ?t = "\<lambda>c d. (class_item ''wdog'' 7 ?bus, [regs as 0x020BC000 0x4000] @ inputclk_spec c d # [])"
  have lib: "lib_ok lib" using fin by (simp add: finder_ok_def)
  have "board_step lib as (hbind (add_dev lib ?d ?bus) ?f) I (add_item (?t 10 1) I) 300"
  proof (rule dev_block [OF fin I])
    show "dev_entry ?d ?bus = ?t 0 1" by (simp add: dev_simps regs_def)
    show "board_step lib as (?f (hwi_tag2off lib (total_len I))) (add_item (?t 0 1) I) (add_item (?t 10 1) I) 0"
      by (rule board_step_then [OF step_off_item [OF lib] step_inputclk [OF fin], simplified]) simp_all
  qed (simp_all add: dev_simps)
  moreover have "hbind (hwidev_add_timer lib ''wdog'' (Some ?a) HWI_NULL_OFF) ?f s = hbind (add_dev lib ?d ?bus) ?f s"
    if st: "board_st lib as ns I s" for ns s
    using null_bus [OF fin st I] by (simp add: hwidev_add_timer_def with_attr_def hbind_def)
  ultimately have "board_step lib as (hbind (hwidev_add_timer lib ''wdog'' (Some ?a) HWI_NULL_OFF) ?f) I (add_item (?t 10 1) I) 300"
    by (rule step_cong [rotated])
  then show ?thesis unfolding imx6_wdog_def by (intro step_loc) simp
qed

lemma step_plain:
  assumes fin: "finder_ok lib" and I: "starts lib I" and v: "valid_name name"
    and f: "board_step lib as (f (hwi_tag2off lib (total_len I))) (I @ [class_item name 0 (hwi_tag2off lib 12)]) I' c"
  shows "board_step lib as (hbind (hwidev_add lib name 0 HWI_NULL_OFF) f) I I' ((length name + 9 + tag_cost TAG_device) + c)"
proof (rule step_bind)
  have lib: "lib_ok lib" using fin by (simp add: finder_ok_def)
  have i: "class_item name 0 w = plain_item name w" for w by (simp add: class_item_def plain_item_def)
  show "\<exists>ns' s'. hwidev_add lib name 0 HWI_NULL_OFF s = Inr (hwi_tag2off lib (total_len I), s') \<and>
      board_st lib as ns' (I @ [class_item name 0 (hwi_tag2off lib 12)]) s' \<and> names_ext ns ns' \<and> sp_asinfo s' = sp_asinfo s \<and>
      took (length name + 9 + tag_cost TAG_device) s s'"
    if st: "board_st lib as ns I s" and lf: "left s (length name + 9 + tag_cost TAG_device)" for ns s
    unfolding null_bus [OF fin st I] i
    by (rule st_plain [OF lib st v starts_owner(3,2) [OF fin I] lf]) blast
qed (rule f)

lemma step_common:
  assumes "hi_tags it = []" "upper_name (hi_kind it)" and "common_names a = {}"
  shows "board_step lib as (hwitag_add_common a) (J @ [it]) (add_item (it, common_tags (\<lambda>_. 0) a) J) (common_cost a)"
proof (rule board_stepI)
  fix ns s
  assume st: "board_st lib as ns (J @ [it]) s" and lf: "left s (common_cost a)"
  show "\<exists>ns' s'. hwitag_add_common a s = Inr ((), s') \<and> board_st lib as ns' (add_item (it, common_tags (\<lambda>_. 0) a) J) s' \<and>
      names_ext ns ns' \<and> sp_asinfo s' = sp_asinfo s \<and> took (common_cost a) s s'"
    by (rule st_common [OF st assms lf]) blast
qed

lemma valid_names:
  "valid_name ''mlb''" "valid_name ''gpu2d''" "valid_name ''gpu3d''" "valid_name ''ipu''" "valid_name ''vpu''" "valid_name ''esai''"
  "valid_name ''ssi''"
  by (simp_all add: valid_name_def)

lemma plain_cost: "tag_cost TAG_device = 38"
  by (simp add: tag_cost_def tag_kinds)

lemma class_upper: "upper_name (hi_kind (class_item n c w))"
  by (simp add: upper_name_def)

text \<open>The common tags of a block without and with a vector, and what is done with the vector.\<close>

lemma plain_block:
  assumes fin: "finder_ok lib" and I: "starts lib I" and v: "valid_name name" "length name \<le> 5"
  shows "board_step lib as (imx6_plain lib name base len HWIATTR_COMMON_INITIALIZER None) I (add_item (plain_entry lib as name base len None) I) 300"
    "board_step lib as (imx6_plain lib name base len one_irq None) I (add_item (plain_entry lib as name base len (Some HWI_ILLEGAL_VECTOR)) I) 300"
    "board_step lib as (imx6_plain lib name base len one_irq (Some irq)) I (add_item (plain_entry lib as name base len (Some irq)) I) 300"
proof -
  let ?it = "class_item name 0 (hwi_tag2off lib 12)" and ?off = "hwi_tag2off lib (total_len I)"
  let ?ini = "HWIATTR_SET_LOCATION base len 0 (as base) HWIATTR_COMMON_INITIALIZER" and ?irq = "HWIATTR_SET_LOCATION base len 0 (as base) one_irq"
  let ?t = "\<lambda>v. (?it, [regs as base len] @ irq_spec v # [])"
  have lib: "lib_ok lib" using fin by (simp add: finder_ok_def)
  have c: "board_step lib as (hwitag_add_common ?ini) (I @ [?it]) (add_item (?it, [regs as base len]) I) 71"
    "board_step lib as (hwitag_add_common ?irq) (I @ [?it]) (add_item (?t HWI_ILLEGAL_VECTOR) I) 121"
    using step_common [OF items_simps(4) class_upper loc_names(2)] step_common [OF items_simps(4) class_upper loc_names(1)]
    by (simp_all add: loc_simps regs_def)
  have o: "board_step lib as (hassert (?off \<noteq> HWI_NULL_OFF)) (add_item (?it, ts) I) (add_item (?it, ts) I) 0" for ts
    by (rule step_off_item [OF lib]) simp
  have n: "board_step lib as (hret ()) J J 0" for J
    by (rule board_stepI) (auto simp: names_ext_refl)
  have i: "board_step lib as (ignore (hwitag_set_ivec lib ?off 0 irq)) (add_item (?t HWI_ILLEGAL_VECTOR) I) (add_item (?t irq) I) 0"
    by (rule step_ivec [OF fin]) simp_all
  note steps = board_step_then [OF c(1) board_step_then [OF o n]] board_step_then [OF c(2) board_step_then [OF o n]]
    board_step_then [OF c(2) board_step_then [OF o i]]
  have p: "board_step lib as (imx6_plain lib name base len a vec) I I' 300"
    if "board_step lib as (hthen (hwitag_add_common (HWIATTR_SET_LOCATION base len 0 (as base) a))
        (hthen (hassert (?off \<noteq> HWI_NULL_OFF)) (case vec of Some v \<Rightarrow> ignore (hwitag_set_ivec lib ?off 0 v) | None \<Rightarrow> hret ())))
      (I @ [?it]) I' c" and "c \<le> 121" for a vec I' c
  proof -
    have "board_step lib as (hbind (set_loc lib base len a) (\<lambda>c. hthen (hwitag_add_common c) (hthen (hassert (?off \<noteq> HWI_NULL_OFF))
        (case vec of Some v \<Rightarrow> ignore (hwitag_set_ivec lib ?off 0 v) | None \<Rightarrow> hret ())))) (I @ [?it]) I' c"
      by (rule step_loc) (rule that(1))
    then have "board_step lib as (imx6_plain lib name base len a vec) I I' ((length name + 9 + tag_cost TAG_device) + c)"
      unfolding imx6_plain_def by (rule step_plain [OF fin I v(1)])
    then show ?thesis by (rule step_mono) (use v(2) that(2) plain_cost in simp)
  qed
  show "board_step lib as (imx6_plain lib name base len HWIATTR_COMMON_INITIALIZER None) I (add_item (plain_entry lib as name base len None) I) 300"
    by (rule p [where c = 71]) (use steps(1) in \<open>simp_all add: plain_entry_def\<close>)
  show "board_step lib as (imx6_plain lib name base len one_irq None) I (add_item (plain_entry lib as name base len (Some HWI_ILLEGAL_VECTOR)) I) 300"
    by (rule p [where c = 121]) (use steps(2) in \<open>simp_all add: plain_entry_def\<close>)
  show "board_step lib as (imx6_plain lib name base len one_irq (Some irq)) I (add_item (plain_entry lib as name base len (Some irq)) I) 300"
    by (rule p [where c = 121]) (use steps(3) in \<open>simp_all add: plain_entry_def\<close>)
qed

lemma ssi_block:
  assumes fin: "finder_ok lib" and I: "starts lib I"
  shows "board_step lib as (imx6_ssi lib base) I (add_item (plain_entry lib as ''ssi'' base 0x4000 None) I) 300"
proof -
  let ?it = "class_item ''ssi'' 0 (hwi_tag2off lib 12)" and ?off = "hwi_tag2off lib (total_len I)"
  let ?ini = "HWIATTR_SET_LOCATION base 0x4000 0 (as base) HWIATTR_COMMON_INITIALIZER"
  have lib: "lib_ok lib" using fin by (simp add: finder_ok_def)
  have c: "board_step lib as (hwitag_add_common ?ini) (I @ [?it]) (add_item (plain_entry lib as ''ssi'' base 0x4000 None) I) 71"
    using step_common [OF items_simps(4) class_upper loc_names(2)] by (simp add: loc_simps regs_def plain_entry_def)
  have l: "board_step lib as (hbind (set_loc lib base 0x4000 HWIATTR_COMMON_INITIALIZER) hwitag_add_common)
      (I @ [?it]) (add_item (plain_entry lib as ''ssi'' base 0x4000 None) I) 71"
    by (rule step_loc) (rule c)
  have "board_step lib as (imx6_ssi lib base) I (add_item (plain_entry lib as ''ssi'' base 0x4000 None) I)
      ((length ''ssi'' + 9 + tag_cost TAG_device) + (0 + 71))"
    unfolding imx6_ssi_def by (rule step_plain [OF fin I valid_names(7)]) (rule board_step_then [OF step_off [OF lib] l])
  then show ?thesis by (rule step_mono) (simp add: plain_cost)
qed

subsection \<open>The UART and its synonym\<close>

lemma alloc_word_total:
  assumes lib: "lib_ok lib" and rep: "hw_rep lib ns I s" and ow: "owner_ok lib I owner"
    and ti: "item_info ti" "ti_size ti = 16" and nm: "valid_name name" and lf: "left s (length name + 9 + tag_cost ti)"
  obtains s' s1 ns' where "hwi_alloc_item lib ti name owner s = Inr (total_len I, s1)"
    "set_fields (total_len I) [(12, le32l v)] s1 = Inr ((), s')"
    "hw_rep lib ns' (I @ [(new_item ti name owner)\<lparr>hi_body := le32l v\<rparr>]) s'" "names_ext ns ns'"
    "sp_asinfo s' = sp_asinfo s" "took (length name + 9 + tag_cost ti) s s'"
proof -
  obtain tag s1 where a: "hwi_alloc_item lib ti name owner s = Inr (tag, s1)" "took (length name + 9 + tag_cost ti) s s1"
    by (rule alloc_item_total [OF lib rep ow ti(1) nm lf])
  obtain ns' where n: "tag = total_len I" "sp_asinfo s1 = sp_asinfo s" "names_ext ns ns'" "hw_rep lib ns' (I @ [new_item ti name owner]) s1"
    using alloc_item_rep [OF lib rep ow ti(1) nm a(1)] by auto
  have "tag + 16 \<le> length (sp_hwinfo s1)"
    using rep_within(3) [OF n(4)] rep_offset [OF n(4)] n(1) ti(2) by (simp add: new_item_def item_len_def head_len_def)
  then obtain s' where f: "set_fields tag [(12, le32l v)] s1 = Inr ((), s')" "took 0 s1 s'"
    by (rule set_fields_total [of 12 16 "[(12, le32l v)]" tag s1, rotated]) simp_all
  from set_item_word [OF n(4) ti(2) f(1) [unfolded n(1)]] show ?thesis
    using that [OF a(1) [unfolded n(1)] f(1) [unfolded n(1)]] n took_trans [OF a(2) f(2)] by auto
qed

lemma synonym_new: "(new_item TAG_synonym n 0)\<lparr>hi_body := le32l v\<rparr> = fst (synonym_entry n v)"
  by (simp add: new_item_def synonym_entry_def tag_kinds)

lemma step_synonym:
  assumes fin: "finder_ok lib" and I: "starts lib I" and e: "hi_tags (fst e) = []" "hi_kind (fst e) = ''Device''" "hi_name (fst e) = ''uart''"
    and new: "(''Device'', ''uart'') \<notin> set (heads I)"
  shows "board_step lib as (hbind (hget (hwi_find_device lib ''uart'' 0)) (\<lambda>dev. ignore (hwi_add_synonym lib dev ''sermxl'')))
    (add_item e I) (add_item (synonym_entry ''sermxl'' (hwi_tag2off lib (total_len I))) (add_item e I)) 54"
proof (rule board_stepI)
  fix ns s
  let ?I = "add_item e I" and ?off = "hwi_tag2off lib (total_len I)"
  assume st: "board_st lib as ns ?I s" and lf: "left s 54"
  note rep = board_st_rep(1) [OF st]
  have lib: "lib_ok lib" and fi: "finds_items lib" using fin by (simp_all add: finder_ok_def)
  have st1: "starts lib ?I" by (rule starts_add [OF e(1) I])
  obtain it ts where et: "e = (it, ts)" by (cases e)
  let ?it = "it\<lparr>hi_tags := placed (total_len (I @ [it])) ts\<rparr>"
  have J: "?I = I @ ?it # []" using e(1) by (simp add: et add_item_form)
  have "hwi_find_device lib (hi_name ?it) 0 s = ?off"
  proof (rule fi [unfolded finds_items_def, rule_format, THEN conjunct2, rule_format])
    show "hw_rep lib ns (I @ ?it # []) s \<and> kinds_ok (I @ ?it # [])" using board_st_rep [OF st] by (simp only: J)
    show "hi_kind ?it = ''Device'' \<and> (\<forall>x \<in> set I. hi_kind x = ''Device'' \<longrightarrow> hi_name x \<noteq> hi_name ?it)"
      using e new by (auto simp: et heads_def image_iff)
  qed
  then have dev: "hwi_find_device lib ''uart'' 0 s = ?off" using e(3) by (simp add: et)
  have "4 dvd total_len I" using rep total_aligned [of I lib ns ?I] by (simp add: hw_rep_def J)
  then have "?off < HWI_NULL_OFF" by (rule lib_okD(1) [OF lib]) (use rep_len [OF rep] in \<open>simp add: J\<close>)
  then have off: "?off \<noteq> HWI_NULL_OFF" by simp
  have v: "valid_name ''sermxl''" and c: "length ''sermxl'' + 9 + tag_cost TAG_synonym = 54" "ti_size TAG_synonym = 16"
    by (simp_all add: valid_name_def tag_cost_def tag_kinds)
  obtain s' s1 ns' where a: "hwi_alloc_item lib TAG_synonym ''sermxl'' 0 s = Inr (total_len ?I, s1)"
    "set_fields (total_len ?I) [(12, le32l ?off)] s1 = Inr ((), s')"
    "hw_rep lib ns' (?I @ [(new_item TAG_synonym ''sermxl'' 0)\<lparr>hi_body := le32l ?off\<rparr>]) s'" "names_ext ns ns'"
    "sp_asinfo s' = sp_asinfo s" "took 54 s s'"
    by (rule alloc_word_total [OF lib rep starts_owner(1) [OF fin st1] item_infos(4) c(2) v lf [folded c(1)], where v = ?off])
      (simp only: c)
  have i: "?I @ [(new_item TAG_synonym ''sermxl'' 0)\<lparr>hi_body := le32l ?off\<rparr>] = add_item (synonym_entry ''sermxl'' ?off) ?I"
    unfolding synonym_new by (simp add: add_item_def synonym_entry_def)
  have k: "kinds_ok (add_item (synonym_entry ''sermxl'' ?off) ?I)"
    by (rule kinds_ok_add [OF board_st_rep(2) [OF st]]) (simp add: entry_ok_def synonym_entry_def upper_name_def)
  have "hbind (hget (hwi_find_device lib ''uart'' 0)) (\<lambda>dev. ignore (hwi_add_synonym lib dev ''sermxl'')) s = Inr ((), s')"
    using a(1,2) off find_start(1) [OF fin st st1]
    by (simp add: hbind_def hget_def dev ignore_def hwi_add_synonym_def hthen_def hret_def HWI_NULL_OFF_def del: set_fields.simps)
  then show "\<exists>ns' s'. hbind (hget (hwi_find_device lib ''uart'' 0)) (\<lambda>dev. ignore (hwi_add_synonym lib dev ''sermxl'')) s = Inr ((), s') \<and>
      board_st lib as ns' (add_item (synonym_entry ''sermxl'' ?off) ?I) s' \<and> names_ext ns ns' \<and> sp_asinfo s' = sp_asinfo s \<and> took 54 s s'"
    using board_st_next [OF st a(3) [unfolded i] a(4,5) k] a(4-6) by blast
qed

lemma uart_block:
  assumes fin: "finder_ok lib" and I: "starts lib I" and new: "(''Device'', ''uart'') \<notin> set (heads I)"
  shows "board_step lib as (imx6_uart lib clk) I
    (add_item (synonym_entry ''sermxl'' (hwi_tag2off lib (total_len I))) (add_item (uart_entry as clk) I)) 300"
proof -
  let ?d = "Uart ''uart'' \<lparr>uart_common = HWIATTR_SET_LOCATION 0x021F0000 0x4000 0 (as 0x021F0000) one_irq, uart_num_clks = 1\<rparr>"
  let ?off = "hwi_tag2off lib (total_len I)" and ?it = "class_item ''uart'' 1 0" and ?r = "regs as 0x021F0000 0x4000"
  let ?I' = "add_item (synonym_entry ''sermxl'' ?off) (add_item (?it, [?r, irq_spec 61] @ inputclk_spec clk 16 # []) I)"
  let ?syn = "hbind (hget (hwi_find_device lib ''uart'' 0)) (\<lambda>dev. ignore (hwi_add_synonym lib dev ''sermxl''))"
  have u: "board_step lib as (assert_unit lib ?off 0) (add_item (?it, [?r] @ irq_spec HWI_ILLEGAL_VECTOR # [inputclk_spec 0 1]) I)
      (add_item (?it, [?r] @ irq_spec HWI_ILLEGAL_VECTOR # [inputclk_spec 0 1]) I) 0"
    by (rule step_unit [OF fin]) (use new in \<open>simp_all add: count_list_0_iff\<close>)
  have i: "board_step lib as (ignore (hwitag_set_ivec lib ?off 0 61)) (add_item (?it, [?r] @ irq_spec HWI_ILLEGAL_VECTOR # [inputclk_spec 0 1]) I)
      (add_item (?it, [?r, irq_spec 61] @ inputclk_spec 0 1 # []) I) 0"
    using step_ivec [OF fin, of ?it "[?r]" as I 61 HWI_ILLEGAL_VECTOR "[inputclk_spec 0 1]"] by simp
  have "other_tags ''inputclk'' [?r, irq_spec 61]"
    by (simp add: other_tags_def regs_def location_spec_def irq_spec_def tag_kinds)
  then have c: "board_step lib as (ignore (hwitag_set_inputclk lib ?off 0 clk 16)) (add_item (?it, [?r, irq_spec 61] @ inputclk_spec 0 1 # []) I)
      (add_item (?it, [?r, irq_spec 61] @ inputclk_spec clk 16 # []) I) 0"
    by (intro step_inputclk fin) simp
  have y: "board_step lib as ?syn (add_item (?it, [?r, irq_spec 61] @ inputclk_spec clk 16 # []) I) ?I' 54"
    by (rule step_synonym [OF fin I]) (use new in simp_all)
  have t: "board_step lib as (hthen (assert_unit lib ?off 0) (hthen (ignore (hwitag_set_ivec lib ?off 0 61))
      (hthen (ignore (hwitag_set_inputclk lib ?off 0 clk 16)) ?syn)))
      (add_item (?it, [?r] @ irq_spec HWI_ILLEGAL_VECTOR # [inputclk_spec 0 1]) I) ?I' 54"
    using board_step_then [OF u board_step_then [OF i board_step_then [OF c y]]] by simp
  have "board_step lib as (hbind (add_dev lib ?d 0) (\<lambda>off. hthen (assert_unit lib off 0) (hthen (ignore (hwitag_set_ivec lib off 0 61))
      (hthen (ignore (hwitag_set_inputclk lib off 0 clk 16)) ?syn)))) I ?I' 300"
  proof (rule dev_block_more [OF fin I])
    show "dev_entry ?d 0 = (?it, [?r] @ irq_spec HWI_ILLEGAL_VECTOR # [inputclk_spec 0 1])" by (simp add: dev_simps regs_def)
  qed (use t in \<open>simp_all add: dev_simps\<close>)
  then show ?thesis unfolding imx6_uart_def uart_entry_def by (intro step_loc) simp
qed

subsection \<open>The function\<close>

lemma entry_heads [simp]:
  "hi_tags (fst (i2c_entry as b i)) = []" "hi_kind (fst (i2c_entry as b i)) = ''Bus''" "hi_name (fst (i2c_entry as b i)) = ''i2c''"
  "hi_tags (fst (uart_entry as c)) = []" "hi_kind (fst (uart_entry as c)) = ''Device''" "hi_name (fst (uart_entry as c)) = ''uart''"
  "hi_tags (fst (can_entry as b m i)) = []" "hi_kind (fst (can_entry as b m i)) = ''Bus''" "hi_name (fst (can_entry as b m i)) = ''can''"
  "hi_tags (fst (plain_entry lib as n b l v)) = []" "hi_kind (fst (plain_entry lib as n b l v)) = ''Device''"
  "hi_name (fst (plain_entry lib as n b l v)) = n"
  "hi_tags (fst (synonym_entry n off)) = []" "hi_kind (fst (synonym_entry n off)) = ''Synonym''" "hi_name (fst (synonym_entry n off)) = n"
  by (simp_all add: i2c_entry_def uart_entry_def can_entry_def plain_entry_def synonym_entry_def)

lemma starts_adds [simp]: "\<forall>e \<in> set es. hi_tags (fst e) = [] \<Longrightarrow> starts lib I \<Longrightarrow> starts lib (fold add_item es I)"
  by (induction es arbitrary: I) (simp_all add: starts_add)

lemma heads_adds [simp]: "\<forall>e \<in> set es. hi_tags (fst e) = [] \<Longrightarrow>
    heads (fold add_item es I) = heads I @ map (\<lambda>e. (hi_kind (fst e), hi_name (fst e))) es"
  by (induction es arbitrary: I) (simp_all add: heads_add)

lemma starts_default [simp]: "starts lib (default_items lib)"
  by (simp add: starts_def)

lemma heads_default [simp]: "heads (default_items lib) = [(''Group'', ''hw''), (''Bus'', ''unknown'')]"
  by (simp add: heads_def default_items_def)

text \<open>The state after some blocks is the list of their entries.\<close>

lemma step_next:
  assumes "board_step lib as m1 (fold add_item es I) (add_item e (fold add_item es I)) c1"
    and "board_step lib as m2 (fold add_item (es @ [e]) I) I' c2"
  shows "board_step lib as (hthen m1 m2) (fold add_item es I) I' (c1 + c2)"
  using board_step_then [OF assms(1)] assms(2) by simp

lemma step_start: "board_step lib as m (fold add_item [] I) I' c \<Longrightarrow> c \<le> c' \<Longrightarrow> board_step lib as m I I' c'"
  using step_mono by simp

lemma step_end:
  "board_step lib as m (fold add_item es I) (add_item e (fold add_item es I)) c \<Longrightarrow> fold add_item (es @ [e]) I = I' \<Longrightarrow>
    board_step lib as m (fold add_item es I) I' c"
  by simp

lemma others_run:
  assumes fin: "finder_ok lib" and I: "starts lib I"
    and n: "count_list (heads I) (''Device'', ''fec'') = 0" "count_list (heads I) (''Device'', ''dma'') = 0" "count_list (heads I) (''Bus'', ''can'') = 0"
  shows "board_step lib as
    (hthen (imx6_fec lib)
    (hthen (imx6_usb lib)
    (hthen (imx6_sdma lib)
    (hthen (imx6_wdog lib)
    (hthen (imx6_can lib 0x02090000 0x02090080 142 0)
    (hthen (imx6_can lib 0x02094000 0x02094080 143 1)
    (hthen (imx6_plain lib ''mlb'' 0x0218C000 0x4000 one_irq (Some 85))
    (hthen (imx6_plain lib ''gpu2d'' 0x00134000 0x4000 HWIATTR_COMMON_INITIALIZER None)
    (hthen (imx6_plain lib ''gpu3d'' 0x00130000 0x4000 one_irq (Some 41))
    (hthen (imx6_plain lib ''ipu'' 0x02600000 0x400000 HWIATTR_COMMON_INITIALIZER None)
    (hthen (imx6_plain lib ''ipu'' 0x02A00000 0x400000 HWIATTR_COMMON_INITIALIZER None)
    (hthen (imx6_plain lib ''vpu'' 0x02040000 0x3C000 one_irq (Some 44))
    (hthen (imx6_plain lib ''esai'' 0x02024000 0x4000 one_irq None)
    (hthen (imx6_ssi lib 0x02028000)
    (hthen (imx6_ssi lib 0x0202C000)
           (imx6_ssi lib 0x02030000)))))))))))))))) I (fold add_item (other_entries lib as) I) 4800"
proof -
  note blocks = fec_block [OF fin] usb_block [OF fin] sdma_block [OF fin] wdog_block [OF fin] can_block [OF fin] plain_block [OF fin] ssi_block [OF fin]
  show ?thesis
    apply (rule step_start)
     apply (rule step_next, rule blocks, (simp add: I n valid_names starts_add heads_add; fail)+)+
     apply (rule step_end, rule blocks, simp add: I starts_add, simp add: other_entries_def)
    apply simp
    done
qed

lemma board_run:
  assumes fin: "finder_ok lib"
  shows "board_step lib as (hwi_imx6dq lib clk) (default_items lib) (board_items lib as clk) 6000"
proof -
  define I where "I = fold add_item (i2c_entries as) (default_items lib)"
  define I' where "I' = add_item (synonym_entry ''sermxl'' (hwi_tag2off lib (total_len I))) (add_item (uart_entry as clk) I)"
  have h: "heads I = [(''Group'', ''hw''), (''Bus'', ''unknown''), (''Bus'', ''i2c''), (''Bus'', ''i2c''), (''Bus'', ''i2c'')]"
    and I: "starts lib I" and I': "starts lib I'"
    by (simp_all add: I_def I'_def i2c_entries_def heads_add starts_add)
  have h': "heads I' = heads I @ [(''Device'', ''uart''), (''Synonym'', ''sermxl'')]" by (simp add: I'_def heads_add)
  have u: "board_step lib as (imx6_uart lib clk) I I' 300" unfolding I'_def by (rule uart_block [OF fin I]) (simp add: h)
  have o: "board_step lib as m I' (fold add_item (other_entries lib as) I') 4800 \<Longrightarrow>
      board_step lib as (hthen (imx6_uart lib clk) m) I (fold add_item (other_entries lib as) I') 5100" for m
    using board_step_then [OF u] by fastforce
  have e: "board_items lib as clk = fold add_item (other_entries lib as) I'" by (simp add: board_items_def I_def I'_def Let_def)
  have i: "fold add_item ((([] @ [i2c_entry as 0x021A0000 68]) @ [i2c_entry as 0x021A4000 69]) @ [i2c_entry as 0x021A8000 70]) (default_items lib) = I"
    by (simp add: I_def i2c_entries_def)
  show ?thesis
    unfolding hwi_imx6dq_def e
    apply (rule step_start)
     apply (rule step_next, rule i2c_block [OF fin], simp, simp)
     apply (rule step_next, rule i2c_block [OF fin], simp add: starts_add, simp add: heads_add)
     apply (rule step_next, rule i2c_block [OF fin], simp add: starts_add, simp add: heads_add)
     apply (subst i)
     apply (rule o, rule others_run [OF fin I'])
    apply (simp_all add: h' h)
    done
qed

end
