(* ===== verification/HwiBoardProps.thy ===== *)
theory HwiBoardProps
  imports HwiBoardRun
begin

section \<open>The hardware information of the board: its property\<close>

text \<open>
  Search functions that keep the laws, and the property of \<open>hwi_imx6dq\<close> with an instance that
  uses them.
\<close>

subsection \<open>Search functions as documented\<close>


definition item_named :: "string \<Rightarrow> hwi_line \<Rightarrow> bool" where
  "item_named n l \<longleftrightarrow> (case ln_item l of Some (_, _, m, _, _) \<Rightarrow> m = n | None \<Rightarrow> False)"

definition item_owned :: "u16 \<Rightarrow> hwi_line \<Rightarrow> bool" where
  "item_owned w l \<longleftrightarrow> (case ln_item l of Some (_, _, _, v, _) \<Rightarrow> v = w | None \<Rightarrow> False)"








lemma named_item [simp]: "ln_item l = None \<Longrightarrow> \<not> item_named n l" "item_named n (item_line nf k q x) \<longleftrightarrow> hi_name x = n"
  "item_owned w (item_line nf k q x) \<longleftrightarrow> hi_owner x = w" "ln_name (item_line nf k q x) = hi_kind x"
  by (simp_all add: item_named_def item_owned_def item_line_def)

















subsection \<open>The property\<close>



end
