(* ===== verification/ArmMmu.thy ===== *)
theory ArmMmu
  imports Ram
begin

section \<open>The page tables of the ARM start-up\<close>

text \<open>
  \<open>startup/lib/arm/arm_map.c\<close>, \<open>arm_pte.c\<close> and \<open>init_mmu.c\<close>: the first-level table
  of each CPU (\<open>L1\<close>, one entry for each MB), the page tables (\<open>L2\<close>, 1 KB each, four to a
  page, so one page serves 4 MB), and the page directory of each CPU, a page table whose entry
  \<open>i\<close> maps the page that holds the tables of the \<open>i\<close>-th 4 MB. Start-up runs with the MMU off:
  a table is written through its physical address, so the tables are words of the RAM allocator's
  memory \<open>rs_mem\<close>.

  The sizes, the fixed virtual addresses and the bits of the entries are declared in
  \<open><arm/mmu.h>\<close>, which is not part of the repository: they are the parameter \<open>arm_abi\<close>.
\<close>

subsection \<open>Words in memory\<close>

definition word_at :: "(u32 \<Rightarrow> u8) \<Rightarrow> u32 \<Rightarrow> u32" where
  "word_at m a = ucast (m a) OR push_bit 8 (ucast (m (a + 1))) OR push_bit 16 (ucast (m (a + 2))) OR
     push_bit 24 (ucast (m (a + 3)))"

definition set_word :: "u32 \<Rightarrow> u32 \<Rightarrow> (u32 \<Rightarrow> u8) \<Rightarrow> u32 \<Rightarrow> u8" where
  "set_word a v m = (\<lambda>p. if p - a < 4 then ucast (drop_bit (8 * unat (p - a)) v) else m p)"

subsection \<open>Constants and descriptors\<close>

record arm_abi =
  PAGESIZE :: u32
  PGMASK :: u32
  ARM_L1_SIZE :: u32
  ARM_L2_SIZE :: u32
  ARM_SCSIZE :: u32
  ARM_SCMASK :: u32
  ARM_PTP_BASE :: u32
  ARM_STARTUP_BASE :: u32
  ARM_1TO1_BASE :: u32
  ARM_1TO1_SIZE :: u32
  ARM_TTBR_ATTR_MASK :: u32
  ARM_MMU_CR_XP :: u32
  ARM_PTP_VALID :: u32
  ARM_PTP_SC :: u32
  ARM_PTE_U :: u32
  ARM_PTE_RW :: u32
  ARM_PTE_RO :: u32
  ARM_PTE_CB :: u32
  ARM_PTE_V6_AP0 :: u32
  ARM_PTE_V6_nG :: u32
  ARM_PTE_V6_S :: u32
  ARM_PTE_V6_SP_TEX_MASK :: u32
  ARM_PTE_V6_SP_XN :: u32
  ARM_PTE_V5_SP_TEX_MASK :: u32

definition ARM_MAP_SYSPAGE :: u32 where "ARM_MAP_SYSPAGE = 0xffffffff"
definition ARM_MAP_NOEXEC :: u32 where "ARM_MAP_NOEXEC = 0x80000000"

text \<open>The bits of an entry for each kind of mapping, as the CPU has them.\<close>

record armv_pte =
  upte_ro :: u16
  upte_rw :: u16
  kpte_ro :: u16
  kpte_rw :: u16
  mask_nc :: u16
  l1_pgtable :: u16
  kscn_ro :: u32
  kscn_rw :: u32
  kscn_cb :: u32

record armv_chip =
  ch_mmu_cr_set :: u32
  ch_pte :: "armv_pte option"
  ch_pte_wa :: "armv_pte option"
  ch_pte_wb :: "armv_pte option"
  ch_pte_wt :: "armv_pte option"
  ch_ttb_attr :: u16
  ch_pte_attr :: u16

text \<open>What stays fixed while tables are built.\<close>

record mmu_cfg =
  mc_abi :: arm_abi
  mc_as :: as_abi
  mc_pte :: armv_pte
  mc_v6 :: bool
  mc_chip :: armv_chip
  mc_virtual :: bool
  mc_num_cpu :: nat

record mmu =
  mm_ram :: ram_state
  L1_paddr :: u32
  L2_paddr :: u32
  next_addr :: u32

definition rd :: "mmu \<Rightarrow> u32 \<Rightarrow> u32" where
  "rd st a = word_at (rs_mem (mm_ram st)) a"

definition wr :: "u32 \<Rightarrow> u32 \<Rightarrow> mmu \<Rightarrow> mmu" where
  "wr a v st = st\<lparr>mm_ram := (mm_ram st)\<lparr>rs_mem := set_word a v (rs_mem (mm_ram st))\<rparr>\<rparr>"

definition CPU_L1_TABLE :: "mmu_cfg \<Rightarrow> mmu \<Rightarrow> nat \<Rightarrow> u32" where
  "CPU_L1_TABLE C st cpu = (L1_paddr st + of_nat cpu * ARM_L1_SIZE (mc_abi C)) AND NOT (ARM_TTBR_ATTR_MASK (mc_abi C))"

definition CPU_L2_TABLE :: "mmu_cfg \<Rightarrow> mmu \<Rightarrow> nat \<Rightarrow> u32" where
  "CPU_L2_TABLE C st cpu = L2_paddr st + of_nat cpu * PAGESIZE (mc_abi C)"

subsection \<open>arm_pte.c\<close>

text \<open>
  The descriptors \<open>arm_pte_setup\<close> settles on: those the board has set, or those of the chip that
  was detected, unless the \<open>-w\<close> option names others that the chip has. With them it returns
  \<open>arm_v6_mmu\<close> and the fields it sets in the CPU's section of the system page.
\<close>

record arm_cpu =
  ac_upte_ro :: u16
  ac_upte_rw :: u16
  ac_kpte_ro :: u16
  ac_kpte_rw :: u16
  ac_mask_nc :: u16
  ac_ttb_attr :: u16
  ac_pte_attr :: u16

definition arm_pte_setup ::
  "arm_abi \<Rightarrow> armv_pte option \<Rightarrow> armv_chip option \<Rightarrow> char option \<Rightarrow> (armv_pte \<times> bool \<times> arm_cpu) res" where
  "arm_pte_setup K board_pte chip altpte =
     bind_res
       (case board_pte of
          Some pte \<Rightarrow> Inr pte
        | None \<Rightarrow>
           (case chip of
              None \<Rightarrow> Inl ''Unsupported CPUID''
            | Some ch \<Rightarrow>
               (case ch_pte ch of
                  None \<Rightarrow> Inl ''No pte descriptors''
                | Some def \<Rightarrow>
                   Inr (case (if altpte = None then Some def
                              else if altpte = Some CHR ''a'' then ch_pte_wa ch
                              else if altpte = Some CHR ''b'' then ch_pte_wb ch
                              else if altpte = Some CHR ''t'' then ch_pte_wt ch
                              else None) of
                          Some pte \<Rightarrow> pte
                        | None \<Rightarrow> def))))
       (\<lambda>pte. case chip of
          None \<Rightarrow> undef
        | Some ch \<Rightarrow> Inr (pte, ch_mmu_cr_set ch AND ARM_MMU_CR_XP K \<noteq> 0,
            \<lparr>ac_upte_ro = upte_ro pte, ac_upte_rw = upte_rw pte, ac_kpte_ro = kpte_ro pte, ac_kpte_rw = kpte_rw pte,
             ac_mask_nc = mask_nc pte, ac_ttb_attr = ch_ttb_attr ch, ac_pte_attr = ch_pte_attr ch\<rparr>))"

subsection \<open>arm_map.c\<close>

definition set_prot :: "mmu_cfg \<Rightarrow> u32 \<Rightarrow> u32 \<Rightarrow> u32" where
  "set_prot C paddr flags =
     (let K = mc_abi C; P = mc_pte C
      in if flags = ARM_MAP_SYSPAGE
         then if mc_v6 C
              then (paddr OR ucast (upte_rw P)) AND NOT (ARM_PTE_V6_AP0 K OR ARM_PTE_V6_nG K)
              else paddr OR ucast (upte_ro P)
         else
           let p1 = paddr OR
                 (if flags AND ARM_PTE_U K \<noteq> 0
                  then if flags AND ARM_PTE_RW K \<noteq> 0 then ucast (upte_rw P) else ucast (upte_ro P)
                  else if flags AND ARM_PTE_RW K \<noteq> 0 then ucast (kpte_rw P) else ucast (kpte_ro P));
               p2 = (if flags AND ARM_PTE_CB K \<noteq> ARM_PTE_CB K then p1 AND NOT (ucast (mask_nc P)) else p1)
           in if mc_v6 C
              then let p3 = p2 OR (flags AND (ARM_PTE_V6_S K OR ARM_PTE_V6_SP_TEX_MASK K OR ARM_PTE_CB K))
                   in if flags AND ARM_MAP_NOEXEC \<noteq> 0 then p3 OR ARM_PTE_V6_SP_XN K else p3
              else p2 OR (flags AND (ARM_PTE_V5_SP_TEX_MASK K OR ARM_PTE_CB K)))"

text \<open>An array of words is written entry by entry; an index counts words.\<close>

definition l1_entry :: "mmu_cfg \<Rightarrow> mmu \<Rightarrow> nat \<Rightarrow> u32 \<Rightarrow> u32" where
  "l1_entry C st cpu i = CPU_L1_TABLE C st cpu + 4 * i"

definition map_ptbl_cpu :: "mmu_cfg \<Rightarrow> nat \<Rightarrow> u32 \<Rightarrow> u32 \<Rightarrow> mmu \<Rightarrow> mmu" where
  "map_ptbl_cpu C cpu ptbl vaddr st =
     (let K = mc_abi C; P = mc_pte C;
          pte = CPU_L2_TABLE C st cpu + 4 * drop_bit 22 vaddr;
          ptp = l1_entry C st cpu (drop_bit 20 vaddr AND NOT 3);
          st0 = wr pte (((ptbl OR ucast (kpte_rw P)) AND NOT (ucast (mask_nc P))) OR ucast (ch_pte_attr (mc_chip C))) st
      in fold (\<lambda>i. wr (ptp + 4 * of_nat i) ((ptbl + of_nat i * ARM_L2_SIZE K) OR ucast (l1_pgtable P))) [0..<4] st0)"

definition map_ptbl :: "mmu_cfg \<Rightarrow> u32 \<Rightarrow> u32 \<Rightarrow> mmu \<Rightarrow> mmu" where
  "map_ptbl C pt vaddr = fold (\<lambda>cpu. map_ptbl_cpu C cpu pt vaddr) [0..<mc_num_cpu C]"

definition arm_pdmap :: "mmu_cfg \<Rightarrow> u32 \<Rightarrow> mmu \<Rightarrow> mmu" where
  "arm_pdmap C vaddr = fold (\<lambda>cpu st. map_ptbl_cpu C cpu (CPU_L2_TABLE C st cpu) vaddr st) [0..<mc_num_cpu C]"

definition arm_scmap :: "mmu_cfg \<Rightarrow> u32 \<Rightarrow> u32 \<Rightarrow> u32 \<Rightarrow> mmu \<Rightarrow> mmu" where
  "arm_scmap C vaddr paddr flags =
     (let K = mc_abi C; P = mc_pte C;
          prot = (if flags AND ARM_PTE_RW K \<noteq> 0 then kscn_rw P else kscn_ro P);
          prot1 = (if flags AND ARM_PTE_CB K \<noteq> 0 then prot OR kscn_cb P else prot)
      in fold (\<lambda>cpu st. wr (l1_entry C st cpu (drop_bit 20 vaddr)) (paddr OR prot1) st) [0..<mc_num_cpu C])"

definition arm_scunmap :: "mmu_cfg \<Rightarrow> u32 \<Rightarrow> mmu \<Rightarrow> mmu" where
  "arm_scunmap C vaddr =
     fold (\<lambda>cpu st. wr (l1_entry C st cpu (drop_bit 20 vaddr)) 0 st) [0..<mc_num_cpu C]"

text \<open>
  The inner loop of \<open>arm_32_map\<close> fills one page of tables; \<open>n\<close> is the number of entries left in
  it. A page for tables that cannot be allocated would be written at \<open>NULL_PADDR\<close>: that is
  the undefined value here.
\<close>

primrec fill_table :: "nat \<Rightarrow> arm_abi \<Rightarrow> u32 \<Rightarrow> u32 \<Rightarrow> u32 \<Rightarrow> u32 \<Rightarrow> mmu \<Rightarrow> u32 \<times> u32 \<times> u32 \<times> mmu" where
  "fill_table 0 K pte pa va sz st = (pa, va, sz, st)"
| "fill_table (Suc n) K pte pa va sz st =
     (if sz = 0 then (pa, va, sz, st)
      else fill_table n K (pte + 4) (pa + PAGESIZE K) (va + PAGESIZE K) (sz - PAGESIZE K) (wr pte pa st))"

definition get_table :: "mmu_cfg \<Rightarrow> (u32 \<Rightarrow> mmu \<Rightarrow> mmu) \<Rightarrow> u32 \<Rightarrow> mmu \<Rightarrow> (u32 \<times> mmu) res" where
  "get_table C enter ptp st =
     (let K = mc_abi C; e = rd st ptp
      in if e AND ARM_PTP_VALID K = 0
         then bind_res (calloc_ram (mc_as C) (PAGESIZE K) (PAGESIZE K) (mm_ram st)) (\<lambda>(pt, ram).
                if pt = NULL_PADDR then undef else Inr (pt, enter pt (st\<lparr>mm_ram := ram\<rparr>)))
         else Inr (e AND NOT (PGMASK K), st))"

definition l2_index :: "arm_abi \<Rightarrow> u32 \<Rightarrow> u32" where
  "l2_index K va = drop_bit 12 va AND (ARM_L2_SIZE K - 1)"

text \<open>
  The loop over the tables, for one CPU. Every round maps at least one page, so the number of
  pages plus one is fuel enough.
\<close>

primrec map_pages :: "nat \<Rightarrow> mmu_cfg \<Rightarrow> u32 \<Rightarrow> u32 \<Rightarrow> u32 \<Rightarrow> u32 \<Rightarrow> mmu \<Rightarrow> mmu res" where
  "map_pages 0 C ptp pa va sz st = undef"
| "map_pages (Suc fuel) C ptp pa va sz st =
     (if sz = 0 then Inr st
      else bind_res (get_table C (\<lambda>pt. map_ptbl C pt va) ptp st) (\<lambda>(tbl, st1).
             let K = mc_abi C; i = l2_index K va
             in case fill_table (unat (ARM_L2_SIZE K - i)) K (tbl + 4 * i) pa va sz st1 of
                  (pa1, va1, sz1, st2) \<Rightarrow> map_pages fuel C (ptp + 16) pa1 va1 sz1 st2))"

primrec map_cpus :: "nat list \<Rightarrow> mmu_cfg \<Rightarrow> u32 \<Rightarrow> u32 \<Rightarrow> u32 \<Rightarrow> mmu \<Rightarrow> mmu res" where
  "map_cpus [] C pa va sz st = Inr st"
| "map_cpus (cpu # cpus) C pa va sz st =
     bind_res (map_pages (Suc (unat sz)) C (l1_entry C st cpu (drop_bit 20 va AND NOT 3)) pa va sz st)
       (map_cpus cpus C pa va sz)"

definition arm_32_map :: "mmu_cfg \<Rightarrow> u32 \<Rightarrow> u32 \<Rightarrow> u32 \<Rightarrow> u32 \<Rightarrow> mmu \<Rightarrow> (u32 \<times> mmu) res" where
  "arm_32_map C vaddr paddr sz flags st =
     (if \<not> mc_virtual C then Inr (paddr, st)
      else
        let K = mc_abi C; off = paddr AND PGMASK K;
            pa = paddr AND NOT (PGMASK K);
            size1 = ROUND (sz + off) (PAGESIZE K);
            va = (if vaddr = NOT 0 then next_addr st else vaddr);
            st1 = (if vaddr = NOT 0 then st\<lparr>next_addr := next_addr st + size1\<rparr> else st)
        in bind_res (map_cpus [0..<mc_num_cpu C] C (set_prot C pa flags) va size1 st1)
             (\<lambda>st2. Inr (va + off, st2)))"

definition arm_32_map_cpu :: "mmu_cfg \<Rightarrow> nat \<Rightarrow> u32 \<Rightarrow> u32 \<Rightarrow> u32 \<Rightarrow> mmu \<Rightarrow> mmu res" where
  "arm_32_map_cpu C cpu vaddr paddr flags st =
     bind_res (get_table C (\<lambda>pt. map_ptbl_cpu C cpu pt vaddr) (l1_entry C st cpu (drop_bit 20 vaddr AND NOT 3)) st)
       (\<lambda>(tbl, st1). Inr (wr (tbl + 4 * l2_index (mc_abi C) vaddr) (set_prot C paddr flags) st1))"

definition arm_32_elf_vaddr_to_paddr :: "mmu_cfg \<Rightarrow> u32 \<Rightarrow> mmu \<Rightarrow> u32" where
  "arm_32_elf_vaddr_to_paddr C vaddr st =
     (let K = mc_abi C; e = rd st (l1_entry C st 0 (drop_bit 20 vaddr))
      in if e AND ARM_PTP_VALID K = ARM_PTP_SC K AND ARM_PTP_VALID K
         then (e AND NOT (ARM_SCMASK K)) + (vaddr AND ARM_SCMASK K)
         else let pte = (e AND NOT (PGMASK K)) + 4 * l2_index K vaddr
              in (rd st pte AND NOT (PGMASK K)) + (vaddr AND PGMASK K))"

text \<open>With 32-bit physical addresses these are the public functions.\<close>

definition arm_map :: "mmu_cfg \<Rightarrow> u32 \<Rightarrow> u32 \<Rightarrow> u32 \<Rightarrow> u32 \<Rightarrow> mmu \<Rightarrow> (u32 \<times> mmu) res" where
  "arm_map = arm_32_map"

definition arm_map_cpu :: "mmu_cfg \<Rightarrow> nat \<Rightarrow> u32 \<Rightarrow> u32 \<Rightarrow> u32 \<Rightarrow> mmu \<Rightarrow> mmu res" where
  "arm_map_cpu = arm_32_map_cpu"

definition elf_vaddr_to_paddr :: "mmu_cfg \<Rightarrow> u32 \<Rightarrow> mmu \<Rightarrow> u32" where
  "elf_vaddr_to_paddr = arm_32_elf_vaddr_to_paddr"

end
