(* ===== verification/ArmMmuSpec.thy ===== *)
theory ArmMmuSpec
  imports ArmMmu RamSpec
begin

section \<open>The ARM page tables: what they map\<close>

text \<open>
  What the proofs about the tables rest on: memory read and written by words (\<open>mw\<close>), blocks of
  words that are zero or unchanged (\<open>zero_block\<close>, \<open>same_block\<close>), and the pages the RAM
  allocator supplies, which are zeroed and taken from the free RAM.
\<close>

subsection \<open>Words\<close>

text \<open>A word of memory by its address as a number; table entries are at multiples of four.\<close>

definition mw :: "mmu \<Rightarrow> nat \<Rightarrow> u32" where
  "mw st a = rd st (of_nat a)"

lemma join_bytes:
  fixes v :: u32
  shows "ucast (ucast v :: u8) OR push_bit 8 (ucast (ucast (drop_bit 8 v) :: u8)) OR
    push_bit 16 (ucast (ucast (drop_bit 16 v) :: u8)) OR push_bit 24 (ucast (ucast (drop_bit 24 v) :: u8)) = v"
proof (rule bit_word_eqI)
  fix n assume n: "n < LENGTH(32)"
  consider "n < 8" | "8 \<le> n" "n < 16" | "16 \<le> n" "n < 24" | "24 \<le> n" by linarith
  then show "bit (ucast (ucast v :: u8) OR push_bit 8 (ucast (ucast (drop_bit 8 v) :: u8)) OR
    push_bit 16 (ucast (ucast (drop_bit 16 v) :: u8)) OR push_bit 24 (ucast (ucast (drop_bit 24 v) :: u8)) :: u32) n = bit v n"
    by cases (use n in \<open>auto simp: bit_or_iff bit_push_bit_iff bit_ucast_iff bit_drop_bit_eq\<close>)
qed

lemma word_at_set_same: "word_at (set_word a v m) a = v"
proof -
  have "set_word a v m a = ucast v" "set_word a v m (a + 1) = ucast (drop_bit 8 v)"
    "set_word a v m (a + 2) = ucast (drop_bit 16 v)" "set_word a v m (a + 3) = ucast (drop_bit 24 v)"
    by (simp_all add: set_word_def)
  then show ?thesis by (simp add: word_at_def join_bytes)
qed

lemma word_at_set_other:
  fixes a b :: u32
  assumes "4 dvd unat a" "4 dvd unat b" "a \<noteq> b"
  shows "word_at (set_word a v m) b = word_at m b"
proof -
  have "\<not> (b + of_nat i) - a < 4" if "i < 4" for i
  proof
    assume lt: "(b + of_nat i) - a < 4"
    obtain x y where x: "unat a = 4 * x" and y: "unat b = 4 * y" using assms(1,2) by (auto elim!: dvdE)
    have xy: "x < 2 ^ 30" "y < 2 ^ 30" using unat_u32_bound [of a] unat_u32_bound [of b] x y by simp_all
    have i: "unat (of_nat i :: u32) = i" by (rule unat_of_nat_small) (use that in simp)
    have "unat (b + of_nat i) = 4 * y + i" using y i xy that by (simp add: unat_word_ariths)
    then have "unat ((b + of_nat i) - a) = (if 4 * x \<le> 4 * y + i then 4 * y + i - 4 * x else 4 * y + i + 2 ^ 32 - 4 * x)"
      using x by (simp add: unat_sub_if')
    moreover have "unat ((b + of_nat i) - a) < 4" using lt by (simp add: word_less_nat_alt)
    ultimately have "x = y" using that xy by (auto split: if_splits)
    then show False using assms(3) x y by (simp add: word_unat_eq_iff)
  qed
  from this [of 0] this [of 1] this [of 2] this [of 3] show ?thesis
    by (simp add: word_at_def set_word_def)
qed

lemma unat_aligned4: "4 dvd a \<Longrightarrow> a < 2 ^ 32 \<Longrightarrow> 4 dvd unat (of_nat a :: u32)"
  by (simp add: unat_of_nat_small)

lemma mw_wr:
  assumes "4 dvd unat x" and "4 dvd a" and "a < 2 ^ 32"
  shows "mw (wr x v st) a = (if a = unat x then v else mw st a)"
proof -
  have u: "unat (of_nat a :: u32) = a" by (rule unat_of_nat_small) (use assms(3) in simp)
  show ?thesis
  proof (cases "a = unat x")
    case True
    then have "of_nat a = x" by simp
    then show ?thesis using True by (simp add: mw_def rd_def wr_def word_at_set_same)
  next
    case False
    then have "x \<noteq> of_nat a" using u by auto
    then show ?thesis using False word_at_set_other [OF assms(1) unat_aligned4 [OF assms(2,3)]]
      by (simp add: mw_def rd_def wr_def)
  qed
qed

lemma wr_frame [simp]:
  "L1_paddr (wr x v st) = L1_paddr st" "L2_paddr (wr x v st) = L2_paddr st" "next_addr (wr x v st) = next_addr st"
  "ram_list (mm_ram (wr x v st)) = ram_list (mm_ram st)" "sysram_added (mm_ram (wr x v st)) = sysram_added (mm_ram st)"
  "avoid_list (mm_ram (wr x v st)) = avoid_list (mm_ram st)" "rs_lsp (mm_ram (wr x v st)) = rs_lsp (mm_ram st)"
  by (simp_all add: wr_def)

lemma CPU_TABLE_wr [simp]:
  "CPU_L1_TABLE C (wr x v st) = CPU_L1_TABLE C st" "CPU_L2_TABLE C (wr x v st) = CPU_L2_TABLE C st"
  by (simp_all add: CPU_L1_TABLE_def CPU_L2_TABLE_def fun_eq_iff)

lemma l1_entry_wr [simp]: "l1_entry C (wr x v st) = l1_entry C st"
  by (simp add: l1_entry_def fun_eq_iff)

subsection \<open>Pages for tables\<close>

definition page_set :: "nat \<Rightarrow> nat set" where
  "page_set t = {t ..< t + 4096}"

lemma page_set_disjoint: "4096 dvd s \<Longrightarrow> 4096 dvd t \<Longrightarrow> s \<noteq> t \<Longrightarrow> page_set s \<inter> page_set t = {}"
  by (auto simp: page_set_def elim!: dvdE)

text \<open>The next \<open>k\<close> pages asked for are there.\<close>

primrec page_supply :: "nat \<Rightarrow> as_abi \<Rightarrow> ram_state \<Rightarrow> bool" where
  "page_supply 0 A rs = True"
| "page_supply (Suc k) A rs =
     (case calloc_ram A 4096 4096 rs of Inl e \<Rightarrow> False | Inr (a, rs') \<Rightarrow> a \<noteq> NULL_PADDR \<and> page_supply k A rs')"

definition ram_good :: "nat \<Rightarrow> as_abi \<Rightarrow> ram_state \<Rightarrow> bool" where
  "ram_good k A rs \<longleftrightarrow> ram_ok (ram_list rs) \<and> ram_room k (ram_list rs) \<and> \<not> sysram_added rs \<and>
     (\<forall>r \<in> set (ram_list rs). r_hi r + 4096 \<le> 2 ^ 32) \<and> page_supply k A rs"

text \<open>The allocator does not look at the memory it hands out.\<close>

lemma alloc_ram_mem: "alloc_ram A a sz al (rs\<lparr>rs_mem := m\<rparr>) =
    bind_res (alloc_ram A a sz al rs) (\<lambda>(x, rs1). Inr (x, rs1\<lparr>rs_mem := m\<rparr>))"
  by (auto simp: alloc_ram_def avoids_def Let_def bind_res_def split: sum.splits)

lemma page_supply_mem: "page_supply k A (rs\<lparr>rs_mem := m\<rparr>) = page_supply k A rs"
proof (induction k arbitrary: rs m)
  case (Suc k)
  show ?case
    unfolding page_supply.simps calloc_ram_def alloc_ram_mem
    by (cases "alloc_ram A NULL_PADDR 4096 4096 rs") (auto simp: Suc.IH)
qed simp

lemma ram_good_mem [simp]: "ram_good k A (rs\<lparr>rs_mem := m\<rparr>) = ram_good k A rs"
  by (simp add: ram_good_def page_supply_mem)

lemma ram_good_wr [simp]: "ram_good k A (mm_ram (wr x v st)) = ram_good k A (mm_ram st)"
  by (simp add: wr_def)

lemma covered_hi:
  assumes "ram_ok l" and "ram_ok l'" and "covered l' \<subseteq> covered l" and "\<forall>r \<in> set l. r_hi r + n \<le> m"
  shows "\<forall>r \<in> set l'. r_hi r + n \<le> m"
proof
  fix r assume "r \<in> set l'"
  moreover have "r_lo r < r_hi r" using assms(2) \<open>r \<in> set l'\<close> by (simp add: ram_ok_def r_ok_def)
  ultimately have "r_hi r - 1 \<in> {r_lo r ..< r_hi r}" "r \<in> set l'" by auto
  then have "r_hi r - 1 \<in> covered l'" unfolding covered_def by blast
  then have "r_hi r - 1 \<in> covered l" using assms(3) by blast
  then obtain q where "q \<in> set l" "r_hi r - 1 < r_hi q" unfolding covered_def by auto
  then show "r_hi r + n \<le> m" using assms(4) by force
qed

lemma calloc_block:
  assumes ok: "ram_ok (ram_list rs)" and room: "ram_room 1 (ram_list rs)" and sr: "\<not> sysram_added rs"
    and below: "\<forall>r \<in> set (ram_list rs). r_hi r + 2 ^ k \<le> 2 ^ 32" and k: "k < 32" and sz: "0 < sz"
    and c: "calloc_ram A sz (2 ^ k) rs = Inr (a, rs')" "a \<noteq> NULL_PADDR"
  shows "2 ^ k dvd unat a" "ram_block a sz \<subseteq> covered (ram_list rs)" "unat a + unat sz \<le> 2 ^ 32"
    "covered (ram_list rs') = covered (ram_list rs) - ram_block a sz" "ram_ok (ram_list rs')"
    "length (ram_list rs') \<le> Suc (length (ram_list rs))" "\<not> sysram_added rs'" "rs_lsp rs' = rs_lsp rs"
    "\<forall>r \<in> set (ram_list rs'). r_hi r + 2 ^ k \<le> 2 ^ 32"
    "\<And>p. p - a < sz \<Longrightarrow> rs_mem rs' p = 0" "\<And>p. \<not> p - a < sz \<Longrightarrow> rs_mem rs' p = rs_mem rs p"
proof -
  obtain b st1 where al: "alloc_ram A NULL_PADDR sz (2 ^ k) rs = Inr (b, st1)"
    "if b = NULL_PADDR then st1 = rs
     else free_block (avoids rs) (ram_list rs) (unat b) (unat sz) \<and> 2 ^ k dvd unat b \<and>
       (\<exists>l'. st1 = rs\<lparr>ram_list := l'\<rparr> \<and> ram_ok l' \<and> covered l' = covered (ram_list rs) - ram_block b sz \<and>
         length l' \<le> Suc (length (ram_list rs)))"
    using alloc_ram_block [OF ok room sr below k sz, of A] by blast
  have b: "b = a" using c al(1) by (auto simp: calloc_ram_def split: if_splits)
  have rs': "rs' = st1\<lparr>rs_mem := (\<lambda>p. if p - a < sz then 0 else rs_mem st1 p)\<rparr>"
    using c al(1) b by (auto simp: calloc_ram_def)
  obtain l' where l': "free_block (avoids rs) (ram_list rs) (unat a) (unat sz)" "2 ^ k dvd unat a" "st1 = rs\<lparr>ram_list := l'\<rparr>"
    "ram_ok l'" "covered l' = covered (ram_list rs) - ram_block a sz" "length l' \<le> Suc (length (ram_list rs))"
    using al(2) b c(2) by auto
  show "2 ^ k dvd unat a" by (rule l'(2))
  show sub: "ram_block a sz \<subseteq> covered (ram_list rs)" using l'(1) by (simp add: free_block_def ram_block_def)
  show "covered (ram_list rs') = covered (ram_list rs) - ram_block a sz" "ram_ok (ram_list rs')"
    "length (ram_list rs') \<le> Suc (length (ram_list rs))" "\<not> sysram_added rs'" "rs_lsp rs' = rs_lsp rs"
    using l'(3-6) sr by (simp_all add: rs')
  show "\<forall>r \<in> set (ram_list rs'). r_hi r + 2 ^ k \<le> 2 ^ 32"
    using covered_hi [OF ok l'(4) _ below] l'(3,5) by (simp add: rs')
  show "rs_mem rs' p = 0" if "p - a < sz" for p using that by (simp add: rs')
  show "rs_mem rs' p = rs_mem rs p" if "\<not> p - a < sz" for p using that by (simp add: rs' l'(3))
  have "0 < unat sz" using sz by (simp add: word_less_nat_alt)
  then have "unat a + unat sz - 1 \<in> ram_block a sz" by (auto simp: ram_block_def)
  then obtain r where "r \<in> set (ram_list rs)" "unat a + unat sz - 1 < r_hi r" using sub by (auto simp: covered_def)
  moreover from this(1) have "r_hi r + 2 ^ k \<le> 2 ^ 32" using below by blast
  ultimately show "unat a + unat sz \<le> 2 ^ 32" by linarith
qed

lemma calloc_page:
  assumes "ram_good (Suc k) A rs"
  obtains a rs' where "calloc_ram A 4096 4096 rs = Inr (a, rs')" "a \<noteq> NULL_PADDR" "4096 dvd unat a"
    "page_set (unat a) \<subseteq> covered (ram_list rs)" "covered (ram_list rs') = covered (ram_list rs) - page_set (unat a)"
    "ram_good k A rs'" "\<And>p. p - a < 4096 \<Longrightarrow> rs_mem rs' p = 0" "\<And>p. \<not> p - a < 4096 \<Longrightarrow> rs_mem rs' p = rs_mem rs p"
    "rs_lsp rs' = rs_lsp rs"
proof -
  have g: "ram_ok (ram_list rs)" "ram_room 1 (ram_list rs)" "ram_room (Suc k) (ram_list rs)" "\<not> sysram_added rs"
    "\<forall>r \<in> set (ram_list rs). r_hi r + 2 ^ 12 \<le> 2 ^ 32" using assms by (simp_all add: ram_good_def ram_room_eq)
  obtain a rs1 where c: "calloc_ram A 4096 (2 ^ 12) rs = Inr (a, rs1)" "a \<noteq> NULL_PADDR" "page_supply k A rs1"
    using assms by (auto simp: ram_good_def split: sum.splits prod.splits)
  have pow: "(2 ^ 12 :: u32) = 4096" "(2 ^ 12 :: nat) = 4096" by simp_all
  have pg: "ram_block a 4096 = page_set (unat a)" by (simp add: ram_block_def page_set_def)
  note B = calloc_block [OF g(1,2,4,5) _ _ c(1,2), unfolded pow pg, simplified]
  show ?thesis
  proof (rule that [OF c(1,2) [unfolded pow]])
    show "4096 dvd unat a" "page_set (unat a) \<subseteq> covered (ram_list rs)" by (rule B)+
    show "covered (ram_list rs1) = covered (ram_list rs) - page_set (unat a)" by (rule B)
    show "ram_good k A rs1" using B(5,6,7,9) g(3) c(3) by (simp add: ram_good_def ram_room_eq)
  qed (simp_all add: B)
qed

subsection \<open>Words in and beside a block\<close>

lemma block_words:
  fixes a :: u32
  assumes "4 dvd unat a" and "4 dvd n" and "unat a + n \<le> 2 ^ 32" and "4 dvd x" and "x < 2 ^ 32" and "i < (4 :: nat)"
  shows "unat (of_nat x + of_nat i - a) < n \<longleftrightarrow> unat a \<le> x \<and> x < unat a + n"
proof -
  obtain k l m where k: "unat a = 4 * k" and l: "x = 4 * l" and m: "n = 4 * m" using assms(1,2,4) by (auto elim!: dvdE)
  have u: "unat (of_nat (x + i) :: u32) = x + i" by (rule unat_of_nat_small) (use assms(5,6) l in simp)
  have "unat (of_nat x + of_nat i - a) = (if unat a \<le> x + i then x + i - unat a else x + i + 2 ^ 32 - unat a)"
    using u by (simp add: unat_sub_if')
  moreover have "unat a \<le> x + i \<longleftrightarrow> unat a \<le> x" using k l assms(6) by auto
  moreover have "x + i < unat a + n \<longleftrightarrow> x < unat a + n"
  proof
    assume "x < unat a + n"
    then have "l < k + m" using k l m by simp
    then have "4 * l + 4 \<le> 4 * k + 4 * m" by simp
    then show "x + i < unat a + n" using k l m assms(6) by simp
  qed simp
  ultimately show ?thesis using assms(3) unat_u32_bound [of a] by (auto split: if_splits)
qed

lemma zero_block:
  assumes "\<And>p. p - a < sz \<Longrightarrow> m p = 0" and "4 dvd unat a" and "4 dvd unat sz" and "unat a + unat sz \<le> 2 ^ 32"
    and "4 dvd x" and "x < 2 ^ 32" and "x \<in> ram_block a sz"
  shows "word_at m (of_nat x) = 0"
proof -
  have "m (of_nat x + of_nat i) = 0" if "i < 4" for i
    by (rule assms(1)) (use block_words [OF assms(2-6) that] assms(7) in \<open>simp add: word_less_nat_alt ram_block_def\<close>)
  from this [of 0] this [of 1] this [of 2] this [of 3] show ?thesis by (simp add: word_at_def)
qed

lemma same_block:
  assumes "\<And>p. \<not> p - a < sz \<Longrightarrow> m' p = m p" and "4 dvd unat a" and "4 dvd unat sz" and "unat a + unat sz \<le> 2 ^ 32"
    and "4 dvd x" and "x < 2 ^ 32" and "x \<notin> ram_block a sz"
  shows "word_at m' (of_nat x) = word_at m (of_nat x)"
proof -
  have "m' (of_nat x + of_nat i) = m (of_nat x + of_nat i)" if "i < 4" for i
    by (rule assms(1)) (use block_words [OF assms(2-6) that] assms(7) in \<open>simp add: word_less_nat_alt ram_block_def\<close>)
  from this [of 0] this [of 1] this [of 2] this [of 3] show ?thesis by (simp add: word_at_def)
qed

end
