(* ===== verification/ArmMmuInv.thy ===== *)
theory ArmMmuInv
  imports ArmMmuSpec
begin

section \<open>The ARM page tables: layout and invariant\<close>

text \<open>
  Where the tables lie and what holds of them between operations: the constants fit the hardware's
  format (\<open>cfg_ok\<close>), the first-level tables and the supplied pages do not overlap, and every
  second-level table belongs to one group of 4 MB of one CPU.
\<close>

text \<open>
  What the values from \<open><arm/mmu.h>\<close> have to be: the sizes the comments of \<open>arm_map.c\<close> give
  (tables of 1 KB, four in a page; 16 KB first-level tables, as \<open>vstart_v7.S\<close> shifts the CPU
  number; sections of 1 MB), the entry types of the ARM short-descriptor format (0 fault, 1 page
  table, 2 section, bit 1 set for a small page), and attribute bits below the address bits.
\<close>

definition low12 :: "u32 \<Rightarrow> bool" where
  "low12 x \<longleftrightarrow> x AND NOT (mask 12) = 0"

definition arm_abi_ok :: "arm_abi \<Rightarrow> bool" where
  "arm_abi_ok K \<longleftrightarrow> PAGESIZE K = 4096 \<and> PGMASK K = 4095 \<and> ARM_L1_SIZE K = 16384 \<and> ARM_L2_SIZE K = 1024 \<and>
     ARM_SCSIZE K = 0x100000 \<and> ARM_SCMASK K = 0xFFFFF \<and> ARM_PTP_VALID K = 3 \<and> ARM_PTP_SC K AND 3 = 2 \<and>
     low12 (ARM_PTE_V6_AP0 K) \<and> low12 (ARM_PTE_V6_nG K) \<and> low12 (ARM_PTE_V6_S K) \<and> low12 (ARM_PTE_V6_SP_TEX_MASK K) \<and>
     low12 (ARM_PTE_V6_SP_XN K) \<and> low12 (ARM_PTE_V5_SP_TEX_MASK K) \<and> low12 (ARM_PTE_CB K) \<and>
     \<not> bit (ARM_PTE_V6_AP0 K) 1 \<and> \<not> bit (ARM_PTE_V6_nG K) 1"

definition pte_ok :: "armv_pte \<Rightarrow> bool" where
  "pte_ok P \<longleftrightarrow> low12 (ucast (upte_ro P)) \<and> low12 (ucast (upte_rw P)) \<and> low12 (ucast (kpte_ro P)) \<and> low12 (ucast (kpte_rw P)) \<and>
     low12 (ucast (mask_nc P)) \<and> bit (upte_ro P) 1 \<and> bit (upte_rw P) 1 \<and> bit (kpte_ro P) 1 \<and> bit (kpte_rw P) 1 \<and>
     \<not> bit (mask_nc P) 1 \<and> (ucast (l1_pgtable P) :: u32) AND NOT (mask 10) = 0 \<and> l1_pgtable P AND 3 = 1 \<and>
     kscn_ro P AND NOT (mask 20) = 0 \<and> kscn_rw P AND NOT (mask 20) = 0 \<and> kscn_cb P AND NOT (mask 20) = 0 \<and>
     kscn_ro P AND 3 = 2 \<and> kscn_rw P AND 3 = 2 \<and> kscn_cb P AND 3 = 0"

definition cfg_ok :: "mmu_cfg \<Rightarrow> bool" where
  "cfg_ok C \<longleftrightarrow> arm_abi_ok (mc_abi C) \<and> pte_ok (mc_pte C) \<and> low12 (ucast (ch_pte_attr (mc_chip C))) \<and> 0 < mc_num_cpu C"

lemma abi_okD:
  assumes "cfg_ok C"
  shows "PAGESIZE (mc_abi C) = 4096" "PGMASK (mc_abi C) = 4095" "ARM_L1_SIZE (mc_abi C) = 16384" "ARM_L2_SIZE (mc_abi C) = 1024"
    "ARM_SCSIZE (mc_abi C) = 0x100000" "ARM_SCMASK (mc_abi C) = 0xFFFFF" "ARM_PTP_VALID (mc_abi C) = 3" "ARM_PTP_SC (mc_abi C) AND 3 = 2"
  using assms by (simp_all add: cfg_ok_def arm_abi_ok_def)

subsection \<open>Fields of a word\<close>

lemma or_low:
  fixes x b :: u32
  assumes "x AND mask k = 0" and "b AND NOT (mask k) = 0"
  shows "(x OR b) AND NOT (mask k) = x" "(x OR b) AND mask k = b"
proof -
  have x: "\<not> bit x i" if "i < k" "i < 32" for i
  proof -
    have "\<not> bit (x AND mask k) i" using assms(1) by simp
    then show ?thesis using that by (simp add: bit_simps)
  qed
  have b: "\<not> bit b i" if "k \<le> i" "i < 32" for i
  proof -
    have "\<not> bit (b AND NOT (mask k)) i" using assms(2) by simp
    then show ?thesis using that by (simp add: bit_simps)
  qed
  have "bit ((x OR b) AND NOT (mask k)) i = bit x i \<and> bit ((x OR b) AND mask k) i = bit b i" if "i < 32" for i
    by (cases "i < k") (use x [of i] b [of i] that in \<open>auto simp: bit_simps\<close>)
  then show "(x OR b) AND NOT (mask k) = x" "(x OR b) AND mask k = b" by (auto intro: bit_word_eqI)
qed

lemma unat_and_not_mask: "unat (x AND NOT (mask k)) = unat x div 2 ^ k * 2 ^ k" for x :: "'a::len word"
  by (simp only: and_not_mask_shift unat_push_drop)

lemma unat_and_mask: "unat (x AND mask k) = unat x mod 2 ^ k" for x :: "'a::len word"
proof -
  have "x AND mask k = take_bit k x" by (simp only: take_bit_eq_mask)
  then have "unat (x AND mask k) = take_bit k (unat x)" by (simp only: unsigned_take_bit_eq)
  also have "\<dots> = unat x mod 2 ^ k" by (rule take_bit_eq_mod)
  finally show ?thesis .
qed

lemma and_mask_dvd: "x AND mask k = 0 \<longleftrightarrow> 2 ^ k dvd unat x" for x :: "'a::len word"
  using unat_and_mask [of x k] by (metis dvd_eq_mod_eq_0 unat_eq_0)

lemma masks: "(3 :: u32) = mask 2" "(1023 :: u32) = mask 10" "(4095 :: u32) = mask 12" "(0xFFFFF :: u32) = mask 20"
  by (simp_all add: mask_eq_exp_minus_1)

lemma unat_drop_bit: "unat (drop_bit k x) = unat x div 2 ^ k" for x :: "'a::len word"
proof -
  have "unat (drop_bit k x) = drop_bit k (unat x)" by (rule unat_drop_bit_eq)
  also have "\<dots> = unat x div 2 ^ k" by (rule drop_bit_eq_div)
  finally show ?thesis .
qed

subsection \<open>Writing an array\<close>

lemma mw_array:
  assumes "4 dvd unat base" and "unat base + 4 * n \<le> 2 ^ 32" and "4 dvd a" and "a < 2 ^ 32"
  shows "mw (fold (\<lambda>i. wr (base + 4 * of_nat i) (f i)) [0..<n] st) a =
    (if unat base \<le> a \<and> a < unat base + 4 * n then f ((a - unat base) div 4) else mw st a)"
  using assms(2)
proof (induction n)
  case (Suc n)
  have u: "unat (base + 4 * of_nat n) = unat base + 4 * n"
  proof -
    have "unat (4 * of_nat n :: u32) = 4 * n"
      using unat_of_nat_small [of "4 * n", where 'a = 32] Suc.prems by simp
    then show ?thesis using Suc.prems by (simp add: unat_word_ariths)
  qed
  have al: "4 dvd unat (base + 4 * of_nat n)" using assms(1) by (simp add: u)
  have "a = unat base + 4 * n \<or> a < unat base + 4 * n \<or> unat base + 4 * Suc n \<le> a"
  proof -
    obtain x y where "a = 4 * x" "unat base = 4 * y" using assms(1,3) by (auto elim!: dvdE)
    then show ?thesis by presburger
  qed
  then show ?case
    using Suc.IH Suc.prems by (auto simp: mw_wr [OF al assms(3,4)] u)
qed auto

lemma array_frame [simp]:
  "L1_paddr (fold (\<lambda>i. wr (g i) (f i)) is st) = L1_paddr st" "L2_paddr (fold (\<lambda>i. wr (g i) (f i)) is st) = L2_paddr st"
  "next_addr (fold (\<lambda>i. wr (g i) (f i)) is st) = next_addr st"
  "ram_list (mm_ram (fold (\<lambda>i. wr (g i) (f i)) is st)) = ram_list (mm_ram st)"
  "rs_lsp (mm_ram (fold (\<lambda>i. wr (g i) (f i)) is st)) = rs_lsp (mm_ram st)"
  "ram_good k A (mm_ram (fold (\<lambda>i. wr (g i) (f i)) is st)) = ram_good k A (mm_ram st)"
  by (induction "is" arbitrary: st) simp_all

lemma unat_of_nat_self: "of_nat (unat x) = x" for x :: "'a::len word"
  by simp

lemma fill_table_eq:
  assumes "PAGESIZE K = 4096" and "unat sz = 4096 * m"
  shows "fill_table n K pte pa va sz st =
    (pa + of_nat (min n m) * 4096, va + of_nat (min n m) * 4096, of_nat (4096 * (m - min n m)),
     fold (\<lambda>i. wr (pte + 4 * of_nat i) (pa + of_nat i * 4096)) [0..<min n m] st)"
  using assms(2)
proof (induction n arbitrary: pte pa va sz m st)
  case 0
  then have "sz = of_nat (4096 * m)" by (metis unat_of_nat_self)
  then show ?case by simp
next
  case (Suc n)
  show ?case
  proof (cases m)
    case 0
    then have "sz = 0" using Suc.prems by (simp add: unat_eq_0)
    then show ?thesis using 0 by simp
  next
    case (Suc m')
    have sz: "sz \<noteq> 0" using Suc.prems Suc by auto
    have "4096 \<le> unat sz" using Suc.prems Suc by simp
    then have u: "unat (sz - 4096) = 4096 * m'"
      using Suc.prems Suc by (simp add: unat_sub word_le_nat_alt)
    let ?k = "min n m'"
    have f: "fold (\<lambda>i. wr (pte + 4 + 4 * of_nat i) (pa + 4096 + of_nat i * 4096)) [0..<?k] (wr pte pa st) =
        fold (\<lambda>i. wr (pte + 4 * of_nat i) (pa + of_nat i * 4096)) [0..<Suc ?k] st"
    proof -
      have "[0..<Suc ?k] = 0 # map Suc [0..<?k]" by (simp add: upt_conv_Cons map_Suc_upt del: upt_Suc)
      then show ?thesis by (simp add: fold_map comp_def algebra_simps del: upt_Suc)
    qed
    show ?thesis
      using sz Suc.IH [OF u] assms(1) Suc f by (simp add: algebra_simps del: upt_Suc)
  qed
qed

subsection \<open>Where the tables are\<close>

definition l1base :: "mmu_cfg \<Rightarrow> mmu \<Rightarrow> nat" where
  "l1base C st = unat (CPU_L1_TABLE C st 0)"

definition l2base :: "mmu_cfg \<Rightarrow> mmu \<Rightarrow> nat" where
  "l2base C st = unat (CPU_L2_TABLE C st 0)"

definition a1 :: "mmu_cfg \<Rightarrow> mmu \<Rightarrow> nat \<Rightarrow> nat \<Rightarrow> nat" where
  "a1 C st c j = l1base C st + c * 16384 + 4 * j"

definition a2 :: "mmu_cfg \<Rightarrow> mmu \<Rightarrow> nat \<Rightarrow> nat \<Rightarrow> nat" where
  "a2 C st c g = l2base C st + c * 4096 + 4 * g"

definition table_area :: "mmu_cfg \<Rightarrow> mmu \<Rightarrow> nat set" where
  "table_area C st = {l1base C st ..< l1base C st + mc_num_cpu C * 16384} \<union> {l2base C st ..< l2base C st + mc_num_cpu C * 4096}"

definition geom :: "mmu_cfg \<Rightarrow> mmu \<Rightarrow> bool" where
  "geom C st \<longleftrightarrow> 4096 dvd l1base C st \<and> l1base C st + mc_num_cpu C * 16384 \<le> 2 ^ 32 \<and>
     4096 dvd l2base C st \<and> l2base C st + mc_num_cpu C * 4096 \<le> 2 ^ 32 \<and>
     (l1base C st + mc_num_cpu C * 16384 \<le> l2base C st \<or> l2base C st + mc_num_cpu C * 4096 \<le> l1base C st) \<and>
     (\<forall>c < mc_num_cpu C. unat (CPU_L1_TABLE C st c) = l1base C st + c * 16384) \<and>
     (\<forall>c < mc_num_cpu C. unat (CPU_L2_TABLE C st c) = l2base C st + c * 4096)"

lemma block_less: "c < n \<Longrightarrow> x < m \<Longrightarrow> c * m + x < n * m" for c n m x :: nat
proof -
  assume "c < n" "x < m"
  then have "c * m + x < Suc c * m" by simp
  also have "\<dots> \<le> n * m" using \<open>c < n\<close> by (intro mult_le_mono1) simp
  finally show ?thesis .
qed

lemma block_unique:
  assumes "c * m + x = d * m + y" and "x < m" and "y < m"
  shows "c = d \<and> x = (y :: nat)"
proof -
  have "(c * m + x) div m = c" "(d * m + y) div m = d" using assms(2,3) by simp_all
  then have "c = d" using assms(1) by simp
  then show ?thesis using assms(1) by simp
qed

lemma dvd4: "4096 dvd n \<Longrightarrow> 4 dvd (n :: nat)"
  by (auto elim!: dvdE)

lemma l1_entry_unat:
  assumes "geom C st" and "c < mc_num_cpu C" and "j < 4096"
  shows "unat (l1_entry C st c (of_nat j)) = a1 C st c j"
proof -
  have b: "unat (CPU_L1_TABLE C st c) = l1base C st + c * 16384" "l1base C st + mc_num_cpu C * 16384 \<le> 2 ^ 32"
    using assms by (simp_all add: geom_def)
  have "c * 16384 + 4 * j < mc_num_cpu C * 16384" by (rule block_less) (use assms in simp_all)
  then have lt: "l1base C st + c * 16384 + 4 * j < 2 ^ 32" using b by simp
  have "unat (4 * of_nat j :: u32) = 4 * j" using unat_of_nat_small [of "4 * j", where 'a = 32] assms(3) by simp
  then show ?thesis using b lt by (simp add: l1_entry_def a1_def unat_word_ariths)
qed

lemma l2_entry_unat:
  assumes "geom C st" and "c < mc_num_cpu C" and "j < 1024"
  shows "unat (CPU_L2_TABLE C st c + 4 * of_nat j) = a2 C st c j"
proof -
  have b: "unat (CPU_L2_TABLE C st c) = l2base C st + c * 4096" "l2base C st + mc_num_cpu C * 4096 \<le> 2 ^ 32"
    using assms by (simp_all add: geom_def)
  have "c * 4096 + 4 * j < mc_num_cpu C * 4096" by (rule block_less) (use assms in simp_all)
  then have lt: "l2base C st + c * 4096 + 4 * j < 2 ^ 32" using b by simp
  have "unat (4 * of_nat j :: u32) = 4 * j" using unat_of_nat_small [of "4 * j", where 'a = 32] assms(3) by simp
  then show ?thesis using b lt by (simp add: a2_def unat_word_ariths)
qed

lemma a1_props:
  assumes "geom C st" and "c < mc_num_cpu C" and "j < 4096"
  shows "4 dvd a1 C st c j" "a1 C st c j < 2 ^ 32" "a1 C st c j \<in> table_area C st"
proof -
  have "c * 16384 + 4 * j < mc_num_cpu C * 16384" by (rule block_less) (use assms in simp_all)
  then show "a1 C st c j < 2 ^ 32" "a1 C st c j \<in> table_area C st"
    using assms(1) by (auto simp: geom_def a1_def table_area_def)
  have "4 dvd l1base C st" using assms(1) dvd4 by (simp add: geom_def)
  then show "4 dvd a1 C st c j" by (simp add: a1_def)
qed

lemma a2_props:
  assumes "geom C st" and "c < mc_num_cpu C" and "j < 1024"
  shows "4 dvd a2 C st c j" "a2 C st c j < 2 ^ 32" "a2 C st c j \<in> table_area C st"
proof -
  have "c * 4096 + 4 * j < mc_num_cpu C * 4096" by (rule block_less) (use assms in simp_all)
  then show "a2 C st c j < 2 ^ 32" "a2 C st c j \<in> table_area C st"
    using assms(1) by (auto simp: geom_def a2_def table_area_def)
  have "4 dvd l2base C st" using assms(1) dvd4 by (simp add: geom_def)
  then show "4 dvd a2 C st c j" by (simp add: a2_def)
qed

lemma a1_a2:
  assumes "geom C st" and "c < mc_num_cpu C" "j < 4096" and "d < mc_num_cpu C" "i < 1024"
  shows "a1 C st c j \<noteq> a2 C st d i"
proof -
  have "c * 16384 + 4 * j < mc_num_cpu C * 16384" "d * 4096 + 4 * i < mc_num_cpu C * 4096"
    by (rule block_less; use assms in simp)+
  then show ?thesis using assms(1) by (auto simp: geom_def a1_def a2_def)
qed

lemma a1_inj: "a1 C st c j = a1 C st d i \<Longrightarrow> j < 4096 \<Longrightarrow> i < 4096 \<Longrightarrow> c = d \<and> j = i"
  using block_unique [of c 16384 "4 * j" d "4 * i"] by (simp add: a1_def)

lemma a2_inj: "a2 C st c j = a2 C st d i \<Longrightarrow> j < 1024 \<Longrightarrow> i < 1024 \<Longrightarrow> c = d \<and> j = i"
  using block_unique [of c 4096 "4 * j" d "4 * i"] by (simp add: a2_def)

text \<open>The entry that maps the page of tables, and the four entries it is entered with.\<close>

definition pdent :: "mmu_cfg \<Rightarrow> u32 \<Rightarrow> u32" where
  "pdent C ptbl = ((ptbl OR ucast (kpte_rw (mc_pte C))) AND NOT (ucast (mask_nc (mc_pte C)))) OR ucast (ch_pte_attr (mc_chip C))"

definition l1v :: "mmu_cfg \<Rightarrow> u32 \<Rightarrow> nat \<Rightarrow> u32" where
  "l1v C ptbl i = (ptbl + of_nat i * 1024) OR ucast (l1_pgtable (mc_pte C))"

definition same_frame :: "mmu \<Rightarrow> mmu \<Rightarrow> bool" where
  "same_frame st st' \<longleftrightarrow> L1_paddr st' = L1_paddr st \<and> L2_paddr st' = L2_paddr st \<and> next_addr st' = next_addr st \<and>
     ram_list (mm_ram st') = ram_list (mm_ram st) \<and> rs_lsp (mm_ram st') = rs_lsp (mm_ram st) \<and> (\<forall>k A. ram_good k A (mm_ram st') = ram_good k A (mm_ram st))"

lemma same_frame_refl [simp]: "same_frame st st"
  by (simp add: same_frame_def)

lemma same_frame_trans: "same_frame st st1 \<Longrightarrow> same_frame st1 st2 \<Longrightarrow> same_frame st st2"
  by (simp add: same_frame_def)

lemma same_frame_wr: "same_frame st (wr a v st)"
  by (simp add: same_frame_def)

lemma same_frame_places:
  assumes "same_frame st st'"
  shows "l1base C st' = l1base C st" "l2base C st' = l2base C st" "a1 C st' = a1 C st" "a2 C st' = a2 C st"
    "table_area C st' = table_area C st" "geom C st' = geom C st" "CPU_L1_TABLE C st' = CPU_L1_TABLE C st"
    "CPU_L2_TABLE C st' = CPU_L2_TABLE C st" "l1_entry C st' = l1_entry C st"
  using assms by (auto simp: same_frame_def CPU_L1_TABLE_def CPU_L2_TABLE_def l1base_def l2base_def a1_def a2_def
      table_area_def geom_def l1_entry_def fun_eq_iff)

text \<open>The state after page \<open>pt c\<close> was entered for the \<open>g\<close>-th 4 MB on each CPU \<open>c\<close> of \<open>S\<close>.\<close>

definition entered :: "mmu_cfg \<Rightarrow> nat set \<Rightarrow> nat \<Rightarrow> (nat \<Rightarrow> u32) \<Rightarrow> mmu \<Rightarrow> mmu \<Rightarrow> bool" where
  "entered C S g pt st st' \<longleftrightarrow> same_frame st st' \<and>
     (\<forall>c < mc_num_cpu C. \<forall>j < 4096. mw st' (a1 C st c j) =
        (if c \<in> S \<and> j div 4 = g then l1v C (pt c) (j mod 4) else mw st (a1 C st c j))) \<and>
     (\<forall>c < mc_num_cpu C. \<forall>j < 1024. mw st' (a2 C st c j) =
        (if c \<in> S \<and> j = g then pdent C (pt c) else mw st (a2 C st c j))) \<and>
     (\<forall>a. 4 dvd a \<longrightarrow> a < 2 ^ 32 \<longrightarrow> a \<notin> table_area C st \<longrightarrow> mw st' a = mw st a)"

lemma enteredD:
  assumes "entered C S g pt st st'"
  shows "same_frame st st'"
    "\<And>c j. c < mc_num_cpu C \<Longrightarrow> j < 4096 \<Longrightarrow> mw st' (a1 C st c j) = (if c \<in> S \<and> j div 4 = g then l1v C (pt c) (j mod 4) else mw st (a1 C st c j))"
    "\<And>c j. c < mc_num_cpu C \<Longrightarrow> j < 1024 \<Longrightarrow> mw st' (a2 C st c j) = (if c \<in> S \<and> j = g then pdent C (pt c) else mw st (a2 C st c j))"
    "\<And>a. 4 dvd a \<Longrightarrow> a < 2 ^ 32 \<Longrightarrow> a \<notin> table_area C st \<Longrightarrow> mw st' a = mw st a"
  using assms by (simp_all add: entered_def)

lemma entered_none: "entered C {} g pt st st"
  by (simp add: entered_def)

lemma entered_insert:
  assumes 1: "entered C S g pt st st1" and 2: "entered C {c} g pt st1 st2" and "c \<notin> S"
  shows "entered C (insert c S) g pt st st2"
proof -
  note p = same_frame_places [OF enteredD(1) [OF 1]]
  show ?thesis
    unfolding entered_def
    using same_frame_trans [OF enteredD(1) [OF 1] enteredD(1) [OF 2]] enteredD(2-4) [OF 1] enteredD(2-4) [OF 2, unfolded p] assms(3)
    by auto
qed

lemma group_index:
  "drop_bit 20 va AND NOT 3 = of_nat (4 * (unat va div 2 ^ 22))" "drop_bit 22 va = of_nat (unat va div 2 ^ 22)"
  for va :: u32
proof -
  have "unat va div 2 ^ 20 div 4 = unat va div 2 ^ 22" by (simp add: div_mult2_eq [symmetric])
  moreover have "unat va div 2 ^ 22 < 1024" using unat_u32_bound [of va] by (simp add: less_mult_imp_div_less)
  ultimately show "drop_bit 20 va AND NOT 3 = of_nat (4 * (unat va div 2 ^ 22))" "drop_bit 22 va = of_nat (unat va div 2 ^ 22)"
    by (simp_all add: word_unat_eq_iff masks(1) unat_and_not_mask unat_drop_bit unat_of_nat_small del: of_nat_mult)
qed

lemma map_ptbl_cpu_entered:
  assumes cfg: "cfg_ok C" and geo: "geom C st" and c: "c < mc_num_cpu C" and g: "g = unat va div 2 ^ 22"
  shows "entered C {c} g pt st (map_ptbl_cpu C c (pt c) va st)"
proof -
  note K = abi_okD [OF cfg]
  have g1: "g < 1024" using unat_u32_bound [of va] g by (simp add: less_mult_imp_div_less)
  define base pte where "base = l1_entry C st c (of_nat (4 * g))" "pte = CPU_L2_TABLE C st c + 4 * of_nat g"
  note bp = this
  let ?st0 = "wr pte (pdent C (pt c)) st" and ?st' = "map_ptbl_cpu C c (pt c) va st"
  have st': "?st' = fold (\<lambda>i. wr (base + 4 * of_nat i) (l1v C (pt c) i)) [0..<4] ?st0"
    by (simp only: map_ptbl_cpu_def Let_def group_index g [symmetric] pdent_def [symmetric] K l1v_def bp)
  have b: "unat base = a1 C st c (4 * g)" unfolding bp by (rule l1_entry_unat [OF geo c]) (use g1 in simp)
  have e: "unat pte = a2 C st c g" unfolding bp by (rule l2_entry_unat [OF geo c g1])
  obtain k where "a1 C st c (4 * g + 3) = 4 * k" "4 * k < 2 ^ 32"
    using a1_props(1,2) [OF geo c, of "4 * g + 3"] g1 by (auto elim!: dvdE)
  then have last: "a1 C st c (4 * g) + 4 * 4 \<le> 2 ^ 32" by (simp add: a1_def)
  have w: "mw ?st' a = (if a1 C st c (4 * g) \<le> a \<and> a < a1 C st c (4 * g) + 16 then l1v C (pt c) ((a - a1 C st c (4 * g)) div 4)
      else if a = a2 C st c g then pdent C (pt c) else mw st a)" if "4 dvd a" "a < 2 ^ 32" for a
  proof -
    have A: "4 dvd unat base" and B: "4 dvd unat pte" using a1_props(1) [OF geo c] a2_props(1) [OF geo c g1] b e g1 by simp_all
    have L: "unat base + 4 * 4 \<le> 2 ^ 32" using last b by simp
    show ?thesis unfolding st' mw_array [OF A L that] mw_wr [OF B that] b e by simp
  qed
  have fr: "same_frame st ?st'" by (simp add: st' same_frame_def)
  have row: "a1 C st c (4 * g) \<le> a1 C st d j \<and> a1 C st d j < a1 C st c (4 * g) + 16 \<longleftrightarrow> d = c \<and> j div 4 = g" if "j < 4096" for d j
  proof
    assume "a1 C st c (4 * g) \<le> a1 C st d j \<and> a1 C st d j < a1 C st c (4 * g) + 16"
    then have "c * 16384 + 16 * g \<le> d * 16384 + 4 * j" "d * 16384 + 4 * j < c * 16384 + 16 * g + 16" by (simp_all add: a1_def)
    moreover from this obtain x where x: "d * 16384 + 4 * j = c * 16384 + (16 * g + x)" "x < 16"
      by (metis add.assoc le_Suc_ex nat_add_left_cancel_less)
    have "4 * j < 16384" "16 * g + x < 16384" using that x(2) g1 by simp_all
    with x(1) have "d = c \<and> 4 * j = 16 * g + x" by (rule block_unique)
    then show "d = c \<and> j div 4 = g" using x(2) by auto
  next
    assume "d = c \<and> j div 4 = g"
    then show "a1 C st c (4 * g) \<le> a1 C st d j \<and> a1 C st d j < a1 C st c (4 * g) + 16" by (auto simp: a1_def)
  qed
  show ?thesis
    unfolding entered_def
  proof (intro conjI allI impI fr)
    fix d j assume d: "d < mc_num_cpu C" and j: "j < (4096::nat)"
    have "(a1 C st c j - a1 C st c (4 * g)) div 4 = j mod 4" if "j div 4 = g"
    proof -
      have "j = 4 * g + j mod 4" using that div_mult_mod_eq [of j 4] by simp
      then have "a1 C st c j = a1 C st c (4 * g) + 4 * (j mod 4)" unfolding a1_def by linarith
      then show ?thesis by simp
    qed
    then show "mw ?st' (a1 C st d j) = (if d \<in> {c} \<and> j div 4 = g then l1v C (pt d) (j mod 4) else mw st (a1 C st d j))"
      using w [OF a1_props(1,2) [OF geo d j]] row [OF j, of d] a1_a2 [OF geo d j c g1] by auto
  next
    fix d j assume d: "d < mc_num_cpu C" and j: "j < (1024::nat)"
    have "\<not> (a1 C st c (4 * g) \<le> a2 C st d j \<and> a2 C st d j < a1 C st c (4 * g) + 16)"
    proof
      assume *: "a1 C st c (4 * g) \<le> a2 C st d j \<and> a2 C st d j < a1 C st c (4 * g) + 16"
      obtain x y where xy: "a2 C st d j = 4 * x" "a1 C st c (4 * g) = 4 * y"
        using a1_props(1) [OF geo c, of "4 * g"] a2_props(1) [OF geo d j] g1 by (auto elim!: dvdE)
      define i where "i = x - y"
      have "a2 C st d j = a1 C st c (4 * g) + 4 * i" "i < 4" using xy * by (auto simp: i_def)
      then have "a2 C st d j = a1 C st c (4 * g + i)" "4 * g + i < 4096" using g1 by (simp_all add: a1_def)
      then show False using a1_a2 [OF geo c _ d j] by metis
    qed
    then show "mw ?st' (a2 C st d j) = (if d \<in> {c} \<and> j = g then pdent C (pt d) else mw st (a2 C st d j))"
      using w [OF a2_props(1,2) [OF geo d j]] a2_inj [of C st d j c g] j g1 by auto
  next
    fix a assume a: "4 dvd a" "a < (2 ^ 32 :: nat)" "a \<notin> table_area C st"
    have "a \<noteq> a2 C st c g" using a2_props(3) [OF geo c g1] a(3) by auto
    moreover have "\<not> (a1 C st c (4 * g) \<le> a \<and> a < a1 C st c (4 * g) + 16)"
    proof
      assume "a1 C st c (4 * g) \<le> a \<and> a < a1 C st c (4 * g) + 16"
      moreover have "c * 16384 + (16 * g + 15) < mc_num_cpu C * 16384" by (rule block_less) (use c g1 in simp_all)
      ultimately have "a \<in> table_area C st" by (auto simp: table_area_def a1_def)
      then show False using a(3) by simp
    qed
    ultimately show "mw ?st' a = mw st a" unfolding w [OF a(1,2)] by auto
  qed
qed

lemma map_ptbl_entered:
  assumes "cfg_ok C" and "geom C st" and "g = unat va div 2 ^ 22" and "k \<le> mc_num_cpu C"
  shows "entered C {0..<k} g (\<lambda>_. pt) st (fold (\<lambda>cpu. map_ptbl_cpu C cpu pt va) [0..<k] st)"
  using assms(4)
proof (induction k)
  case (Suc k)
  let ?st1 = "fold (\<lambda>cpu. map_ptbl_cpu C cpu pt va) [0..<k] st"
  have 1: "entered C {0..<k} g (\<lambda>_. pt) st ?st1" using Suc by simp
  have "entered C {k} g (\<lambda>_. pt) ?st1 (map_ptbl_cpu C k pt va ?st1)"
    using map_ptbl_cpu_entered [OF assms(1) _ _ assms(3), of ?st1 k "\<lambda>_. pt"] assms(2) same_frame_places(6) [OF enteredD(1) [OF 1]] Suc.prems
    by simp
  then have "entered C (insert k {0..<k}) g (\<lambda>_. pt) st (map_ptbl_cpu C k pt va ?st1)" by (rule entered_insert [OF 1]) simp
  then show ?case by (simp add: atLeast0_lessThan_Suc)
qed (simp add: entered_none)

end
