(* ===== verification/ArmMmuMap.thy ===== *)
theory ArmMmuMap
  imports ArmMmuInv
begin

section \<open>The ARM page tables: mapping pages\<close>

text \<open>
  The walk of the MMU (\<open>translate\<close>), the invariant \<open>mmu_inv\<close>, and the two steps of mapping:
  entering a new second-level table and filling entries of one that is there.
\<close>

subsection \<open>Translation\<close>

text \<open>
  What the MMU finds for a page: the second-level entry of a small page, the first-level entry of a
  section, or a fault. The walk is the one of the ARM short-descriptor format: a first-level entry
  for each MB, whose two low bits tell a page table (1) from a section (2).
\<close>

datatype mapping = Fault | Section u32 | Page u32

definition pte_kind :: "u32 \<Rightarrow> mapping" where
  "pte_kind w = (if w AND 3 = 0 then Fault else Page w)"

definition translate :: "mmu_cfg \<Rightarrow> mmu \<Rightarrow> nat \<Rightarrow> nat \<Rightarrow> mapping" where
  "translate C st cpu p =
     (let e = rd st (l1_entry C st cpu (of_nat (p div 256)))
      in if e AND 3 = 2 then Section e
         else if e AND 3 = 1 then pte_kind (rd st ((e AND NOT 1023) + 4 * of_nat (p mod 256)))
         else Fault)"

subsection \<open>The invariant\<close>

text \<open>
  \<open>tab c g\<close> is the page that holds the tables of the \<open>g\<close>-th 4 MB on CPU \<open>c\<close>. Its four
  first-level entries and its entry in the page directory are in place; the page directory is the
  page of tables of the 4 MB at \<open>ARM_PTP_BASE\<close>; pages of different 4 MB differ; and no table is in
  the free RAM.
\<close>

type_synonym tables = "nat \<Rightarrow> nat \<Rightarrow> nat option"

definition pd_group :: "mmu_cfg \<Rightarrow> nat" where
  "pd_group C = unat (ARM_PTP_BASE (mc_abi C)) div 2 ^ 22"

definition group_ok :: "mmu_cfg \<Rightarrow> tables \<Rightarrow> mmu \<Rightarrow> nat \<Rightarrow> nat \<Rightarrow> bool" where
  "group_ok C tab st c g = (case tab c g of
      None \<Rightarrow> \<forall>i < 4. mw st (a1 C st c (4 * g + i)) AND 3 \<noteq> 1
    | Some t \<Rightarrow> 4096 dvd t \<and> t < 2 ^ 32 \<and> (\<forall>i < 4. mw st (a1 C st c (4 * g + i)) = l1v C (of_nat t) i) \<and>
        mw st (a2 C st c g) = pdent C (of_nat t))"

definition mmu_inv :: "mmu_cfg \<Rightarrow> tables \<Rightarrow> mmu \<Rightarrow> bool" where
  "mmu_inv C tab st \<longleftrightarrow> geom C st \<and>
     (\<forall>c < mc_num_cpu C. \<forall>g < 1024. group_ok C tab st c g) \<and>
     (\<forall>c < mc_num_cpu C. tab c (pd_group C) = Some (l2base C st + c * 4096)) \<and>
     (\<forall>c < mc_num_cpu C. \<forall>g < 1024. \<forall>t. g \<noteq> pd_group C \<longrightarrow> tab c g = Some t \<longrightarrow> page_set t \<inter> table_area C st = {}) \<and>
     (\<forall>c < mc_num_cpu C. \<forall>d < mc_num_cpu C. \<forall>g < 1024. \<forall>h < 1024. \<forall>t. tab c g = Some t \<longrightarrow> tab d h = Some t \<longrightarrow> g = h) \<and>
     covered (ram_list (mm_ram st)) \<inter> table_area C st = {} \<and>
     (\<forall>c < mc_num_cpu C. \<forall>g < 1024. \<forall>t. tab c g = Some t \<longrightarrow> covered (ram_list (mm_ram st)) \<inter> page_set t = {})"

lemma pd_group_less: "pd_group C < 1024"
  using unat_u32_bound by (simp add: pd_group_def less_mult_imp_div_less)

lemma invD:
  assumes "mmu_inv C tab st"
  shows "geom C st"
    "\<And>c g. c < mc_num_cpu C \<Longrightarrow> g < 1024 \<Longrightarrow> group_ok C tab st c g"
    "\<And>c. c < mc_num_cpu C \<Longrightarrow> tab c (pd_group C) = Some (l2base C st + c * 4096)"
    "\<And>c g t. c < mc_num_cpu C \<Longrightarrow> g < 1024 \<Longrightarrow> g \<noteq> pd_group C \<Longrightarrow> tab c g = Some t \<Longrightarrow> page_set t \<inter> table_area C st = {}"
    "\<And>c d g h t. c < mc_num_cpu C \<Longrightarrow> d < mc_num_cpu C \<Longrightarrow> g < 1024 \<Longrightarrow> h < 1024 \<Longrightarrow> tab c g = Some t \<Longrightarrow> tab d h = Some t \<Longrightarrow> g = h"
    "covered (ram_list (mm_ram st)) \<inter> table_area C st = {}"
    "\<And>c g t. c < mc_num_cpu C \<Longrightarrow> g < 1024 \<Longrightarrow> tab c g = Some t \<Longrightarrow> covered (ram_list (mm_ram st)) \<inter> page_set t = {}"
proof -
  note d = assms [unfolded mmu_inv_def]
  show "geom C st" by (rule d [THEN conjunct1])
  note d = d [THEN conjunct2]
  show "group_ok C tab st c g" if "c < mc_num_cpu C" "g < 1024" for c g by (rule d [THEN conjunct1, rule_format, OF that])
  note d = d [THEN conjunct2]
  show "tab c (pd_group C) = Some (l2base C st + c * 4096)" if "c < mc_num_cpu C" for c
    by (rule d [THEN conjunct1, rule_format, OF that])
  note d = d [THEN conjunct2]
  show "page_set t \<inter> table_area C st = {}" if "c < mc_num_cpu C" "g < 1024" "g \<noteq> pd_group C" "tab c g = Some t" for c g t
    by (rule d [THEN conjunct1, rule_format, OF that])
  note d = d [THEN conjunct2]
  show "g = h" if "c < mc_num_cpu C" "d < mc_num_cpu C" "g < 1024" "h < 1024" "tab c g = Some t" "tab d h = Some t" for c d g h t
    by (rule d [THEN conjunct1, rule_format, OF that])
  note d = d [THEN conjunct2]
  show "covered (ram_list (mm_ram st)) \<inter> table_area C st = {}" by (rule d [THEN conjunct1])
  show "covered (ram_list (mm_ram st)) \<inter> page_set t = {}" if "c < mc_num_cpu C" "g < 1024" "tab c g = Some t" for c g t
    by (rule d [THEN conjunct2, rule_format, OF that])
qed

lemma inv_table:
  assumes "mmu_inv C tab st" and "c < mc_num_cpu C" and "g < 1024" and "tab c g = Some t"
  shows "4096 dvd t" "t < 2 ^ 32" "\<And>i. i < 4 \<Longrightarrow> mw st (a1 C st c (4 * g + i)) = l1v C (of_nat t) i"
    "mw st (a2 C st c g) = pdent C (of_nat t)" "t + 4096 \<le> 2 ^ 32"
proof -
  show *: "4096 dvd t" "t < 2 ^ 32" "mw st (a2 C st c g) = pdent C (of_nat t)"
    using invD(2) [OF assms(1-3)] assms(4) by (simp_all add: group_ok_def)
  show "mw st (a1 C st c (4 * g + i)) = l1v C (of_nat t) i" if "i < 4" for i
    using invD(2) [OF assms(1-3)] assms(4) that by (simp add: group_ok_def)
  from *(1) obtain k where k: "t = 4096 * k" ..
  with *(2) show "t + 4096 \<le> 2 ^ 32" by simp
qed

subsection \<open>Entries of the first-level table\<close>

lemma l1v_bits:
  assumes "cfg_ok C" and "4096 dvd t" and "t < 2 ^ 32" and "i < 4"
  shows "l1v C (of_nat t) i AND 3 = 1" "unat (l1v C (of_nat t) i AND NOT 1023) = t + 1024 * i"
    "i = 0 \<Longrightarrow> unat (l1v C (of_nat t) i AND NOT 4095) = t"
proof -
  let ?p = "ucast (l1_pgtable (mc_pte C)) :: u32"
  have p: "?p AND NOT (mask 10) = 0" "l1_pgtable (mc_pte C) AND 3 = 1" using assms(1) by (simp_all add: cfg_ok_def pte_ok_def)
  from assms(2) obtain k where k: "t = 4096 * k" ..
  have lt: "t + 1024 * i < 2 ^ 32" using assms(3,4) k by simp
  have x: "(of_nat t + of_nat i * 1024 :: u32) = of_nat (t + 1024 * i)" by simp
  have u: "unat (of_nat (t + 1024 * i) :: u32) = t + 1024 * i" by (rule unat_of_nat_small) (use lt in simp)
  have "2 ^ 10 dvd t + 1024 * i" unfolding k by (intro dvd_add) auto
  then have "2 ^ 10 dvd unat (of_nat (t + 1024 * i) :: u32)" unfolding u .
  then have m: "(of_nat (t + 1024 * i) :: u32) AND mask 10 = 0" by (simp only: and_mask_dvd)
  note o = or_low [OF m p(1)]
  show "unat (l1v C (of_nat t) i AND NOT 1023) = t + 1024 * i"
    unfolding l1v_def x masks o u ..
  have "?p AND 3 = 1"
  proof -
    have m: "(3 :: u16) = mask 2" by (simp add: mask_eq_exp_minus_1)
    have "?p AND 3 = ucast (l1_pgtable (mc_pte C) AND 3)" unfolding m masks by (rule bit_word_eqI) (auto simp: bit_simps)
    then show ?thesis using p(2) by simp
  qed
  moreover have "(of_nat (t + 1024 * i) OR ?p) AND 3 = ((of_nat (t + 1024 * i) OR ?p) AND mask 10) AND 3"
    by (rule bit_word_eqI) (auto simp: bit_simps masks)
  ultimately show "l1v C (of_nat t) i AND 3 = 1" unfolding l1v_def x o by simp
  assume i: "i = 0"
  have z: "2 ^ 12 dvd unat (of_nat t :: u32)" using assms(2) unat_of_nat_small [of t, where 'a = 32] assms(3) by simp
  have "?p AND NOT (mask 12) = 0"
  proof -
    have "?p AND NOT (mask 12) = (?p AND NOT (mask 10)) AND NOT (mask 12)" by (rule bit_word_eqI) (auto simp: bit_simps)
    then show ?thesis using p(1) by simp
  qed
  from or_low(1) [OF z [folded and_mask_dvd] this] show "unat (l1v C (of_nat t) i AND NOT 4095) = t"
    using i assms(3) by (simp add: l1v_def masks unat_of_nat_small)
qed

lemma page_split: "p div 256 = 4 * (p div 1024) + (p div 256) mod 4" "(p div 256) mod 4 < 4"
  "1024 * ((p div 256) mod 4) + 4 * (p mod 256) = 4 * (p mod 1024)" for p :: nat
proof -
  have a: "p div 256 div 4 = p div 1024" by (simp add: div_mult2_eq [symmetric])
  then show "p div 256 = 4 * (p div 1024) + (p div 256) mod 4" using div_mult_mod_eq [of "p div 256" 4] by simp
  have "p mod 1024 = 256 * (p div 256 mod 4) + p mod 256"
    using mod_mult2_eq [of p 256 4] by simp
  then show "1024 * ((p div 256) mod 4) + 4 * (p mod 256) = 4 * (p mod 1024)" by simp
qed simp

lemma translate_mw:
  assumes "geom C st" and "c < mc_num_cpu C" and "p < 2 ^ 20"
  shows "translate C st c p =
    (let e = mw st (a1 C st c (p div 256))
     in if e AND 3 = 2 then Section e
        else if e AND 3 = 1 then pte_kind (rd st ((e AND NOT 1023) + 4 * of_nat (p mod 256))) else Fault)"
proof -
  have "p div 256 < 4096" using assms(3) by (simp add: less_mult_imp_div_less)
  then have "of_nat (a1 C st c (p div 256)) = l1_entry C st c (of_nat (p div 256))"
    using l1_entry_unat [OF assms(1,2)] by (metis unat_of_nat_self)
  then show ?thesis by (simp add: translate_def mw_def)
qed

lemma translate_table:
  assumes cfg: "cfg_ok C" and inv: "mmu_inv C tab st" and c: "c < mc_num_cpu C" and p: "p < 2 ^ 20"
    and t: "tab c (p div 1024) = Some t"
  shows "translate C st c p = pte_kind (mw st (t + 4 * (p mod 1024)))"
proof -
  let ?i = "(p div 256) mod 4"
  have g: "p div 1024 < 1024" using p by (simp add: less_mult_imp_div_less)
  note T = inv_table [OF inv c g t]
  note b = l1v_bits [OF cfg T(1,2) page_split(2)]
  have e: "mw st (a1 C st c (p div 256)) = l1v C (of_nat t) ?i"
    using T(3) [OF page_split(2) [of p]] page_split(1) [of p] by simp
  have "unat ((l1v C (of_nat t) ?i AND NOT 1023) + 4 * of_nat (p mod 256)) = t + 4 * (p mod 1024)"
  proof -
    have "unat (4 * of_nat (p mod 256) :: u32) = 4 * (p mod 256)"
      using unat_of_nat_small [of "4 * (p mod 256)", where 'a = 32] by simp
    moreover have "t + 1024 * ?i + 4 * (p mod 256) = t + 4 * (p mod 1024)" using page_split(3) [of p] by simp
    moreover have "p mod 1024 < 1024" by simp
    then have "t + 4 * (p mod 1024) < 2 ^ 32" using T(5) by linarith
    ultimately show ?thesis using b(2) by (simp add: unat_word_ariths)
  qed
  then have "(l1v C (of_nat t) ?i AND NOT 1023) + 4 * of_nat (p mod 256) = of_nat (t + 4 * (p mod 1024))"
    by (metis unat_of_nat_self)
  then show ?thesis
    using translate_mw [OF invD(1) [OF inv] c p] e b(1) by (simp add: mw_def)
qed

lemma translate_no_table:
  assumes inv: "mmu_inv C tab st" and c: "c < mc_num_cpu C" and p: "p < 2 ^ 20" and t: "tab c (p div 1024) = None"
  shows "translate C st c p = (let e = mw st (a1 C st c (p div 256)) in if e AND 3 = 2 then Section e else Fault)"
proof -
  have g: "p div 1024 < 1024" using p by (simp add: less_mult_imp_div_less)
  have "mw st (a1 C st c (4 * (p div 1024) + p div 256 mod 4)) AND 3 \<noteq> 1"
    using invD(2) [OF inv c g] t page_split(2) [of p] by (simp add: group_ok_def)
  then have "mw st (a1 C st c (p div 256)) AND 3 \<noteq> 1" using page_split(1) [of p] by simp
  then show ?thesis using translate_mw [OF invD(1) [OF inv] c p] by (simp add: Let_def)
qed

subsection \<open>Filling a table\<close>

lemma inv_same_tables:
  assumes inv: "mmu_inv C tab st" and fr: "same_frame st st'"
    and same: "\<And>a. a \<in> table_area C st \<Longrightarrow> 4 dvd a \<Longrightarrow> a < 2 ^ 32 \<Longrightarrow> mw st' a = mw st a"
  shows "mmu_inv C tab st'"
proof -
  note P = same_frame_places [OF fr, of C]
  have rl: "ram_list (mm_ram st') = ram_list (mm_ram st)" using fr by (simp add: same_frame_def)
  have g: "group_ok C tab st' c g" if "c < mc_num_cpu C" "g < 1024" for c g
  proof -
    have "mw st' (a1 C st c (4 * g + i)) = mw st (a1 C st c (4 * g + i))" if "i < 4" for i
      using a1_props [OF invD(1) [OF inv] \<open>c < mc_num_cpu C\<close>, of "4 * g + i"] \<open>g < 1024\<close> that by (simp add: same)
    moreover have "mw st' (a2 C st c g) = mw st (a2 C st c g)"
      using a2_props [OF invD(1) [OF inv] that] by (simp add: same)
    ultimately show ?thesis using invD(2) [OF inv that] by (auto simp: group_ok_def P split: option.splits)
  qed
  show ?thesis
    using inv g unfolding mmu_inv_def P rl by auto
qed

lemma translate_cong:
  assumes cfg: "cfg_ok C" and inv: "mmu_inv C tab st" and inv': "mmu_inv C tab' st'" and c: "c < mc_num_cpu C" and p: "p < 2 ^ 20"
    and t: "tab' c (p div 1024) = tab c (p div 1024)"
    and e: "tab c (p div 1024) = None \<Longrightarrow> mw st' (a1 C st' c (p div 256)) = mw st (a1 C st c (p div 256))"
    and w: "\<And>t. tab c (p div 1024) = Some t \<Longrightarrow> mw st' (t + 4 * (p mod 1024)) = mw st (t + 4 * (p mod 1024))"
  shows "translate C st' c p = translate C st c p"
proof (cases "tab c (p div 1024)")
  case None
  then show ?thesis using translate_no_table [OF inv c p] translate_no_table [OF inv' c p] t e by simp
next
  case (Some x)
  then show ?thesis using translate_table [OF cfg inv c p] translate_table [OF cfg inv' c p] t w by simp
qed

lemma table_entry:
  assumes "4096 dvd t" and "t + 4096 \<le> 2 ^ 32" and "i < 1024"
  shows "4 dvd t + 4 * i" "t + 4 * i < 2 ^ 32" "t + 4 * i \<in> page_set t"
  using assms dvd4 [OF assms(1)] by (auto simp: page_set_def)

lemma fill_spec:
  assumes cfg: "cfg_ok C" and inv: "mmu_inv C tab st" and c0: "c0 < mc_num_cpu C" and g0: "g0 < 1024" "g0 \<noteq> pd_group C"
    and t: "tab c0 g0 = Some t" and ik: "i + k \<le> 1024" "0 < k"
    and st': "st' = fold (\<lambda>j. wr (of_nat t + 4 * of_nat i + 4 * of_nat j) (v j)) [0..<k] st"
  shows "mmu_inv C tab st'" "same_frame st st'"
    "\<And>c p. c < mc_num_cpu C \<Longrightarrow> p < 2 ^ 20 \<Longrightarrow> translate C st' c p =
      (if tab c (p div 1024) = Some t \<and> i \<le> p mod 1024 \<and> p mod 1024 < i + k then pte_kind (v (p mod 1024 - i)) else translate C st c p)"
    "\<And>a. a \<in> table_area C st \<Longrightarrow> 4 dvd a \<Longrightarrow> a < 2 ^ 32 \<Longrightarrow> mw st' a = mw st a"
proof -
  note T = inv_table [OF inv c0 g0(1) t]
  let ?base = "of_nat t + 4 * of_nat i :: u32"
  have b: "unat ?base = t + 4 * i"
  proof -
    have "?base = of_nat (t + 4 * i)" by simp
    moreover have "unat (of_nat (t + 4 * i) :: u32) = t + 4 * i"
      by (rule unat_of_nat_small) (use T(5) ik in simp)
    ultimately show ?thesis by simp
  qed
  have w: "mw st' a = (if t + 4 * i \<le> a \<and> a < t + 4 * i + 4 * k then v ((a - (t + 4 * i)) div 4) else mw st a)"
    if "4 dvd a" "a < 2 ^ 32" for a
  proof -
    have "4 dvd unat ?base" "unat ?base + 4 * k \<le> 2 ^ 32" using b T(5) ik dvd4 [OF T(1)] by simp_all
    from mw_array [OF this that, of v st] show ?thesis unfolding st' b by simp
  qed
  have out: "mw st' a = mw st a" if "4 dvd a" "a < 2 ^ 32" "a \<notin> page_set t" for a
    using w [OF that(1,2)] that(3) ik by (auto simp: page_set_def)
  show fr: "same_frame st st'" by (simp add: st' same_frame_def)
  show area: "mw st' a = mw st a" if "a \<in> table_area C st" "4 dvd a" "a < 2 ^ 32" for a
    using out [OF that(2,3)] invD(4) [OF inv c0 g0 t] that(1) by blast
  show inv': "mmu_inv C tab st'" by (rule inv_same_tables [OF inv fr area])
  fix c p assume c: "c < mc_num_cpu C" and p: "p < (2::nat) ^ 20"
  have g: "p div 1024 < 1024" using p by (simp add: less_mult_imp_div_less)
  have m: "p mod 1024 < 1024" by simp
  show "translate C st' c p =
      (if tab c (p div 1024) = Some t \<and> i \<le> p mod 1024 \<and> p mod 1024 < i + k then pte_kind (v (p mod 1024 - i)) else translate C st c p)"
  proof (cases "tab c (p div 1024) = Some t \<and> i \<le> p mod 1024 \<and> p mod 1024 < i + k")
    case True
    have "(t + 4 * (p mod 1024) - (t + 4 * i)) div 4 = p mod 1024 - i" by (simp add: diff_mult_distrib2 [symmetric])
    then show ?thesis
      using translate_table [OF cfg inv' c p] True w [OF table_entry(1,2) [OF T(1,5) m]] by simp
  next
    case False
    have "translate C st' c p = translate C st c p"
    proof (rule translate_cong [OF cfg inv inv' c p refl])
      assume "tab c (p div 1024) = None"
      have "p div 256 < 4096" using p by (simp add: less_mult_imp_div_less)
      from a1_props [OF invD(1) [OF inv] c this] show "mw st' (a1 C st' c (p div 256)) = mw st (a1 C st c (p div 256))"
        unfolding same_frame_places [OF fr] by (intro area)
    next
      fix t' assume t': "tab c (p div 1024) = Some t'"
      note T' = inv_table [OF inv c g t']
      show "mw st' (t' + 4 * (p mod 1024)) = mw st (t' + 4 * (p mod 1024))"
      proof (cases "t' = t")
        case True
        then show ?thesis using w [OF table_entry(1,2) [OF T(1,5) m]] False t' by auto
      next
        case False
        then have "t' + 4 * (p mod 1024) \<notin> page_set t"
          using page_set_disjoint [OF T'(1) T(1)] table_entry(3) [OF T'(1,5) m] by blast
        then show ?thesis by (rule out [OF table_entry(1,2) [OF T'(1,5) m]])
      qed
    qed
    then show ?thesis unfolding if_not_P [OF False] .
  qed
qed

subsection \<open>A new page of tables\<close>

definition blank_group :: "mmu_cfg \<Rightarrow> mmu \<Rightarrow> nat \<Rightarrow> bool" where
  "blank_group C st g \<longleftrightarrow> (\<forall>c < mc_num_cpu C. \<forall>i < 4. mw st (a1 C st c (4 * g + i)) AND 3 = 0)"

lemma page_block:
  assumes "4096 dvd unat a"
  shows "4 dvd unat a" "4 dvd unat (4096 :: u32)" "unat a + unat (4096 :: u32) \<le> 2 ^ 32" "ram_block a 4096 = page_set (unat a)"
proof -
  obtain k where "unat a = 4096 * k" using assms ..
  then show "4 dvd unat a" "4 dvd unat (4096 :: u32)" "unat a + unat (4096 :: u32) \<le> 2 ^ 32" "ram_block a 4096 = page_set (unat a)"
    using unat_u32_bound [of a] by (simp_all add: ram_block_def page_set_def)
qed

text \<open>The page the allocator returns, before it is entered.\<close>

lemma calloc_table:
  assumes inv: "mmu_inv C tab st" and ram: "ram_good (Suc k) A (mm_ram st)"
  obtains a ram' where "calloc_ram A 4096 4096 (mm_ram st) = Inr (a, ram')" "a \<noteq> NULL_PADDR" "4096 dvd unat a"
    "page_set (unat a) \<inter> table_area C st = {}" "\<And>c g. c < mc_num_cpu C \<Longrightarrow> g < 1024 \<Longrightarrow> tab c g \<noteq> Some (unat a)"
    "ram_good k A ram'" "rs_lsp ram' = rs_lsp (mm_ram st)" "covered (ram_list ram') \<subseteq> covered (ram_list (mm_ram st))"
    "covered (ram_list ram') \<inter> page_set (unat a) = {}"
    "\<And>x. 4 dvd x \<Longrightarrow> x < 2 ^ 32 \<Longrightarrow> mw (st\<lparr>mm_ram := ram'\<rparr>) x = (if x \<in> page_set (unat a) then 0 else mw st x)"
proof -
  obtain a ram' where c: "calloc_ram A 4096 4096 (mm_ram st) = Inr (a, ram')" "a \<noteq> NULL_PADDR" "4096 dvd unat a"
    "page_set (unat a) \<subseteq> covered (ram_list (mm_ram st))"
    "covered (ram_list ram') = covered (ram_list (mm_ram st)) - page_set (unat a)"
    "ram_good k A ram'" "\<And>p. p - a < 4096 \<Longrightarrow> rs_mem ram' p = 0"
    "\<And>p. \<not> p - a < 4096 \<Longrightarrow> rs_mem ram' p = rs_mem (mm_ram st) p" "rs_lsp ram' = rs_lsp (mm_ram st)"
    by (rule calloc_page [OF ram]) blast
  show ?thesis
  proof (rule that [OF c(1-3) _ _ c(6,9)])
    show "page_set (unat a) \<inter> table_area C st = {}" using c(4) invD(6) [OF inv] by blast
    show "tab c g \<noteq> Some (unat a)" if "c < mc_num_cpu C" "g < 1024" for c g
    proof
      assume "tab c g = Some (unat a)"
      then have "covered (ram_list (mm_ram st)) \<inter> page_set (unat a) = {}" by (rule invD(7) [OF inv that])
      then have "page_set (unat a) = {}" using c(4) by blast
      then show False by (simp add: page_set_def)
    qed
    show "covered (ram_list ram') \<subseteq> covered (ram_list (mm_ram st))" "covered (ram_list ram') \<inter> page_set (unat a) = {}"
      using c(5) by auto
    fix x assume x: "4 dvd x" "x < (2 :: nat) ^ 32"
    show "mw (st\<lparr>mm_ram := ram'\<rparr>) x = (if x \<in> page_set (unat a) then 0 else mw st x)"
    proof (cases "x \<in> page_set (unat a)")
      case True
      note B = page_block [OF c(3)]
      from True zero_block [OF c(7) B(1-3) x] B(4) have "word_at (rs_mem ram') (of_nat x) = 0" by simp
      with True show ?thesis by (simp add: mw_def rd_def)
    next
      case False
      note B = page_block [OF c(3)]
      from False same_block [OF c(8) B(1-3) x] B(4) have "word_at (rs_mem ram') (of_nat x) = word_at (rs_mem (mm_ram st)) (of_nat x)" by simp
      with False show ?thesis by (simp add: mw_def rd_def)
    qed
  qed
qed

definition add_table :: "tables \<Rightarrow> nat \<Rightarrow> nat \<Rightarrow> tables" where
  "add_table tab g t = (\<lambda>c h. if h = g then Some t else tab c h)"

lemma same_places:
  assumes "L1_paddr st' = L1_paddr st" "L2_paddr st' = L2_paddr st"
  shows "l1base C st' = l1base C st" "l2base C st' = l2base C st" "a1 C st' = a1 C st" "a2 C st' = a2 C st"
    "table_area C st' = table_area C st" "geom C st' = geom C st" "l1_entry C st' = l1_entry C st"
  using assms by (auto simp: CPU_L1_TABLE_def CPU_L2_TABLE_def l1base_def l2base_def a1_def a2_def
      table_area_def geom_def l1_entry_def fun_eq_iff)

lemma group_entry: "j div 4 = g \<Longrightarrow> j = 4 * g + j mod 4" for j g :: nat
  using div_mult_mod_eq [of j 4] by simp

lemma new_table:
  assumes cfg: "cfg_ok C" and inv: "mmu_inv C tab st" and g: "g < 1024" "g \<noteq> pd_group C"
    and none: "\<And>c. c < mc_num_cpu C \<Longrightarrow> tab c g = None" and blank: "blank_group C st g"
    and ram: "ram_good (Suc k) (mc_as C) (mm_ram st)" and va: "unat va div 2 ^ 22 = g"
  obtains t ram' where "calloc_ram (mc_as C) 4096 4096 (mm_ram st) = Inr (t, ram')" "t \<noteq> NULL_PADDR"
    "let st' = map_ptbl C t va (st\<lparr>mm_ram := ram'\<rparr>)
     in mmu_inv C (add_table tab g (unat t)) st' \<and> ram_good k (mc_as C) (mm_ram st') \<and>
        L1_paddr st' = L1_paddr st \<and> L2_paddr st' = L2_paddr st \<and> next_addr st' = next_addr st \<and> rs_lsp (mm_ram st') = rs_lsp (mm_ram st) \<and>
        (\<forall>c < mc_num_cpu C. \<forall>j < 4096. j div 4 \<noteq> g \<longrightarrow> mw st' (a1 C st c j) = mw st (a1 C st c j)) \<and>
        (\<forall>c < mc_num_cpu C. \<forall>p < 2 ^ 20. p \<noteq> 1024 * pd_group C + g \<longrightarrow> translate C st' c p = translate C st c p)"
proof -
  obtain t ram' where c: "calloc_ram (mc_as C) 4096 4096 (mm_ram st) = Inr (t, ram')" "t \<noteq> NULL_PADDR" "4096 dvd unat t"
    "page_set (unat t) \<inter> table_area C st = {}" "\<And>c g. c < mc_num_cpu C \<Longrightarrow> g < 1024 \<Longrightarrow> tab c g \<noteq> Some (unat t)"
    "ram_good k (mc_as C) ram'" "rs_lsp ram' = rs_lsp (mm_ram st)" "covered (ram_list ram') \<subseteq> covered (ram_list (mm_ram st))"
    "covered (ram_list ram') \<inter> page_set (unat t) = {}"
    "\<And>x. 4 dvd x \<Longrightarrow> x < 2 ^ 32 \<Longrightarrow> mw (st\<lparr>mm_ram := ram'\<rparr>) x = (if x \<in> page_set (unat t) then 0 else mw st x)"
    by (rule calloc_table [OF inv ram]) blast
  define st1 where "st1 = st\<lparr>mm_ram := ram'\<rparr>"
  define st' where "st' = map_ptbl C t va st1"
  let ?tab = "add_table tab g (unat t)"
  have pl1: "L1_paddr st1 = L1_paddr st" "L2_paddr st1 = L2_paddr st" by (simp_all add: st1_def)
  note P1 = same_places [OF pl1, of C]
  have geo: "geom C st1" using invD(1) [OF inv] P1 by simp
  have ent: "entered C {0..<mc_num_cpu C} g (\<lambda>_. t) st1 st'"
    unfolding st'_def map_ptbl_def by (rule map_ptbl_entered [OF cfg geo va [symmetric] order_refl])
  note E = enteredD [OF ent, unfolded P1]
  note P = same_frame_places [OF E(1), of C, unfolded P1]
  have t32: "unat t < 2 ^ 32" "of_nat (unat t) = t" by (rule unat_u32_bound) simp
  have old: "mw st1 x = mw st x" if "4 dvd x" "x < 2 ^ 32" "x \<notin> page_set (unat t)" for x
    using c(10) [OF that(1,2)] that(3) by (simp add: st1_def)
  have area: "mw st1 x = mw st x" if "4 dvd x" "x < 2 ^ 32" "x \<in> table_area C st" for x
    by (rule old [OF that(1,2)]) (use c(4) that(3) in blast)
  have A1: "mw st' (a1 C st c j) = (if j div 4 = g then l1v C t (j mod 4) else mw st (a1 C st c j))"
    if "c < mc_num_cpu C" "j < 4096" for c j
    using E(2) [OF that] area [OF a1_props [OF invD(1) [OF inv] that]] that(1) by simp
  have A2: "mw st' (a2 C st c j) = (if j = g then pdent C t else mw st (a2 C st c j))"
    if "c < mc_num_cpu C" "j < 1024" for c j
    using E(3) [OF that] area [OF a2_props [OF invD(1) [OF inv] that]] that(1) by simp
  have fr: "ram_list (mm_ram st') = ram_list ram'" "L1_paddr st' = L1_paddr st" "L2_paddr st' = L2_paddr st"
    "next_addr st' = next_addr st" "ram_good k (mc_as C) (mm_ram st')" "rs_lsp (mm_ram st') = rs_lsp (mm_ram st)"
    using E(1) c(6,7) by (simp_all add: same_frame_def st1_def)
  have gr: "group_ok C ?tab st' d h" if d: "d < mc_num_cpu C" and h: "h < 1024" for d h
  proof (cases "h = g")
    case True
    have "mw st' (a1 C st d (4 * g + i)) = l1v C t i" if "i < 4" for i using A1 [OF d, of "4 * g + i"] g(1) that by simp
    then show ?thesis using True A2 [OF d g(1)] c(3) t32 by (simp add: group_ok_def add_table_def P)
  next
    case False
    have "mw st' (a1 C st d (4 * h + i)) = mw st (a1 C st d (4 * h + i))" if "i < 4" for i
      using A1 [OF d, of "4 * h + i"] h that False by simp
    then show ?thesis using invD(2) [OF inv d h] A2 [OF d h] False
      by (auto simp: group_ok_def add_table_def P split: option.splits)
  qed
  have inv': "mmu_inv C ?tab st'"
    unfolding mmu_inv_def P fr(1)
  proof (intro conjI allI impI)
    show "geom C st" by (rule invD(1) [OF inv])
    show "group_ok C ?tab st' d h" if "d < mc_num_cpu C" "h < 1024" for d h by (rule gr [OF that])
    show "?tab d (pd_group C) = Some (l2base C st + d * 4096)" if "d < mc_num_cpu C" for d
      using invD(3) [OF inv that] g(2) by (simp add: add_table_def)
    show "page_set x \<inter> table_area C st = {}" if "d < mc_num_cpu C" "h < 1024" "h \<noteq> pd_group C" "?tab d h = Some x" for d h x
      using invD(4) [OF inv that(1-3), of x] that(4) c(4) by (auto simp: add_table_def split: if_splits)
    show "h = i" if "d < mc_num_cpu C" "e < mc_num_cpu C" "h < 1024" "i < 1024" "?tab d h = Some x" "?tab e i = Some x" for d e h i x
      using that(5,6) invD(5) [OF inv that(1-4), of x] c(5) [OF that(1,3)] c(5) [OF that(2,4)]
      by (auto simp: add_table_def split: if_splits)
    show "covered (ram_list ram') \<inter> table_area C st = {}" using c(8) invD(6) [OF inv] by blast
    show "covered (ram_list ram') \<inter> page_set x = {}" if "d < mc_num_cpu C" "h < 1024" "?tab d h = Some x" for d h x
      using that(3) invD(7) [OF inv that(1,2), of x] c(8,9) by (auto simp: add_table_def split: if_splits)
  qed
  have tr: "translate C st' d p = translate C st d p"
    if d: "d < mc_num_cpu C" and p: "p < 2 ^ 20" and np: "p \<noteq> 1024 * pd_group C + g" for d p
  proof -
    have h: "p div 1024 < 1024" "p div 256 < 4096" using p by (simp_all add: less_mult_imp_div_less)
    have m: "p mod 1024 < 1024" by simp
    have q: "p div 256 div 4 = p div 1024" by (simp add: div_mult2_eq [symmetric])
    show ?thesis
    proof (cases "p div 1024 = g")
      case True
      have "mw st' (unat t + 4 * (p mod 1024)) = 0"
      proof -
        note te = table_entry [OF inv_table(1,5) [OF inv' d g(1)] m, of "unat t"]
        have te: "4 dvd unat t + 4 * (p mod 1024)" "unat t + 4 * (p mod 1024) < 2 ^ 32" "unat t + 4 * (p mod 1024) \<in> page_set (unat t)"
          using te by (simp_all add: add_table_def)
        then have "mw st' (unat t + 4 * (p mod 1024)) = mw st1 (unat t + 4 * (p mod 1024))"
          by (intro E(4)) (use c(4) in blast)+
        then show ?thesis using c(10) [OF te(1,2)] te(3) by (simp add: st1_def)
      qed
      then have "translate C st' d p = Fault"
        using translate_table [OF cfg inv' d p, of "unat t"] True by (simp add: add_table_def pte_kind_def)
      moreover have "mw st (a1 C st d (p div 256)) AND 3 = 0"
      proof -
        have "p div 256 = 4 * g + p div 256 mod 4" using group_entry [of "p div 256" g] q True by simp
        moreover have "mw st (a1 C st d (4 * g + p div 256 mod 4)) AND 3 = 0"
          using blank d by (simp add: blank_group_def)
        ultimately show ?thesis by simp
      qed
      then have "translate C st d p = Fault" using translate_no_table [OF inv d p] none [OF d] True by simp
      ultimately show ?thesis by simp
    next
      case False
      show ?thesis
      proof (rule translate_cong [OF cfg inv inv' d p])
        show "?tab d (p div 1024) = tab d (p div 1024)" using False by (simp add: add_table_def)
        show "mw st' (a1 C st' d (p div 256)) = mw st (a1 C st d (p div 256))"
          using A1 [OF d h(2)] q False by (simp add: P)
      next
        fix x assume x: "tab d (p div 1024) = Some x"
        note T = inv_table [OF inv d h(1) x]
        note te = table_entry [OF T(1,5) m]
        show "mw st' (x + 4 * (p mod 1024)) = mw st (x + 4 * (p mod 1024))"
        proof (cases "p div 1024 = pd_group C")
          case True
          then have "x = l2base C st + d * 4096" using x invD(3) [OF inv d] by simp
          then have "x + 4 * (p mod 1024) = a2 C st d (p mod 1024)" by (simp add: a2_def)
          moreover have "p mod 1024 \<noteq> g" using np True div_mult_mod_eq [of p 1024] by (metis mult.commute)
          ultimately show ?thesis using A2 [OF d m] by simp
        next
          case False
          have "x + 4 * (p mod 1024) \<notin> table_area C st" using invD(4) [OF inv d h(1) False x] te(3) by blast
          then have "mw st' (x + 4 * (p mod 1024)) = mw st1 (x + 4 * (p mod 1024))" by (rule E(4) [OF te(1,2)])
          moreover have "x \<noteq> unat t" using c(5) [OF d h(1)] x by auto
          then have "x + 4 * (p mod 1024) \<notin> page_set (unat t)" using page_set_disjoint [OF T(1) c(3)] te(3) by blast
          ultimately show ?thesis using old [OF te(1,2)] by simp
        qed
      qed
    qed
  qed
  show ?thesis
    by (rule that [OF c(1,2)]) (use inv' fr A1 tr in \<open>simp add: Let_def st1_def [symmetric] st'_def [symmetric]\<close>)
qed

end
