(* ===== verification/ArmMmuRange.thy ===== *)
theory ArmMmuRange
  imports ArmMmuMap
begin

section \<open>The ARM page tables: mapping a range\<close>

text \<open>
  The loop of \<open>arm_32_map\<close> over the 4 MB groups of a range (\<open>map_pages\<close>), for one CPU: what
  one round does, and by induction what all do.
\<close>

subsection \<open>The 4 MB a range touches\<close>

definition groups :: "nat \<Rightarrow> nat \<Rightarrow> nat set" where
  "groups p m = (\<lambda>q. q div 1024) ` {p ..< p + m}"

text \<open>
  A range can be mapped where its 4 MB are not those of the page directory, have the same tables on
  all CPUs, and, where they have none, no section either.
\<close>

definition clean :: "mmu_cfg \<Rightarrow> tables \<Rightarrow> mmu \<Rightarrow> nat \<Rightarrow> bool" where
  "clean C tab st g \<longleftrightarrow> g < 1024 \<and> g \<noteq> pd_group C \<and> (\<forall>c < mc_num_cpu C. tab c g = tab 0 g) \<and>
     (tab 0 g = None \<longrightarrow> blank_group C st g)"

definition missing :: "tables \<Rightarrow> nat set \<Rightarrow> nat" where
  "missing tab G = card {g \<in> G. tab 0 g = None}"

text \<open>From \<open>st\<close> to \<open>st'\<close> the pages from \<open>p\<close> on got the entries from \<open>v\<close> on; nothing else changed.\<close>

definition mapped_as :: "mmu_cfg \<Rightarrow> mmu \<Rightarrow> mmu \<Rightarrow> nat \<Rightarrow> nat \<Rightarrow> u32 \<Rightarrow> bool" where
  "mapped_as C st st' p m v \<longleftrightarrow> (\<forall>c < mc_num_cpu C. \<forall>q < 2 ^ 20. q div 1024 \<noteq> pd_group C \<longrightarrow>
     translate C st' c q = (if p \<le> q \<and> q < p + m then pte_kind (v + of_nat (q - p) * 4096) else translate C st c q))"

lemma mapped_asD:
  "mapped_as C st st' p m v \<Longrightarrow> c < mc_num_cpu C \<Longrightarrow> q < 2 ^ 20 \<Longrightarrow> q div 1024 \<noteq> pd_group C \<Longrightarrow>
    translate C st' c q = (if p \<le> q \<and> q < p + m then pte_kind (v + of_nat (q - p) * 4096) else translate C st c q)"
  by (simp add: mapped_as_def)

lemma mapped_none: "mapped_as C st st p 0 v"
  by (auto simp: mapped_as_def)

lemma mapped_again: "mapped_as C st st1 p m v \<Longrightarrow> mapped_as C st1 st2 p m v \<Longrightarrow> mapped_as C st st2 p m v"
  by (simp add: mapped_as_def)

lemma mapped_append:
  assumes "mapped_as C st st1 p k v" and "mapped_as C st1 st2 (p + k) l (v + of_nat k * 4096)"
  shows "mapped_as C st st2 p (k + l) v"
proof -
  have "(v + of_nat k * 4096) + of_nat (q - (p + k)) * 4096 = v + of_nat (q - p) * (4096 :: u32)" if "p + k \<le> q" for q
  proof -
    have "q - p = k + (q - (p + k))" using that by simp
    then have "(of_nat (q - p) :: u32) = of_nat k + of_nat (q - (p + k))" by (metis of_nat_add)
    then show ?thesis by (simp add: algebra_simps)
  qed
  then show ?thesis
    using assms unfolding mapped_as_def by (auto simp: add.assoc)
qed

lemma groups_split:
  assumes "0 < m" and k: "k = min (1024 - p mod 1024) m"
  shows "groups p m = insert (p div 1024) (groups (p + k) (m - k))" "p div 1024 \<notin> groups (p + k) (m - k)"
    "0 < k" "\<And>q. p \<le> q \<Longrightarrow> q < p + k \<Longrightarrow> q div 1024 = p div 1024 \<and> q mod 1024 = p mod 1024 + (q - p)"
    "0 < m - k \<Longrightarrow> (p + k) div 1024 = p div 1024 + 1 \<and> (p + k) mod 1024 = 0"
proof -
  define a r where "a = p div 1024" and "r = p mod 1024"
  have r: "p = a * 1024 + r" "r < 1024" by (simp_all add: a_def r_def)
  have k_eq: "k = min (1024 - r) m" unfolding r_def by (rule k)
  have dm: "(a * 1024 + x) div 1024 = a" "(a * 1024 + x) mod 1024 = x" if "x < 1024" for x using that by simp_all
  show k0: "0 < k" using assms(1) r(2) k_eq by simp
  have in_group: "q div 1024 = a \<and> q mod 1024 = r + (q - p)" if "p \<le> q" "q < p + k" for q
  proof -
    define x where "x = r + (q - p)"
    have q: "q = a * 1024 + x" using r(1) that(1) unfolding x_def by linarith
    have "x < 1024" using that k_eq r(2) unfolding x_def by linarith
    from dm [OF this] show ?thesis unfolding q [symmetric] x_def [symmetric] by blast
  qed
  show "q div 1024 = p div 1024 \<and> q mod 1024 = p mod 1024 + (q - p)" if "p \<le> q" "q < p + k" for q
    using in_group [OF that] unfolding a_def r_def .
  have next_group: "(p + k) div 1024 = a + 1 \<and> (p + k) mod 1024 = 0" if "0 < m - k"
  proof -
    have "k = 1024 - r" using that k_eq by (simp add: min_def split: if_splits)
    then have e: "p + k = (a + 1) * 1024" using r by simp
    show ?thesis unfolding e by simp
  qed
  show "(p + k) div 1024 = p div 1024 + 1 \<and> (p + k) mod 1024 = 0" if "0 < m - k"
    using next_group [OF that] unfolding a_def .
  have split: "{p ..< p + m} = {p ..< p + k} \<union> {p + k ..< p + k + (m - k)}"
  proof -
    have "k \<le> m" using k_eq by linarith
    then show ?thesis by auto
  qed
  have "(\<lambda>q. q div 1024) ` {p ..< p + k} = {a}" (is "?img = _")
  proof
    show "?img \<subseteq> {a}" using in_group by auto
    have "a \<in> ?img" by (rule image_eqI [of _ _ p]) (use k0 in \<open>simp_all add: a_def\<close>)
    then show "{a} \<subseteq> ?img" by simp
  qed
  then show "groups p m = insert (p div 1024) (groups (p + k) (m - k))"
    unfolding groups_def split image_Un a_def by simp
  show "p div 1024 \<notin> groups (p + k) (m - k)"
  proof
    assume "p div 1024 \<in> groups (p + k) (m - k)"
    then obtain q where q: "p + k \<le> q" "q < p + k + (m - k)" "q div 1024 = a" unfolding groups_def a_def by auto
    have "0 < m - k" using q(1,2) by linarith
    from next_group [OF this] have "(p + k) div 1024 = a + 1" ..
    moreover have "(p + k) div 1024 \<le> q div 1024" by (rule div_le_mono) (rule q)
    ultimately show False using q(3) by linarith
  qed
qed

lemma finite_groups [simp]: "finite (groups p m)"
  by (simp add: groups_def)

lemma groups_one:
  assumes "0 < m" and "p div 1024 = g" and "(p + m - 1) div 1024 = g"
  shows "groups p m = {g}"
proof
  show "groups p m \<subseteq> {g}"
  proof
    fix h assume "h \<in> groups p m"
    then obtain q where q: "p \<le> q" "q \<le> p + m - 1" "h = q div 1024" by (auto simp: groups_def)
    then have "p div 1024 \<le> h" "h \<le> (p + m - 1) div 1024" by (simp_all add: div_le_mono)
    then show "h \<in> {g}" using assms by simp
  qed
  have "p div 1024 \<in> groups p m" unfolding groups_def by (rule imageI) (use assms(1) in simp)
  then show "{g} \<subseteq> groups p m" using assms(2) by simp
qed

lemma missing_insert:
  "finite G \<Longrightarrow> g \<notin> G \<Longrightarrow> missing tab (insert g G) = (if tab 0 g = None then 1 else 0) + missing tab G"
proof -
  assume "finite G" "g \<notin> G"
  moreover have "{h \<in> insert g G. tab 0 h = None} = (if tab 0 g = None then insert g {h \<in> G. tab 0 h = None} else {h \<in> G. tab 0 h = None})"
    by auto
  ultimately show ?thesis by (simp add: missing_def)
qed

lemma missing_add: "g \<notin> G \<Longrightarrow> missing (add_table tab g t) G = missing tab G"
  unfolding missing_def add_table_def by (rule arg_cong [where f = card]) auto

subsection \<open>One round\<close>

definition extends :: "mmu_cfg \<Rightarrow> tables \<Rightarrow> tables \<Rightarrow> nat set \<Rightarrow> bool" where
  "extends C tab tab' G \<longleftrightarrow> (\<forall>c < mc_num_cpu C. \<forall>g. g \<notin> G \<longrightarrow> tab' c g = tab c g) \<and>
     (\<forall>c < mc_num_cpu C. \<forall>g \<in> G. tab' c g = tab' 0 g \<and> tab' c g \<noteq> None)"

definition same_rest :: "mmu_cfg \<Rightarrow> mmu \<Rightarrow> mmu \<Rightarrow> nat set \<Rightarrow> bool" where
  "same_rest C st st' G \<longleftrightarrow> L1_paddr st' = L1_paddr st \<and> L2_paddr st' = L2_paddr st \<and> next_addr st' = next_addr st \<and> rs_lsp (mm_ram st') = rs_lsp (mm_ram st) \<and>
     (\<forall>c < mc_num_cpu C. \<forall>j < 4096. j div 4 \<notin> G \<longrightarrow> mw st' (a1 C st c j) = mw st (a1 C st c j))"

lemma same_restD:
  assumes "same_rest C st st' G"
  shows "a1 C st' = a1 C st" "l1_entry C st' = l1_entry C st" "next_addr st' = next_addr st" "L1_paddr st' = L1_paddr st"
    "L2_paddr st' = L2_paddr st"
    "\<And>c j. c < mc_num_cpu C \<Longrightarrow> j < 4096 \<Longrightarrow> j div 4 \<notin> G \<Longrightarrow> mw st' (a1 C st c j) = mw st (a1 C st c j)"
proof -
  have l: "L1_paddr st' = L1_paddr st" "L2_paddr st' = L2_paddr st" "next_addr st' = next_addr st"
    using assms by (simp_all add: same_rest_def)
  then show "L1_paddr st' = L1_paddr st" "L2_paddr st' = L2_paddr st" "next_addr st' = next_addr st" by simp_all
  show "a1 C st' = a1 C st" "l1_entry C st' = l1_entry C st" by (rule same_places [OF l(1,2)])+
  show "mw st' (a1 C st c j) = mw st (a1 C st c j)" if "c < mc_num_cpu C" "j < 4096" "j div 4 \<notin> G" for c j
    using assms that by (simp add: same_rest_def)
qed

lemma same_rest_trans:
  assumes "same_rest C st st1 G" and "same_rest C st1 st2 H"
  shows "same_rest C st st2 (G \<union> H)"
  using assms same_restD(1) [OF assms(1)] by (simp add: same_rest_def)

lemma cleanD:
  assumes "clean C tab st g"
  shows "g < 1024" "g \<noteq> pd_group C" "\<And>c. c < mc_num_cpu C \<Longrightarrow> tab c g = tab 0 g" "tab 0 g = None \<Longrightarrow> blank_group C st g"
  using assms unfolding clean_def by blast+

lemma clean_rest:
  assumes "clean C tab st g" and "same_rest C st st' G" and "extends C tab tab' G" and "g \<notin> G" and "0 < mc_num_cpu C"
  shows "clean C tab' st' g"
proof -
  note cl = cleanD [OF assms(1)]
  have t: "tab' c g = tab c g" if "c < mc_num_cpu C" for c using assms(3,4) that by (simp add: extends_def)
  have b: "mw st' (a1 C st c (4 * g + i)) = mw st (a1 C st c (4 * g + i))" if "c < mc_num_cpu C" "i < 4" for c i
    by (rule same_restD(6) [OF assms(2) that(1)]) (use cl(1) that(2) assms(4) in simp_all)
  show ?thesis
    unfolding clean_def
  proof (intro conjI allI impI)
    show "tab' c g = tab' 0 g" if "c < mc_num_cpu C" for c
      unfolding t [OF that] t [OF assms(5)] by (rule cl(3) [OF that])
    assume "tab' 0 g = None"
    then have "blank_group C st g" unfolding t [OF assms(5)] by (rule cl(4))
    then show "blank_group C st' g" using b by (simp add: blank_group_def same_restD(1) [OF assms(2)])
  qed (rule cl)+
qed

text \<open>The page of tables for the first 4 MB of the range.\<close>

lemma get_table_spec:
  assumes cfg: "cfg_ok C" and inv: "mmu_inv C tab st" and cl: "clean C tab st g" and c: "c < mc_num_cpu C"
    and va: "unat va div 2 ^ 22 = g" and ram: "ram_good (missing tab {g} + k) (mc_as C) (mm_ram st)"
  obtains t st1 tab1 where
    "get_table C (\<lambda>pt. map_ptbl C pt va) (l1_entry C st c (of_nat (4 * g))) st = Inr (of_nat t, st1)"
    "mmu_inv C tab1 st1" "extends C tab tab1 {g}" "\<And>d. d < mc_num_cpu C \<Longrightarrow> tab1 d g = Some t"
    "same_rest C st st1 {g}" "ram_good k (mc_as C) (mm_ram st1)"
    "\<And>d q. d < mc_num_cpu C \<Longrightarrow> q < 2 ^ 20 \<Longrightarrow> q div 1024 \<noteq> pd_group C \<Longrightarrow> translate C st1 d q = translate C st d q"
proof -
  note K = abi_okD [OF cfg]
  note g = cleanD(1,2) [OF cl] and sh = cleanD(3) [OF cl]
  have e: "rd st (l1_entry C st c (of_nat (4 * g))) = mw st (a1 C st c (4 * g))"
    using l1_entry_unat [OF invD(1) [OF inv] c, of "4 * g"] g(1) by (simp add: mw_def) (metis unat_of_nat_self)
  show ?thesis
  proof (cases "tab 0 g")
    case (Some t)
    then have t: "tab c g = Some t" using sh [OF c] by simp
    have "{h \<in> {g}. tab 0 h = None} = {}" using Some by auto
    then have ms0: "missing tab {g} = 0" unfolding missing_def by (rule ssubst) simp
    note T = inv_table [OF inv c g(1) t]
    note b = l1v_bits [OF cfg T(1,2), of 0]
    have "mw st (a1 C st c (4 * g)) = l1v C (of_nat t) 0" using T(3) [of 0] by simp
    moreover have "l1v C (of_nat t) 0 AND NOT 4095 = of_nat t" using b(3) by (metis unat_of_nat_self zero_less_numeral)
    ultimately have r: "get_table C (\<lambda>pt. map_ptbl C pt va) (l1_entry C st c (of_nat (4 * g))) st = Inr (of_nat t, st)"
      using e b(1) by (simp add: get_table_def Let_def K)
    show ?thesis
    proof (rule that [OF r inv])
      show all: "tab d g = Some t" if "d < mc_num_cpu C" for d using sh [OF that] Some by simp
      show "extends C tab tab {g}" using all Some by (simp add: extends_def)
      show "ram_good k (mc_as C) (mm_ram st)" using ram ms0 by simp
    qed (simp_all add: same_rest_def)
  next
    case None
    have none: "tab d g = None" if "d < mc_num_cpu C" for d using sh [OF that] None by simp
    have bl: "blank_group C st g" using cl None by (simp add: clean_def)
    have "{h \<in> {g}. tab 0 h = None} = {g}" using None by auto
    then have ms: "missing tab {g} = 1" unfolding missing_def by (rule ssubst) simp
    have "ram_good (Suc k) (mc_as C) (mm_ram st)" using ram ms by simp
    from new_table [OF cfg inv g none bl this va] obtain t ram' where
      n: "calloc_ram (mc_as C) 4096 4096 (mm_ram st) = Inr (t, ram')" "t \<noteq> NULL_PADDR"
      "let st' = map_ptbl C t va (st\<lparr>mm_ram := ram'\<rparr>)
       in mmu_inv C (add_table tab g (unat t)) st' \<and> ram_good k (mc_as C) (mm_ram st') \<and>
        L1_paddr st' = L1_paddr st \<and> L2_paddr st' = L2_paddr st \<and> next_addr st' = next_addr st \<and> rs_lsp (mm_ram st') = rs_lsp (mm_ram st) \<and>
        (\<forall>c < mc_num_cpu C. \<forall>j < 4096. j div 4 \<noteq> g \<longrightarrow> mw st' (a1 C st c j) = mw st (a1 C st c j)) \<and>
        (\<forall>c < mc_num_cpu C. \<forall>p < 2 ^ 20. p \<noteq> 1024 * pd_group C + g \<longrightarrow> translate C st' c p = translate C st c p)" .
    define st1 where "st1 = map_ptbl C t va (st\<lparr>mm_ram := ram'\<rparr>)"
    note N = n(3) [unfolded Let_def, folded st1_def]
    have "mw st (a1 C st c (4 * g + 0)) AND 3 = 0" using bl c unfolding blank_group_def by (metis zero_less_numeral)
    then have r: "get_table C (\<lambda>pt. map_ptbl C pt va) (l1_entry C st c (of_nat (4 * g))) st = Inr (of_nat (unat t), st1)"
      using e n(1,2) by (simp add: get_table_def Let_def K st1_def)
    show ?thesis
    proof (rule that [OF r])
      show "mmu_inv C (add_table tab g (unat t)) st1" "ram_good k (mc_as C) (mm_ram st1)" using N by simp_all
      show "extends C tab (add_table tab g (unat t)) {g}" by (simp add: extends_def add_table_def)
      show "add_table tab g (unat t) d g = Some (unat t)" for d by (simp add: add_table_def)
      show "same_rest C st st1 {g}" using N by (simp add: same_rest_def)
      fix d q assume d: "d < mc_num_cpu C" and q: "q < (2 :: nat) ^ 20" and ng: "q div 1024 \<noteq> pd_group C"
      have "q \<noteq> 1024 * pd_group C + g" using ng g(1) by auto
      then show "translate C st1 d q = translate C st d q" using N d q by simp
    qed
  qed
qed

lemma missing_extends:
  assumes "extends C tab tab' {g}" and "g \<notin> G" and "0 < mc_num_cpu C"
  shows "missing tab' G = missing tab G"
proof -
  have "tab' 0 h = tab 0 h" if "h \<in> G" for h
  proof -
    have "h \<notin> {g}" using that assms(2) by auto
    then show ?thesis using assms(1,3) by (simp add: extends_def)
  qed
  then show ?thesis unfolding missing_def by (intro arg_cong [where f = card]) auto
qed

lemma extends_insert:
  assumes "extends C tab tab1 {g}" and "extends C tab1 tab2 G" and "g \<notin> G" and "0 < mc_num_cpu C"
  shows "extends C tab tab2 (insert g G)"
  unfolding extends_def
proof (intro conjI allI impI ballI)
  fix c h assume c: "c < mc_num_cpu C" and "h \<notin> insert g G"
  then have "tab2 c h = tab1 c h" "tab1 c h = tab c h" using assms(1,2) by (simp_all add: extends_def)
  then show "tab2 c h = tab c h" by simp
next
  fix c h assume c: "c < mc_num_cpu C" and h: "h \<in> insert g G"
  show "tab2 c h = tab2 0 h"
  proof (cases "h = g")
    case True
    have "tab2 c g = tab1 c g" "tab2 0 g = tab1 0 g" using assms(2-4) c by (simp_all add: extends_def)
    moreover have "tab1 c g = tab1 0 g" using assms(1) c unfolding extends_def by blast
    ultimately show ?thesis using True by simp
  next
    case False
    then have "h \<in> G" using h by simp
    then show ?thesis using assms(2) c unfolding extends_def by blast
  qed
  show "tab2 c h \<noteq> None"
  proof (cases "h = g")
    case True
    have "tab2 c g = tab1 c g" using assms(2,3) c by (simp add: extends_def)
    moreover have "tab1 c g \<noteq> None" using assms(1) c unfolding extends_def by blast
    ultimately show ?thesis using True by simp
  next
    case False
    then have "h \<in> G" using h by simp
    then show ?thesis using assms(2) c unfolding extends_def by blast
  qed
qed

lemma same_rest_frame:
  assumes geo: "geom C st" and fr: "same_frame st st'"
    and same: "\<And>a. a \<in> table_area C st \<Longrightarrow> 4 dvd a \<Longrightarrow> a < 2 ^ 32 \<Longrightarrow> mw st' a = mw st a"
  shows "same_rest C st st' G"
  unfolding same_rest_def
proof (intro conjI allI impI)
  fix c j assume cj: "c < mc_num_cpu C" "j < (4096 :: nat)"
  note a = a1_props [OF geo cj]
  show "mw st' (a1 C st c j) = mw st (a1 C st c j)" by (rule same [OF a(3,1,2)])
qed (use fr in \<open>simp_all add: same_frame_def\<close>)

lemma l2_index_unat:
  assumes "cfg_ok C" and "unat va div 4096 = p"
  shows "l2_index (mc_abi C) va = of_nat (p mod 1024)" "unat (ARM_L2_SIZE (mc_abi C) - l2_index (mc_abi C) va) = 1024 - p mod 1024"
proof -
  have u: "unat (l2_index (mc_abi C) va) = p mod 1024"
    using assms(2) by (simp add: l2_index_def abi_okD [OF assms(1)] masks unat_and_mask unat_drop_bit)
  then show "l2_index (mc_abi C) va = of_nat (p mod 1024)" by (metis unat_of_nat_self)
  have "p mod 1024 < 1024" by simp
  then have "l2_index (mc_abi C) va \<le> 1024" using u by (simp add: word_le_nat_alt)
  then have "unat (1024 - l2_index (mc_abi C) va) = unat (1024 :: u32) - unat (l2_index (mc_abi C) va)" by (rule unat_sub)
  then show "unat (ARM_L2_SIZE (mc_abi C) - l2_index (mc_abi C) va) = 1024 - p mod 1024"
    using u by (simp add: abi_okD [OF assms(1)])
qed

lemma same_group:
  fixes p q m k :: nat
  assumes "k = min (1024 - p mod 1024) m"
  shows "q div 1024 = p div 1024 \<and> p mod 1024 \<le> q mod 1024 \<and> q mod 1024 < p mod 1024 + k \<longleftrightarrow> p \<le> q \<and> q < p + k"
proof
  assume l: "q div 1024 = p div 1024 \<and> p mod 1024 \<le> q mod 1024 \<and> q mod 1024 < p mod 1024 + k"
  define a r s where "a = p div 1024" and "r = p mod 1024" and "s = q mod 1024"
  have "p = a * 1024 + r" "q = q div 1024 * 1024 + s" by (simp_all add: a_def r_def s_def)
  moreover have "q div 1024 = a" "r \<le> s" "s < r + k" using l by (simp_all add: a_def r_def s_def)
  ultimately show "p \<le> q \<and> q < p + k" by simp
next
  assume q: "p \<le> q \<and> q < p + k"
  then have "0 < m" using assms by (cases m) auto
  from groups_split(4) [OF this assms, of q] q show "q div 1024 = p div 1024 \<and> p mod 1024 \<le> q mod 1024 \<and> q mod 1024 < p mod 1024 + k"
    by auto
qed

text \<open>One round of the loop: the table of the next 4 MB is found or made, and filled.\<close>

lemma map_round:
  assumes cfg: "cfg_ok C" and inv: "mmu_inv C tab st" and cl: "clean C tab st (p div 1024)" and c: "c < mc_num_cpu C"
    and va: "unat va div 4096 = p" and sz: "unat sz = 4096 * m" and m: "0 < m"
    and k: "k = min (1024 - p mod 1024) m"
    and ram: "ram_good (missing tab {p div 1024} + r) (mc_as C) (mm_ram st)"
  obtains tbl st1 st2 tab1 where
    "get_table C (\<lambda>pt. map_ptbl C pt va) (l1_entry C st c (of_nat (4 * (p div 1024)))) st = Inr (tbl, st1)"
    "fill_table (unat (ARM_L2_SIZE (mc_abi C) - l2_index (mc_abi C) va)) (mc_abi C) (tbl + 4 * l2_index (mc_abi C) va) pa va sz st1 =
      (pa + of_nat k * 4096, va + of_nat k * 4096, of_nat (4096 * (m - k)), st2)"
    "mmu_inv C tab1 st2" "extends C tab tab1 {p div 1024}" "same_rest C st st2 {p div 1024}"
    "ram_good r (mc_as C) (mm_ram st2)" "mapped_as C st st2 p k pa"
proof -
  let ?g = "p div 1024"
  have vg: "unat va div 2 ^ 22 = ?g" unfolding va [symmetric] by (simp add: div_mult2_eq [symmetric])
  obtain t st1 tab1 where G: "get_table C (\<lambda>pt. map_ptbl C pt va) (l1_entry C st c (of_nat (4 * ?g))) st = Inr (of_nat t, st1)"
    "mmu_inv C tab1 st1" "extends C tab tab1 {?g}" "\<And>d. d < mc_num_cpu C \<Longrightarrow> tab1 d ?g = Some t"
    "same_rest C st st1 {?g}" "ram_good r (mc_as C) (mm_ram st1)"
    "\<And>d q. d < mc_num_cpu C \<Longrightarrow> q < 2 ^ 20 \<Longrightarrow> q div 1024 \<noteq> pd_group C \<Longrightarrow> translate C st1 d q = translate C st d q"
    by (rule get_table_spec [OF cfg inv cl c vg ram]) blast
  note g = cleanD(1,2) [OF cl]
  have ik: "p mod 1024 + k \<le> 1024" unfolding k by simp
  have k0: "0 < k" by (rule groups_split(3) [OF m k])
  define st2 where "st2 = fold (\<lambda>j. wr (of_nat t + 4 * of_nat (p mod 1024) + 4 * of_nat j) (pa + of_nat j * 4096)) [0..<k] st1"
  note F = fill_spec [OF cfg G(2) c g G(4) [OF c] ik k0 st2_def]
  have f: "fill_table (unat (ARM_L2_SIZE (mc_abi C) - l2_index (mc_abi C) va)) (mc_abi C) (of_nat t + 4 * l2_index (mc_abi C) va) pa va sz st1 =
      (pa + of_nat k * 4096, va + of_nat k * 4096, of_nat (4096 * (m - k)), st2)"
    unfolding fill_table_eq [OF abi_okD(1) [OF cfg] sz] l2_index_unat(2) [OF cfg va] k [symmetric] st2_def
    unfolding l2_index_unat(1) [OF cfg va] ..
  have same: "same_rest C st st2 {?g}"
    using same_rest_trans [OF G(5) same_rest_frame [OF invD(1) [OF G(2)] F(2,4)], of "{?g}"] by simp
  have rg: "ram_good r (mc_as C) (mm_ram st2)" using F(2) G(6) by (simp add: same_frame_def)
  have "mapped_as C st st2 p k pa"
    unfolding mapped_as_def
  proof (intro allI impI)
    fix d q assume d: "d < mc_num_cpu C" and q: "q < (2 :: nat) ^ 20" and np: "q div 1024 \<noteq> pd_group C"
    have q1: "q div 1024 < 1024" using q by (simp add: less_mult_imp_div_less)
    have "tab1 d (q div 1024) = Some t \<longleftrightarrow> q div 1024 = ?g"
      using invD(5) [OF G(2) d c q1 g(1) _ G(4) [OF c]] G(4) [OF d] by auto
    then have "translate C st2 d q = (if p \<le> q \<and> q < p + k then pte_kind (pa + of_nat (q mod 1024 - p mod 1024) * 4096) else translate C st1 d q)"
      unfolding F(3) [OF d q] same_group [OF k, symmetric] by simp
    moreover have "q mod 1024 - p mod 1024 = q - p" if "p \<le> q" "q < p + k"
      using groups_split(4) [OF m k that] by simp
    ultimately show "translate C st2 d q = (if p \<le> q \<and> q < p + k then pte_kind (pa + of_nat (q - p) * 4096) else translate C st d q)"
      using G(7) [OF d q np] by simp
  qed
  from that [OF G(1) f F(1) G(3) same rg this] show ?thesis .
qed

text \<open>All rounds for one CPU.\<close>

lemma map_pages_spec:
  assumes cfg: "cfg_ok C" and c: "c < mc_num_cpu C"
  shows "m < fuel \<Longrightarrow> mmu_inv C tab st \<Longrightarrow> \<forall>g \<in> groups p m. clean C tab st g \<Longrightarrow>
    ram_good (missing tab (groups p m) + r) (mc_as C) (mm_ram st) \<Longrightarrow> unat sz = 4096 * m \<Longrightarrow>
    0 < m \<longrightarrow> unat va div 4096 = p \<and> ptp = l1_entry C st c (of_nat (4 * (p div 1024))) \<Longrightarrow> p + m \<le> 2 ^ 20 \<Longrightarrow>
    \<exists>st' tab'. map_pages fuel C ptp pa va sz st = Inr st' \<and> mmu_inv C tab' st' \<and> extends C tab tab' (groups p m) \<and>
      same_rest C st st' (groups p m) \<and> ram_good r (mc_as C) (mm_ram st') \<and> mapped_as C st st' p m pa"
proof (induction fuel arbitrary: m tab st p pa va sz ptp)
  case (Suc fuel)
  note prems = Suc.prems
  have n: "0 < mc_num_cpu C" using c by simp
  show ?case
  proof (cases "m = 0")
    case True
    then have "sz = 0" using prems(5) by (simp add: unat_eq_0)
    moreover have "groups p 0 = {}" by (simp add: groups_def)
    moreover have "missing tab {} = 0" by (simp add: missing_def)
    ultimately show ?thesis
      using True prems(2,4) mapped_none by (auto simp: extends_def same_rest_def intro!: exI [of _ tab])
  next
    case False
    then have m: "0 < m" by simp
    let ?g = "p div 1024" and ?G = "groups p m"
    define k where "k = min (1024 - p mod 1024) m"
    let ?H = "groups (p + k) (m - k)"
    note S = groups_split [OF m k_def]
    have va: "unat va div 4096 = p" and ptp: "ptp = l1_entry C st c (of_nat (4 * ?g))" using prems(6) m by simp_all
    have cl: "clean C tab st ?g" using prems(3) S(1) by simp
    have ms: "missing tab ?G = missing tab {?g} + missing tab ?H"
    proof -
      have "missing tab ?G = (if tab 0 ?g = None then 1 else 0) + missing tab ?H"
        unfolding S(1) by (rule missing_insert [OF finite_groups S(2)])
      moreover have "missing tab {?g} = (if tab 0 ?g = None then 1 else 0) + missing tab {}"
        by (rule missing_insert) simp_all
      moreover have "missing tab {} = 0" by (simp add: missing_def)
      ultimately show ?thesis by linarith
    qed
    have ram: "ram_good (missing tab {?g} + (missing tab ?H + r)) (mc_as C) (mm_ram st)"
      using prems(4) unfolding ms add.assoc .
    obtain tbl st1 st2 tab1 where R:
      "get_table C (\<lambda>pt. map_ptbl C pt va) (l1_entry C st c (of_nat (4 * ?g))) st = Inr (tbl, st1)"
      "fill_table (unat (ARM_L2_SIZE (mc_abi C) - l2_index (mc_abi C) va)) (mc_abi C) (tbl + 4 * l2_index (mc_abi C) va) pa va sz st1 =
        (pa + of_nat k * 4096, va + of_nat k * 4096, of_nat (4096 * (m - k)), st2)"
      "mmu_inv C tab1 st2" "extends C tab tab1 {?g}" "same_rest C st st2 {?g}"
      "ram_good (missing tab ?H + r) (mc_as C) (mm_ram st2)" "mapped_as C st st2 p k pa"
      by (rule map_round [OF cfg prems(2) cl c va prems(5) m k_def ram]) blast
    have sz0: "sz \<noteq> 0" using prems(5) m by auto
    have run: "map_pages (Suc fuel) C ptp pa va sz st =
        map_pages fuel C (ptp + 16) (pa + of_nat k * 4096) (va + of_nat k * 4096) (of_nat (4096 * (m - k))) st2"
      unfolding map_pages.simps if_not_P [OF sz0] ptp R(1) by (simp only: bind_res_def sum.case prod.case Let_def R(2))
    have km: "k \<le> m" "0 < k" using S(3) by (simp_all add: k_def)
    have "\<exists>st' tab'. map_pages fuel C (ptp + 16) (pa + of_nat k * 4096) (va + of_nat k * 4096) (of_nat (4096 * (m - k))) st2 = Inr st' \<and>
        mmu_inv C tab' st' \<and> extends C tab1 tab' ?H \<and> same_rest C st2 st' ?H \<and> ram_good r (mc_as C) (mm_ram st') \<and>
        mapped_as C st2 st' (p + k) (m - k) (pa + of_nat k * 4096)"
    proof (rule Suc.IH [OF _ R(3)])
      show "m - k < fuel" using prems(1) km by linarith
      show "\<forall>g \<in> ?H. clean C tab1 st2 g"
      proof
        fix h assume h: "h \<in> ?H"
        then have "h \<notin> {?g}" using S(2) by auto
        moreover have "clean C tab st h" using prems(3) S(1) h by simp
        ultimately show "clean C tab1 st2 h" using clean_rest [OF _ R(5,4) _ n] by blast
      qed
      show "ram_good (missing tab1 ?H + r) (mc_as C) (mm_ram st2)" unfolding missing_extends [OF R(4) S(2) n] by (rule R(6))
      show "unat (of_nat (4096 * (m - k)) :: u32) = 4096 * (m - k)"
        by (rule unat_of_nat_small) (use prems(7) km in simp)
      show "p + k + (m - k) \<le> 2 ^ 20" using prems(7) km by simp
      show "0 < m - k \<longrightarrow> unat (va + of_nat k * 4096) div 4096 = p + k \<and> ptp + 16 = l1_entry C st2 c (of_nat (4 * ((p + k) div 1024)))"
      proof
        assume mk: "0 < m - k"
        have "unat (of_nat (4096 * k) :: u32) = 4096 * k" by (rule unat_of_nat_small) (use prems(7) mk in simp)
        moreover have "(of_nat (4096 * k) :: u32) = of_nat k * 4096" by (simp add: mult.commute)
        ultimately have "unat (of_nat k * 4096 :: u32) = 4096 * k" by (simp only:)
        moreover have "unat va < (p + 1) * 4096" using va by (simp add: dividend_less_div_times)
        ultimately have "unat (va + of_nat k * 4096) = unat va + k * 4096"
          using prems(7) mk by (simp add: unat_word_ariths)
        then have "unat (va + of_nat k * 4096) div 4096 = p + k" using va by simp
        moreover have "ptp + 16 = l1_entry C st2 c (of_nat (4 * ((p + k) div 1024)))"
          using S(5) [OF mk] ptp same_restD(2) [OF R(5)] by (simp add: l1_entry_def algebra_simps)
        ultimately show "unat (va + of_nat k * 4096) div 4096 = p + k \<and> ptp + 16 = l1_entry C st2 c (of_nat (4 * ((p + k) div 1024)))" ..
      qed
    qed
    then obtain st' tab' where I:
      "map_pages fuel C (ptp + 16) (pa + of_nat k * 4096) (va + of_nat k * 4096) (of_nat (4096 * (m - k))) st2 = Inr st'"
      "mmu_inv C tab' st'" "extends C tab1 tab' ?H" "same_rest C st2 st' ?H" "ram_good r (mc_as C) (mm_ram st')"
      "mapped_as C st2 st' (p + k) (m - k) (pa + of_nat k * 4096)" by blast
    have "extends C tab tab' ?G" unfolding S(1) by (rule extends_insert [OF R(4) I(3) S(2) n])
    moreover have "same_rest C st st' ?G" using same_rest_trans [OF R(5) I(4)] S(1) by simp
    moreover have "mapped_as C st st' p m pa" using mapped_append [OF R(7) I(6)] km by simp
    ultimately show ?thesis unfolding run using I(1,2,5) by blast
  qed
qed simp

end
