(* ===== verification/ArmMmuCorrect.thy ===== *)
theory ArmMmuCorrect
  imports ArmMmuRange
begin

section \<open>The ARM page tables: the public operations\<close>

text \<open>
  \<open>arm_32_map\<close> on all CPUs: the attribute bits \<open>set_prot\<close> computes stay below the address
  bits, the loop over the CPUs keeps what was mapped before, and reading the tables back
  (\<open>elf_vaddr_to_paddr\<close>).
\<close>

subsection \<open>Attribute bits\<close>

lemma low12_simps [simp]: "low12 0" "low12 (x OR y) \<longleftrightarrow> low12 x \<and> low12 y"
proof -
  have "(x OR y) AND NOT (mask 12) = (x AND NOT (mask 12)) OR (y AND NOT (mask 12))" by (rule bit_word_eqI) (auto simp: bit_simps)
  then show "low12 (x OR y) \<longleftrightarrow> low12 x \<and> low12 y" by (simp add: low12_def or_eq_0_iff)
qed (simp add: low12_def)

lemma low12_bit: "low12 x \<Longrightarrow> bit x n \<Longrightarrow> n < 12"
proof (rule ccontr)
  assume l: "low12 x" and b: "bit x n" and "\<not> n < 12"
  moreover have "n < 32" using bit_imp_le_length [OF b] by simp
  ultimately have "bit (x AND NOT (mask 12)) n" by (simp add: bit_simps)
  then show False using l by (simp add: low12_def)
qed

lemma low12_and: "low12 y \<Longrightarrow> low12 (x AND y)"
proof -
  assume "low12 y"
  moreover have "(x AND y) AND NOT (mask 12) = x AND (y AND NOT (mask 12))" by (simp add: and.assoc)
  ultimately show ?thesis by (simp add: low12_def)
qed

text \<open>Every branch of \<open>set_prot\<close> sets some low bits, clears some and sets some again.\<close>

lemma set_prot_form:
  assumes "cfg_ok C"
  obtains a m b where "low12 a" "low12 m" "low12 b" "bit a 1" "\<not> bit m 1" "\<And>pa. set_prot C pa f = ((pa OR a) AND NOT m) OR b"
proof -
  let ?K = "mc_abi C" and ?P = "mc_pte C"
  have p: "pte_ok ?P" and k: "arm_abi_ok ?K" using assms by (simp_all add: cfg_ok_def)
  have P: "low12 (ucast (upte_ro ?P))" "low12 (ucast (upte_rw ?P))" "low12 (ucast (kpte_ro ?P))" "low12 (ucast (kpte_rw ?P))"
    "low12 (ucast (mask_nc ?P))" "bit (upte_ro ?P) 1" "bit (upte_rw ?P) 1" "bit (kpte_ro ?P) 1" "bit (kpte_rw ?P) 1" "\<not> bit (mask_nc ?P) 1"
    using p unfolding pte_ok_def by blast+
  have K: "low12 (ARM_PTE_V6_AP0 ?K)" "low12 (ARM_PTE_V6_nG ?K)" "low12 (ARM_PTE_V6_S ?K)" "low12 (ARM_PTE_V6_SP_TEX_MASK ?K)"
     "low12 (ARM_PTE_V6_SP_XN ?K)" "low12 (ARM_PTE_V5_SP_TEX_MASK ?K)" "low12 (ARM_PTE_CB ?K)"
     "\<not> bit (ARM_PTE_V6_AP0 ?K) 1" "\<not> bit (ARM_PTE_V6_nG ?K) 1"
    using k unfolding arm_abi_ok_def by blast+
  have u1: "bit (ucast x :: u32) 1 = bit x 1" for x :: u16 by (simp add: bit_simps)
  have z: "\<not> bit (0 :: u32) 1" by simp
  show ?thesis
  proof (cases "f = ARM_MAP_SYSPAGE")
    case True
    define a m where "a = (ucast (if mc_v6 C then upte_rw ?P else upte_ro ?P) :: u32)"
      and "m = (if mc_v6 C then ARM_PTE_V6_AP0 ?K OR ARM_PTE_V6_nG ?K else 0)"
    show ?thesis
    proof (rule that)
      show "set_prot C pa f = ((pa OR a) AND NOT m) OR 0" for pa
        using True by (simp add: set_prot_def Let_def a_def m_def)
      show "low12 a" unfolding a_def by (cases "mc_v6 C") (simp_all only: if_True if_False P)
      show "low12 m" unfolding m_def by (cases "mc_v6 C") (simp_all add: K)
      show "bit a 1" unfolding a_def u1 by (cases "mc_v6 C") (simp_all only: if_True if_False P)
      show "\<not> bit m 1" unfolding m_def by (cases "mc_v6 C") (use K(8,9) in \<open>simp_all add: bit_or_iff\<close>)
    qed simp
  next
    case False
    define x where "x = (if f AND ARM_PTE_U ?K \<noteq> 0 then if f AND ARM_PTE_RW ?K \<noteq> 0 then upte_rw ?P else upte_ro ?P
                  else if f AND ARM_PTE_RW ?K \<noteq> 0 then kpte_rw ?P else kpte_ro ?P)"
    define m where "m = (if f AND ARM_PTE_CB ?K \<noteq> ARM_PTE_CB ?K then ucast (mask_nc ?P) else 0 :: u32)"
    define b where "b = (if mc_v6 C then (f AND (ARM_PTE_V6_S ?K OR ARM_PTE_V6_SP_TEX_MASK ?K OR ARM_PTE_CB ?K))
               OR (if f AND ARM_MAP_NOEXEC \<noteq> 0 then ARM_PTE_V6_SP_XN ?K else 0)
              else f AND (ARM_PTE_V5_SP_TEX_MASK ?K OR ARM_PTE_CB ?K))"
    have x: "low12 (ucast x)" "bit x 1" 
      unfolding x_def
      by (cases "f AND ARM_PTE_U ?K \<noteq> 0"; cases "f AND ARM_PTE_RW ?K \<noteq> 0"; simp_all only: if_True if_False simp_thms P)+
    show ?thesis
    proof (rule that)
      show "set_prot C pa f = ((pa OR ucast x) AND NOT m) OR b" for pa
        using False by (simp add: set_prot_def Let_def or.assoc x_def m_def b_def)
      show "low12 (ucast x)" by (rule x)
      show "low12 m" unfolding m_def using P(5) by simp
      have c: "low12 (f AND (ARM_PTE_V6_S ?K OR ARM_PTE_V6_SP_TEX_MASK ?K OR ARM_PTE_CB ?K))"
        "low12 (f AND (ARM_PTE_V5_SP_TEX_MASK ?K OR ARM_PTE_CB ?K))" by (rule low12_and; simp add: K)+
      show "low12 b" unfolding b_def using c K(5) by simp
      show "bit (ucast x :: u32) 1" unfolding u1 by (rule x)
      show "\<not> bit m 1" unfolding m_def using P(10) u1 [of "mask_nc ?P"] z by (simp split: if_split)
    qed
  qed
qed

lemma set_prot_split:
  assumes "cfg_ok C" and "pa AND mask 12 = 0"
  shows "set_prot C pa f = pa OR set_prot C 0 f" "low12 (set_prot C 0 f)" "set_prot C 0 f AND 3 \<noteq> 0"
proof -
  obtain a m b where f: "low12 a" "low12 m" "low12 b" "bit a 1" "\<not> bit m 1" "\<And>pa. set_prot C pa f = ((pa OR a) AND NOT m) OR b"
    by (rule set_prot_form [OF assms(1), of f]) blast
  have hi: "\<not> bit pa n" if "n < 12" for n
  proof -
    have "\<not> bit (pa AND mask 12) n" using assms(2) by simp
    then show ?thesis using that by (simp add: bit_simps)
  qed
  have "\<not> (bit pa n \<and> bit m n)" for n using hi low12_bit [OF f(2)] by blast
  then show "set_prot C pa f = pa OR set_prot C 0 f"
    unfolding f(6) by (intro bit_word_eqI) (auto simp: bit_simps)
  have "low12 (a AND NOT m)" using low12_and [OF f(1), of "NOT m"] by (simp add: and.commute)
  then show "low12 (set_prot C 0 f)" unfolding f(6) by (simp add: f(3))
  have "bit (set_prot C 0 f AND 3) 1" unfolding f(6) using f(4,5) by (simp add: bit_simps masks(1))
  then show "set_prot C 0 f AND 3 \<noteq> 0" by auto
qed

lemma or_as_add:
  fixes x b :: u32
  assumes "x AND mask k = 0" and "b AND NOT (mask k) = 0"
  shows "x OR b = x + b"
proof -
  have "x AND b = 0"
  proof -
    have "x AND b = (x AND mask k) AND b OR x AND (b AND NOT (mask k))" by (rule bit_word_eqI) (auto simp: bit_simps)
    then show ?thesis using assms by simp
  qed
  then show ?thesis by (rule disjunctive_add_eq_or [symmetric])
qed

text \<open>The entry of the \<open>i\<close>-th page after the one the entry \<open>set_prot C pa f\<close> is for.\<close>

lemma prot_page:
  assumes "cfg_ok C" and "pa AND mask 12 = 0"
  shows "set_prot C pa f + of_nat i * 4096 = (pa + of_nat i * 4096) OR set_prot C 0 f"
    "pte_kind ((pa + of_nat i * 4096) OR set_prot C 0 f) = Page ((pa + of_nat i * 4096) OR set_prot C 0 f)"
    "((pa + of_nat i * 4096) OR set_prot C 0 f) AND NOT (mask 12) = pa + of_nat i * 4096"
proof -
  note S = set_prot_split [OF assms(1)]
  have "2 ^ 12 dvd unat pa" using assms(2) by (simp only: and_mask_dvd)
  then have "2 ^ 12 dvd unat (pa + of_nat i * 4096)"
    by (auto simp: unat_word_ariths dvd_mod_iff)
  then have al: "(pa + of_nat i * 4096) AND mask 12 = 0" by (simp only: and_mask_dvd)
  have low: "set_prot C 0 f AND NOT (mask 12) = 0" using S(2) [OF assms(2)] by (simp add: low12_def)
  show "set_prot C pa f + of_nat i * 4096 = (pa + of_nat i * 4096) OR set_prot C 0 f"
    unfolding S(1) [OF assms(2)] or_as_add [OF assms(2) low] or_as_add [OF al low] by simp
  have "((pa + of_nat i * 4096) OR set_prot C 0 f) AND 3 = set_prot C 0 f AND 3"
  proof -
    have "(pa + of_nat i * 4096) AND 3 = ((pa + of_nat i * 4096) AND mask 12) AND 3"
      by (rule bit_word_eqI) (auto simp: bit_simps masks(1))
    then have "(pa + of_nat i * 4096) AND 3 = 0" unfolding al by simp
    then show ?thesis by (simp add: bit.conj_disj_distrib2)
  qed
  then show "pte_kind ((pa + of_nat i * 4096) OR set_prot C 0 f) = Page ((pa + of_nat i * 4096) OR set_prot C 0 f)"
    using S(3) [OF assms(2)] by (simp add: pte_kind_def)
  show "((pa + of_nat i * 4096) OR set_prot C 0 f) AND NOT (mask 12) = pa + of_nat i * 4096"
    by (rule or_low(1) [OF al low])
qed

subsection \<open>A range on every CPU\<close>

lemma extends_twice:
  assumes "extends C tab tab1 G" and "extends C tab1 tab2 G"
  shows "extends C tab tab2 G"
  unfolding extends_def
proof (intro conjI allI impI)
  fix c g assume c: "c < mc_num_cpu C" and g: "g \<notin> G"
  have "tab2 c g = tab1 c g" "tab1 c g = tab c g"
    using assms [unfolded extends_def, THEN conjunct1, rule_format, OF c g] by simp_all
  then show "tab2 c g = tab c g" by simp
next
  fix c assume c: "c < mc_num_cpu C"
  show "\<forall>g \<in> G. tab2 c g = tab2 0 g \<and> tab2 c g \<noteq> None"
    using assms(2) [unfolded extends_def, THEN conjunct2] c by blast
qed

lemma clean_made:
  assumes "clean C tab st g" and "extends C tab tab1 G" and "g \<in> G" and "0 < mc_num_cpu C"
  shows "clean C tab1 st1 g"
proof -
  have e: "tab1 c g = tab1 0 g" "tab1 c g \<noteq> None" if "c < mc_num_cpu C" for c
    using assms(2,3) that unfolding extends_def by blast+
  show ?thesis
    unfolding clean_def
  proof (intro conjI allI impI)
    show "g < 1024" "g \<noteq> pd_group C" by (rule cleanD(1,2) [OF assms(1)])+
    show "tab1 c g = tab1 0 g" if "c < mc_num_cpu C" for c by (rule e(1) [OF that])
    show "blank_group C st1 g" if "tab1 0 g = None" using e(2) [OF assms(4)] that by contradiction
  qed
qed

lemma missing_made:
  assumes "extends C tab tab1 G" and "0 < mc_num_cpu C"
  shows "missing tab1 G = 0"
proof -
  have "{g \<in> G. tab1 0 g = None} = {}" using assms unfolding extends_def by blast
  then show ?thesis unfolding missing_def by (rule ssubst) simp
qed

lemma map_cpus_spec:
  assumes cfg: "cfg_ok C" and va: "0 < m \<longrightarrow> unat va div 4096 = p" and sz: "unat sz = 4096 * m" and p: "p + m \<le> 2 ^ 20"
  shows "cs \<noteq> [] \<Longrightarrow> set cs \<subseteq> {..< mc_num_cpu C} \<Longrightarrow> mmu_inv C tab st \<Longrightarrow> \<forall>g \<in> groups p m. clean C tab st g \<Longrightarrow>
    ram_good (missing tab (groups p m) + r) (mc_as C) (mm_ram st) \<Longrightarrow>
    \<exists>st' tab'. map_cpus cs C pa va sz st = Inr st' \<and> mmu_inv C tab' st' \<and> extends C tab tab' (groups p m) \<and>
      same_rest C st st' (groups p m) \<and> ram_good r (mc_as C) (mm_ram st') \<and> mapped_as C st st' p m pa"
proof (induction cs arbitrary: tab st)
  case (Cons c cs)
  have c: "c < mc_num_cpu C" and n: "0 < mc_num_cpu C" using Cons.prems(2) cfg by (auto simp: cfg_ok_def)
  have "\<exists>st' tab'. map_pages (Suc (unat sz)) C (l1_entry C st c (drop_bit 20 va AND NOT 3)) pa va sz st = Inr st' \<and>
      mmu_inv C tab' st' \<and> extends C tab tab' (groups p m) \<and> same_rest C st st' (groups p m) \<and>
      ram_good r (mc_as C) (mm_ram st') \<and> mapped_as C st st' p m pa"
  proof (rule map_pages_spec [OF cfg c _ Cons.prems(3-5) sz _ p])
    show "m < Suc (unat sz)" unfolding sz by simp
    show "0 < m \<longrightarrow> unat va div 4096 = p \<and> l1_entry C st c (drop_bit 20 va AND NOT 3) = l1_entry C st c (of_nat (4 * (p div 1024)))"
    proof
      assume "0 < m"
      with va have v: "unat va div 4096 = p" by simp
      then have "unat va div 2 ^ 22 = p div 1024" by (auto simp: div_mult2_eq [symmetric])
      with v group_index(1) [of va] show "unat va div 4096 = p \<and> l1_entry C st c (drop_bit 20 va AND NOT 3) = l1_entry C st c (of_nat (4 * (p div 1024)))"
        by simp
    qed
  qed
  then obtain st1 tab1 where M: "map_pages (Suc (unat sz)) C (l1_entry C st c (drop_bit 20 va AND NOT 3)) pa va sz st = Inr st1"
    "mmu_inv C tab1 st1" "extends C tab tab1 (groups p m)" "same_rest C st st1 (groups p m)"
    "ram_good r (mc_as C) (mm_ram st1)" "mapped_as C st st1 p m pa" by blast
  have run: "map_cpus (c # cs) C pa va sz st = map_cpus cs C pa va sz st1"
    unfolding map_cpus.simps M(1) by (simp add: bind_res_def)
  show ?case
  proof (cases "cs = []")
    case True
    then show ?thesis unfolding run using M by auto
  next
    case False
    have "\<exists>st' tab'. map_cpus cs C pa va sz st1 = Inr st' \<and> mmu_inv C tab' st' \<and> extends C tab1 tab' (groups p m) \<and>
        same_rest C st1 st' (groups p m) \<and> ram_good r (mc_as C) (mm_ram st') \<and> mapped_as C st1 st' p m pa"
    proof (rule Cons.IH [OF False _ M(2)])
      show "set cs \<subseteq> {..< mc_num_cpu C}" using Cons.prems(2) by simp
      show "\<forall>g \<in> groups p m. clean C tab1 st1 g" using Cons.prems(4) clean_made [OF _ M(3) _ n] by blast
      show "ram_good (missing tab1 (groups p m) + r) (mc_as C) (mm_ram st1)" using M(5) missing_made [OF M(3) n] by simp
    qed
    then obtain st' tab' where I: "map_cpus cs C pa va sz st1 = Inr st'" "mmu_inv C tab' st'" "extends C tab1 tab' (groups p m)"
      "same_rest C st1 st' (groups p m)" "ram_good r (mc_as C) (mm_ram st')" "mapped_as C st1 st' p m pa" by blast
    have "same_rest C st st' (groups p m)" using same_rest_trans [OF M(4) I(4)] by simp
    then show ?thesis
      unfolding run using I(1,2,5) extends_twice [OF M(3) I(3)] mapped_again [OF M(6) I(6)] by blast
  qed
qed simp

subsection \<open>arm_32_map\<close>

text \<open>The pages a range of \<open>sz\<close> bytes at \<open>paddr\<close> touches, and where it is mapped.\<close>

definition pages :: "u32 \<Rightarrow> u32 \<Rightarrow> nat" where
  "pages paddr sz = (unat sz + unat paddr mod 4096 + 4095) div 4096"

definition map_va :: "u32 \<Rightarrow> mmu \<Rightarrow> u32" where
  "map_va vaddr st = (if vaddr = NOT 0 then next_addr st else vaddr)"

text \<open>What a call needs: a place in the address space and memory for its tables.\<close>

definition map_ready :: "mmu_cfg \<Rightarrow> tables \<Rightarrow> mmu \<Rightarrow> u32 \<Rightarrow> u32 \<Rightarrow> u32 \<Rightarrow> nat \<Rightarrow> bool" where
  "map_ready C tab st vaddr paddr sz r \<longleftrightarrow>
     (let p = unat (map_va vaddr st) div 4096; m = pages paddr sz
      in mc_virtual C \<and> mmu_inv C tab st \<and> unat sz + unat paddr mod 4096 + 4095 < 2 ^ 32 \<and>
         p + m \<le> 2 ^ 20 \<and> (\<forall>g \<in> groups p m. clean C tab st g) \<and>
         ram_good (missing tab (groups p m) + r) (mc_as C) (mm_ram st))"

text \<open>What it leaves: the pages are mapped to the frames with the attributes, on every CPU.\<close>

definition map_done :: "mmu_cfg \<Rightarrow> mmu \<Rightarrow> u32 \<Rightarrow> u32 \<Rightarrow> u32 \<Rightarrow> u32 \<Rightarrow> mmu \<Rightarrow> bool" where
  "map_done C st vaddr paddr sz flags st' \<longleftrightarrow>
     (let p = unat (map_va vaddr st) div 4096
      in \<forall>c < mc_num_cpu C. \<forall>q < 2 ^ 20. q div 1024 \<noteq> pd_group C \<longrightarrow>
         translate C st' c q =
           (if p \<le> q \<and> q < p + pages paddr sz
            then Page (((paddr AND NOT 4095) + of_nat (q - p) * 4096) OR set_prot C 0 flags)
            else translate C st c q))"

text \<open>The fields the tables do not depend on may change.\<close>

lemma same_view:
  assumes 1: "CPU_L1_TABLE C st' = CPU_L1_TABLE C st" and 2: "L2_paddr st' = L2_paddr st"
    and 3: "rs_mem (mm_ram st') = rs_mem (mm_ram st)" and 4: "ram_list (mm_ram st') = ram_list (mm_ram st)"
  shows "mmu_inv C tab st' = mmu_inv C tab st" "clean C tab st' g = clean C tab st g" "translate C st' = translate C st"
proof -
  have L2: "CPU_L2_TABLE C st' = CPU_L2_TABLE C st" by (simp add: CPU_L2_TABLE_def fun_eq_iff 2)
  have P: "l1base C st' = l1base C st" "l2base C st' = l2base C st" by (simp_all only: l1base_def l2base_def 1 L2)
  then have P: "a1 C st' = a1 C st" "a2 C st' = a2 C st" "table_area C st' = table_area C st" "geom C st' = geom C st"
    "l1_entry C st' = l1_entry C st" "l2base C st' = l2base C st"
    by (simp_all only: a1_def a2_def table_area_def geom_def l1_entry_def fun_eq_iff 1 L2 simp_thms)
  have m: "mw st' = mw st" "rd st' = rd st" by (simp_all add: fun_eq_iff mw_def rd_def 3)
  have g: "group_ok C tab st' = group_ok C tab st" by (simp only: fun_eq_iff group_ok_def m P) simp
  show "mmu_inv C tab st' = mmu_inv C tab st" unfolding mmu_inv_def g P 4 ..
  show "clean C tab st' g = clean C tab st g" unfolding clean_def blank_group_def m P ..
  show "translate C st' = translate C st" by (intro ext) (unfold translate_def m P, rule refl)
qed

lemma next_addr_view:
  "mmu_inv C tab (st\<lparr>next_addr := a\<rparr>) = mmu_inv C tab st" "clean C tab (st\<lparr>next_addr := a\<rparr>) g = clean C tab st g"
  "translate C (st\<lparr>next_addr := a\<rparr>) = translate C st"
  by (rule same_view; simp add: CPU_L1_TABLE_def fun_eq_iff)+

text \<open>The call with its range in pages.\<close>

lemma arm_32_map_range:
  assumes cfg: "cfg_ok C" and ready: "map_ready C tab st vaddr paddr sz r"
  defines "p \<equiv> unat (map_va vaddr st) div 4096" and "m \<equiv> pages paddr sz"
  obtains st' tab' where
    "arm_32_map C vaddr paddr sz flags st = Inr (map_va vaddr st + (paddr AND 4095), st')"
    "mmu_inv C tab' st'" "ram_good r (mc_as C) (mm_ram st')" "extends C tab tab' (groups p m)"
    "same_rest C (if vaddr = NOT 0 then st\<lparr>next_addr := next_addr st + of_nat (4096 * m)\<rparr> else st) st' (groups p m)"
    "map_done C st vaddr paddr sz flags st'"
proof -
  note K = abi_okD [OF cfg]
  note R = ready [unfolded map_ready_def Let_def, folded p_def m_def]
  let ?va = "map_va vaddr st" and ?off = "paddr AND 4095" and ?pa = "paddr AND NOT 4095"
  define size1 where "size1 = ROUND (sz + ?off) 4096"
  define st1 where "st1 = (if vaddr = NOT 0 then st\<lparr>next_addr := next_addr st + size1\<rparr> else st)"
  have off: "unat ?off = unat paddr mod 4096" by (simp add: masks unat_and_mask)
  have "unat (sz + ?off) = unat sz + unat paddr mod 4096" using R off by (simp add: unat_word_ariths)
  then have size1: "unat size1 = 4096 * m"
    using R unat_ROUND [of "4096 :: u32" 12 "sz + ?off"] by (simp add: size1_def m_def pages_def)
  have va: "unat ?va div 4096 = p" by (simp add: p_def)
  have pa: "?pa AND mask 12 = 0" unfolding masks by (rule bit_word_eqI) (auto simp: bit_simps)
  have st1: "mmu_inv C tab st1" "\<forall>g \<in> groups p m. clean C tab st1 g" "ram_good (missing tab (groups p m) + r) (mc_as C) (mm_ram st1)"
    "translate C st1 = translate C st"
    using R by (simp_all add: st1_def next_addr_view)
  have "\<exists>st' tab'. map_cpus [0..<mc_num_cpu C] C (set_prot C ?pa flags) ?va size1 st1 = Inr st' \<and> mmu_inv C tab' st' \<and>
      extends C tab tab' (groups p m) \<and> same_rest C st1 st' (groups p m) \<and> ram_good r (mc_as C) (mm_ram st') \<and>
      mapped_as C st1 st' p m (set_prot C ?pa flags)"
    by (rule map_cpus_spec [OF cfg _ size1 _ _ _ st1(1-3)]) (use va R cfg in \<open>auto simp: cfg_ok_def\<close>)
  then obtain st' tab' where M: "map_cpus [0..<mc_num_cpu C] C (set_prot C ?pa flags) ?va size1 st1 = Inr st'"
    "mmu_inv C tab' st'" "extends C tab tab' (groups p m)" "same_rest C st1 st' (groups p m)" "ram_good r (mc_as C) (mm_ram st')"
    "mapped_as C st1 st' p m (set_prot C ?pa flags)" by blast
  show ?thesis
  proof (rule that [OF _ M(2,5,3)])
    have "arm_32_map C vaddr paddr sz flags st =
        bind_res (map_cpus [0..<mc_num_cpu C] C (set_prot C ?pa flags) ?va size1 st1) (\<lambda>st2. Inr (?va + ?off, st2))"
      using R by (simp add: arm_32_map_def Let_def K size1_def st1_def map_va_def)
    then show "arm_32_map C vaddr paddr sz flags st = Inr (?va + ?off, st')" unfolding M(1) by (simp add: bind_res_def)
    have s1: "size1 = of_nat (4096 * m)" by (metis size1 unat_of_nat_self)
    show "same_rest C (if vaddr = NOT 0 then st\<lparr>next_addr := next_addr st + of_nat (4096 * m)\<rparr> else st) st' (groups p m)"
      using M(4) unfolding st1_def unfolding s1 .
    show "map_done C st vaddr paddr sz flags st'"
      unfolding map_done_def Let_def p_def [symmetric] m_def [symmetric]
    proof (intro allI impI)
      fix c q assume q: "c < mc_num_cpu C" "q < (2 :: nat) ^ 20" "q div 1024 \<noteq> pd_group C"
      show "translate C st' c q = (if p \<le> q \<and> q < p + m then Page ((?pa + of_nat (q - p) * 4096) OR set_prot C 0 flags)
          else translate C st c q)"
        unfolding mapped_asD [OF M(6) q] prot_page(1,2) [OF cfg pa] st1(4) ..
    qed
  qed
qed

subsection \<open>elf_vaddr_to_paddr\<close>

text \<open>The walk by hand agrees with the walk of the MMU.\<close>

lemma elf_walk:
  assumes cfg: "cfg_ok C" and inv: "mmu_inv C tab st"
  shows "translate C st 0 (unat va div 4096) = Page w \<Longrightarrow> arm_32_elf_vaddr_to_paddr C va st = (w AND NOT 4095) + (va AND 4095)"
    "translate C st 0 (unat va div 4096) = Section e \<Longrightarrow> arm_32_elf_vaddr_to_paddr C va st = (e AND NOT 0xFFFFF) + (va AND 0xFFFFF)"
proof -
  note K = abi_okD [OF cfg]
  have n: "0 < mc_num_cpu C" using cfg by (simp add: cfg_ok_def)
  let ?p = "unat va div 4096"
  have p: "?p < 2 ^ 20" "?p div 1024 < 1024" "?p div 256 < 4096" using unat_u32_bound [of va] by (simp_all add: less_mult_imp_div_less)
  have "drop_bit 20 va = of_nat (?p div 256)"
    using p(3) by (simp add: word_unat_eq_iff unat_drop_bit unat_of_nat_small div_mult2_eq [symmetric])
  then have e: "rd st (l1_entry C st 0 (drop_bit 20 va)) = mw st (a1 C st 0 (?p div 256))"
    using l1_entry_unat [OF invD(1) [OF inv] n p(3)] by (simp add: mw_def) (metis unat_of_nat_self)
  define e0 where "e0 = mw st (a1 C st 0 (?p div 256))"
  note tr = translate_mw [OF invD(1) [OF inv] n p(1), folded e0_def]
  have sc: "ARM_PTP_SC (mc_abi C) AND 3 = 2" by (rule K(8))
  show "arm_32_elf_vaddr_to_paddr C va st = (e AND NOT 0xFFFFF) + (va AND 0xFFFFF)" if "translate C st 0 ?p = Section e"
  proof -
    have "e0 AND 3 = 2 \<and> e0 = e" using that unfolding tr Let_def pte_kind_def by (simp split: if_splits)
    then have "e0 = e" "e AND 3 = 2" by blast+
    then show ?thesis by (simp add: arm_32_elf_vaddr_to_paddr_def Let_def K sc e e0_def [symmetric])
  qed
  assume w: "translate C st 0 ?p = Page w"
  have "tab 0 (?p div 1024) \<noteq> None"
  proof
    assume "tab 0 (?p div 1024) = None"
    from translate_no_table [OF inv n p(1) this] w show False by (simp add: Let_def split: if_splits)
  qed
  then obtain t where t: "tab 0 (?p div 1024) = Some t" by blast
  note T = inv_table [OF inv n p(2) t]
  have "mw st (t + 4 * (?p mod 1024)) = w"
    using w translate_table [OF cfg inv n p(1) t] by (simp add: pte_kind_def split: if_splits)
  moreover have "rd st ((e0 AND NOT 4095) + 4 * l2_index (mc_abi C) va) = mw st (t + 4 * (?p mod 1024))"
  proof -
    note b = l1v_bits [OF cfg T(1,2) page_split(2)]
    have e0: "e0 = l1v C (of_nat t) (?p div 256 mod 4)"
      using T(3) [OF page_split(2) [of ?p]] page_split(1) [of ?p] by (simp add: e0_def)
    have "e0 AND NOT 4095 = (e0 AND NOT 1023) AND NOT 4095"
      unfolding masks by (rule bit_word_eqI) (auto simp: bit_simps)
    moreover have "(e0 AND NOT 1023) AND NOT 4095 = of_nat t"
    proof -
      obtain k where k: "t = 4096 * k" using T(1) ..
      have "(t + 1024 * (?p div 256 mod 4)) div 4096 = k"
        using page_split(2) [of ?p] unfolding k by (simp add: div_nat_eqI)
      then have "unat ((e0 AND NOT 1023) AND NOT 4095) = t"
        unfolding masks(3) unat_and_not_mask e0 b(2) using k by simp
      from arg_cong [OF this, of "of_nat :: nat \<Rightarrow> u32"] show ?thesis by (simp only: unat_of_nat_self)
    qed
    moreover have "l2_index (mc_abi C) va = of_nat (?p mod 1024)"
      by (simp add: word_unat_eq_iff l2_index_def K masks unat_and_mask unat_drop_bit unat_of_nat_small)
    ultimately have "(e0 AND NOT 4095) + 4 * l2_index (mc_abi C) va = of_nat (t + 4 * (?p mod 1024))"
      by (simp only: of_nat_add of_nat_mult of_nat_numeral)
    then show ?thesis by (simp add: mw_def)
  qed
  moreover have "e0 AND 3 = 1"
    using l1v_bits(1) [OF cfg T(1,2) page_split(2)] T(3) [OF page_split(2) [of ?p]] page_split(1) [of ?p] by (simp add: e0_def)
  ultimately show "arm_32_elf_vaddr_to_paddr C va st = (w AND NOT 4095) + (va AND 4095)"
    by (simp add: arm_32_elf_vaddr_to_paddr_def Let_def K sc e e0_def [symmetric])
qed

end
