(* ===== verification/ArmMmuInit.thy ===== *)
theory ArmMmuInit
  imports ArmMmuCorrect
begin

section \<open>The ARM page tables: set-up\<close>

text \<open>
  Making the page directory map itself (\<open>arm_pdmap\<close>) and mapping 1 MB by a section
  (\<open>arm_scmap\<close>): each keeps the invariant and changes the walk for its own pages only.
\<close>

subsection \<open>The page directory\<close>

lemma arm_pdmap_entered:
  assumes cfg: "cfg_ok C" and geo: "geom C st" and g: "g = unat va div 2 ^ 22"
  shows "entered C {0..<mc_num_cpu C} g (CPU_L2_TABLE C st) st (arm_pdmap C va st)"
proof -
  have "entered C {0..<k} g (CPU_L2_TABLE C st) st (fold (\<lambda>cpu st. map_ptbl_cpu C cpu (CPU_L2_TABLE C st cpu) va st) [0..<k] st)"
    if "k \<le> mc_num_cpu C" for k
    using that
  proof (induction k)
    case (Suc k)
    let ?st1 = "fold (\<lambda>cpu st. map_ptbl_cpu C cpu (CPU_L2_TABLE C st cpu) va st) [0..<k] st"
    have 1: "entered C {0..<k} g (CPU_L2_TABLE C st) st ?st1" using Suc by simp
    note P = same_frame_places [OF enteredD(1) [OF 1]]
    have "entered C {k} g (CPU_L2_TABLE C ?st1) ?st1 (map_ptbl_cpu C k (CPU_L2_TABLE C ?st1 k) va ?st1)"
      by (rule map_ptbl_cpu_entered [OF cfg _ _ g]) (use Suc.prems geo P(6) in simp_all)
    then have "entered C (insert k {0..<k}) g (CPU_L2_TABLE C st) st (map_ptbl_cpu C k (CPU_L2_TABLE C ?st1 k) va ?st1)"
      unfolding P(8) by (intro entered_insert [OF 1]) simp_all
    then show ?case by (simp add: atLeast0_lessThan_Suc)
  qed (simp add: entered_none)
  then show ?thesis unfolding arm_pdmap_def by simp
qed

text \<open>After it the tables are those of an empty address space with a page directory.\<close>

definition pd_tables :: "mmu_cfg \<Rightarrow> mmu \<Rightarrow> tables" where
  "pd_tables C st = (\<lambda>c g. if g = pd_group C then Some (l2base C st + c * 4096) else None)"

lemma arm_pdmap_inv:
  assumes cfg: "cfg_ok C" and geo: "geom C st"
    and blank: "\<forall>a \<in> table_area C st. 4 dvd a \<longrightarrow> a < 2 ^ 32 \<longrightarrow> mw st a = 0"
    and free: "covered (ram_list (mm_ram st)) \<inter> table_area C st = {}"
    and st': "st' = arm_pdmap C (ARM_PTP_BASE (mc_abi C)) st"
  shows "mmu_inv C (pd_tables C st) st'" "same_frame st st'"
    "\<And>g. g < 1024 \<Longrightarrow> g \<noteq> pd_group C \<Longrightarrow> clean C (pd_tables C st) st' g"
    "\<And>c p. c < mc_num_cpu C \<Longrightarrow> p < 2 ^ 20 \<Longrightarrow> p div 1024 \<noteq> pd_group C \<Longrightarrow> translate C st' c p = Fault"
proof -
  let ?t = "pd_tables C st"
  have zero: "mw st a = 0" if "a \<in> table_area C st" "4 dvd a" "a < 2 ^ 32" for a using blank that by blast
  have ent: "entered C {0..<mc_num_cpu C} (pd_group C) (CPU_L2_TABLE C st) st st'"
    unfolding st' by (rule arm_pdmap_entered [OF cfg geo]) (simp add: pd_group_def)
  note E = enteredD [OF ent]
  show fr: "same_frame st st'" by (rule E(1))
  note P = same_frame_places [OF fr, of C]
  have A1: "mw st' (a1 C st c j) = (if j div 4 = pd_group C then l1v C (CPU_L2_TABLE C st c) (j mod 4) else 0)"
    if "c < mc_num_cpu C" "j < 4096" for c j
    using E(2) [OF that] zero [OF a1_props(3,1,2) [OF geo that]] that(1) by simp
  have A2: "mw st' (a2 C st c (pd_group C)) = pdent C (CPU_L2_TABLE C st c)" if "c < mc_num_cpu C" for c
    using E(3) [OF that pd_group_less] that by simp
  have t: "4096 dvd l2base C st + c * 4096" "l2base C st + c * 4096 < 2 ^ 32" "of_nat (l2base C st + c * 4096) = CPU_L2_TABLE C st c"
    "page_set (l2base C st + c * 4096) \<subseteq> table_area C st" if c: "c < mc_num_cpu C" for c
  proof -
    have u: "unat (CPU_L2_TABLE C st c) = l2base C st + c * 4096" using geo c by (simp add: geom_def)
    then show "of_nat (l2base C st + c * 4096) = CPU_L2_TABLE C st c" by (metis unat_of_nat_self)
    show "l2base C st + c * 4096 < 2 ^ 32" using unat_u32_bound [of "CPU_L2_TABLE C st c"] u by simp
    show "4096 dvd l2base C st + c * 4096" using geo by (simp add: geom_def)
    have "c * 4096 + 4096 \<le> mc_num_cpu C * 4096" using mult_le_mono1 [of "Suc c" "mc_num_cpu C" 4096] c by simp
    then show "page_set (l2base C st + c * 4096) \<subseteq> table_area C st" by (auto simp: page_set_def table_area_def)
  qed
  have gr: "group_ok C ?t st' c g" if c: "c < mc_num_cpu C" and g: "g < 1024" for c g
  proof (cases "g = pd_group C")
    case True
    have "mw st' (a1 C st c (4 * g + i)) = l1v C (CPU_L2_TABLE C st c) i" if "i < 4" for i
      using A1 [OF c, of "4 * g + i"] g that True by simp
    then show ?thesis using True A2 [OF c] t [OF c] by (simp add: group_ok_def pd_tables_def P del: of_nat_add of_nat_mult)
  next
    case False
    have "mw st' (a1 C st c (4 * g + i)) = 0" if "i < 4" for i using A1 [OF c, of "4 * g + i"] g that False by simp
    then show ?thesis using False by (simp add: group_ok_def pd_tables_def P)
  qed
  have rl: "ram_list (mm_ram st') = ram_list (mm_ram st)" using fr by (simp add: same_frame_def)
  show inv: "mmu_inv C ?t st'"
    unfolding mmu_inv_def P rl
  proof (intro conjI allI impI)
    show "geom C st" by (rule geo)
    show "group_ok C ?t st' c g" if "c < mc_num_cpu C" "g < 1024" for c g by (rule gr [OF that])
    show "?t c (pd_group C) = Some (l2base C st + c * 4096)" for c by (simp add: pd_tables_def)
    show "covered (ram_list (mm_ram st)) \<inter> table_area C st = {}" by (rule free)
    show "page_set x \<inter> table_area C st = {}" if "g \<noteq> pd_group C" "?t c g = Some x" for c g x
      using that by (simp add: pd_tables_def)
    show "g = h" if "?t c g = Some x" "?t d h = Some x" for c d g h x
      using that by (simp add: pd_tables_def split: if_splits)
    show "covered (ram_list (mm_ram st)) \<inter> page_set x = {}" if "c < mc_num_cpu C" "?t c g = Some x" for c g x
      using that t(4) [OF that(1)] free by (auto simp: pd_tables_def split: if_splits)
  qed
  show "clean C ?t st' g" if g: "g < 1024" "g \<noteq> pd_group C" for g
  proof -
    have "mw st' (a1 C st c (4 * g + i)) = 0" if "c < mc_num_cpu C" "i < 4" for c i
      using A1 [OF that(1), of "4 * g + i"] g that by simp
    then show ?thesis using g by (simp add: clean_def pd_tables_def blank_group_def P)
  qed
  show "translate C st' c p = Fault" if c: "c < mc_num_cpu C" and p: "p < 2 ^ 20" and n: "p div 1024 \<noteq> pd_group C" for c p
  proof -
    have h: "p div 256 < 4096" using p by (simp add: less_mult_imp_div_less)
    have "p div 256 div 4 = p div 1024" by (simp add: div_mult2_eq [symmetric])
    then have "mw st' (a1 C st c (p div 256)) = 0" using A1 [OF c h] n by simp
    moreover have "?t c (p div 1024) = None" using n by (simp add: pd_tables_def)
    ultimately show ?thesis using translate_no_table [OF inv c p] by (simp add: P)
  qed
qed

subsection \<open>Sections\<close>

text \<open>A section entry for the MB at \<open>va\<close>, in a 4 MB without tables.\<close>

definition section_prot :: "mmu_cfg \<Rightarrow> u32 \<Rightarrow> u32" where
  "section_prot C flags =
     (let p = (if flags AND ARM_PTE_RW (mc_abi C) \<noteq> 0 then kscn_rw (mc_pte C) else kscn_ro (mc_pte C))
      in if flags AND ARM_PTE_CB (mc_abi C) \<noteq> 0 then p OR kscn_cb (mc_pte C) else p)"

lemma section_entry:
  assumes "cfg_ok C" and "pa AND mask 20 = 0"
  shows "(pa OR section_prot C f) AND 3 = 2" "(pa OR section_prot C f) AND NOT 0xFFFFF = pa"
proof -
  let ?P = "mc_pte C"
  have P: "kscn_ro ?P AND NOT (mask 20) = 0" "kscn_rw ?P AND NOT (mask 20) = 0" "kscn_cb ?P AND NOT (mask 20) = 0"
    "kscn_ro ?P AND 3 = 2" "kscn_rw ?P AND 3 = 2" "kscn_cb ?P AND 3 = 0"
    using assms(1) unfolding cfg_ok_def pte_ok_def by blast+
  have d: "(x OR y) AND z = (x AND z) OR (y AND z)" for x y z :: u32 by (rule bit.conj_disj_distrib2)
  have s: "section_prot C f AND NOT (mask 20) = 0" "section_prot C f AND 3 = 2"
    unfolding section_prot_def Let_def by (simp_all only: d P if_distrib [of "\<lambda>x. x AND _"] if_cancel or.right_neutral)
  have "pa AND 3 = (pa AND mask 20) AND 3" by (rule bit_word_eqI) (auto simp: bit_simps masks)
  then show "(pa OR section_prot C f) AND 3 = 2" unfolding d s assms(2) by simp
  show "(pa OR section_prot C f) AND NOT 0xFFFFF = pa" unfolding masks(4) by (rule or_low(1) [OF assms(2) s(1)])
qed

text \<open>One first-level entry of every CPU is written.\<close>

lemma l1_all:
  assumes geo: "geom C st" and j: "j < 4096" and k: "k \<le> mc_num_cpu C"
    and st': "st' = fold (\<lambda>cpu st. wr (l1_entry C st cpu (of_nat j)) v st) [0..<k] st"
  shows "same_frame st st'"
    "\<And>a. 4 dvd a \<Longrightarrow> a < 2 ^ 32 \<Longrightarrow> mw st' a = (if \<exists>c < k. a = a1 C st c j then v else mw st a)"
proof -
  have "same_frame st st' \<and> (\<forall>a. 4 dvd a \<longrightarrow> a < 2 ^ 32 \<longrightarrow> mw st' a = (if \<exists>c < k. a = a1 C st c j then v else mw st a))"
    using k st'
  proof (induction k arbitrary: st')
    case (Suc k)
    define st1 where "st1 = fold (\<lambda>cpu st. wr (l1_entry C st cpu (of_nat j)) v st) [0..<k] st"
    have c: "k < mc_num_cpu C" using Suc.prems(1) by simp
    have I: "same_frame st st1" "\<And>a. 4 dvd a \<Longrightarrow> a < 2 ^ 32 \<Longrightarrow> mw st1 a = (if \<exists>c < k. a = a1 C st c j then v else mw st a)"
      using Suc.IH [OF _ st1_def] Suc.prems(1) by auto
    have e: "unat (l1_entry C st k (of_nat j)) = a1 C st k j" by (rule l1_entry_unat [OF geo c j])
    have w: "mw (wr (l1_entry C st k (of_nat j)) v st1) a = (if a = a1 C st k j then v else mw st1 a)" if "4 dvd a" "a < 2 ^ 32" for a
      using mw_wr [OF _ that, of "l1_entry C st k (of_nat j)"] a1_props(1) [OF geo c j] e by simp
    have s: "st' = wr (l1_entry C st k (of_nat j)) v st1"
      using Suc.prems(2) same_frame_places(9) [OF I(1), of C] by (simp add: st1_def)
    show ?case
      unfolding s using same_frame_trans [OF I(1) same_frame_wr] w I(2) by (auto simp: less_Suc_eq)
  qed simp
  then show "same_frame st st'"
    "\<And>a. 4 dvd a \<Longrightarrow> a < 2 ^ 32 \<Longrightarrow> mw st' a = (if \<exists>c < k. a = a1 C st c j then v else mw st a)" by blast+
qed

lemma l1_put:
  assumes cfg: "cfg_ok C" and inv: "mmu_inv C tab st" and j: "j < 4096"
    and no_table: "\<forall>c < mc_num_cpu C. tab c (j div 4) = None" and v: "v AND 3 \<noteq> 1"
    and st': "st' = fold (\<lambda>cpu st. wr (l1_entry C st cpu (of_nat j)) v st) [0..<mc_num_cpu C] st"
  shows "mmu_inv C tab st'" "same_frame st st'"
    "\<And>c p. c < mc_num_cpu C \<Longrightarrow> p < 2 ^ 20 \<Longrightarrow> translate C st' c p =
      (if p div 256 = j then if v AND 3 = 2 then Section v else Fault else translate C st c p)"
    "\<And>g. g \<noteq> j div 4 \<Longrightarrow> clean C tab st g \<Longrightarrow> clean C tab st' g"
proof -
  note geo = invD(1) [OF inv]
  have none: "tab c (j div 4) = None" if "c < mc_num_cpu C" for c using no_table that by blast
  note L = l1_all [OF geo j order_refl st']
  show fr: "same_frame st st'" by (rule L(1))
  note P = same_frame_places [OF fr, of C]
  have A1: "mw st' (a1 C st c i) = (if i = j then v else mw st (a1 C st c i))" if "c < mc_num_cpu C" "i < 4096" for c i
    using L(2) [OF a1_props(1,2) [OF geo that]] that a1_inj [of C st c i _ j] j by auto
  have A2: "mw st' (a2 C st c i) = mw st (a2 C st c i)" if "c < mc_num_cpu C" "i < 1024" for c i
  proof -
    have "\<not> (\<exists>d < mc_num_cpu C. a2 C st c i = a1 C st d j)" using a1_a2 [OF geo _ j that] by metis
    then show ?thesis unfolding L(2) [OF a2_props(1,2) [OF geo that]] by (rule if_not_P)
  qed
  have out: "mw st' a = mw st a" if "4 dvd a" "a < 2 ^ 32" "a \<notin> table_area C st" for a
    using L(2) [OF that(1,2)] that(3) a1_props(3) [OF geo _ j] by auto
  have rl: "ram_list (mm_ram st') = ram_list (mm_ram st)" using fr by (simp add: same_frame_def)
  have gr: "group_ok C tab st' c g" if c: "c < mc_num_cpu C" and g: "g < 1024" for c g
  proof (cases "tab c g")
    case None
    have "mw st' (a1 C st c (4 * g + i)) AND 3 \<noteq> 1" if "i < 4" for i
      using A1 [OF c, of "4 * g + i"] invD(2) [OF inv c g] None g that v by (simp add: group_ok_def)
    then show ?thesis using None by (simp add: group_ok_def P)
  next
    case (Some t)
    then have "g \<noteq> j div 4" using none [OF c] by auto
    then have "4 * g + i \<noteq> j" if "i < 4" for i using that by auto
    then have "mw st' (a1 C st c (4 * g + i)) = mw st (a1 C st c (4 * g + i))" if "i < 4" for i
      using A1 [OF c, of "4 * g + i"] g that by simp
    then show ?thesis using invD(2) [OF inv c g] Some A2 [OF c g] by (simp add: group_ok_def P)
  qed
  show inv': "mmu_inv C tab st'"
    unfolding mmu_inv_def P rl by (intro conjI allI impI; (rule gr invD [OF inv]; assumption)?)
  show "translate C st' c p = (if p div 256 = j then if v AND 3 = 2 then Section v else Fault else translate C st c p)"
    if c: "c < mc_num_cpu C" and p: "p < 2 ^ 20" for c p
  proof -
    have h: "p div 256 < 4096" "p div 1024 < 1024" using p by (simp_all add: less_mult_imp_div_less)
    have q: "p div 1024 = p div 256 div 4" by (simp add: div_mult2_eq [symmetric])
    show ?thesis
    proof (cases "p div 256 = j")
      case True
      then have "tab c (p div 1024) = None" using none [OF c] q by simp
      then show ?thesis using translate_no_table [OF inv' c p] A1 [OF c h(1)] True by (simp add: P Let_def)
    next
      case False
      have "translate C st' c p = translate C st c p"
      proof (rule translate_cong [OF cfg inv inv' c p refl])
        show "mw st' (a1 C st' c (p div 256)) = mw st (a1 C st c (p div 256))" using A1 [OF c h(1)] False by (simp add: P)
      next
        fix t assume t: "tab c (p div 1024) = Some t"
        have m: "p mod 1024 < 1024" by simp
        note T = inv_table [OF inv c h(2) t]
        note te = table_entry [OF T(1,5) m]
        show "mw st' (t + 4 * (p mod 1024)) = mw st (t + 4 * (p mod 1024))"
        proof (cases "p div 1024 = pd_group C")
          case True
          then have "t + 4 * (p mod 1024) = a2 C st c (p mod 1024)" using t invD(3) [OF inv c] by (simp add: a2_def)
          then show ?thesis using A2 [OF c m] by simp
        next
          case False
          then show ?thesis using out [OF te(1,2)] te(3) invD(4) [OF inv c h(2) False t] by blast
        qed
      qed
      then show ?thesis using False by simp
    qed
  qed
  show "clean C tab st' g" if g: "g \<noteq> j div 4" and cl: "clean C tab st g" for g
  proof -
    note d = cleanD [OF cl]
    show ?thesis
      unfolding clean_def
    proof (intro conjI allI impI)
      assume "tab 0 g = None"
      then have b: "blank_group C st g" by (rule d(4))
      have "mw st' (a1 C st c (4 * g + i)) AND 3 = 0" if "c < mc_num_cpu C" "i < 4" for c i
      proof -
        have "4 * g + i \<noteq> j" using g that(2) by auto
        then show ?thesis using A1 [OF that(1), of "4 * g + i"] d(1) that b by (simp add: blank_group_def)
      qed
      then show "blank_group C st' g" by (simp add: blank_group_def P)
    qed (rule d; assumption?)+
  qed
qed

lemma section_index: "drop_bit 20 va = of_nat (unat va div 2 ^ 20)" "unat va div 2 ^ 20 < 4096" for va :: u32
proof -
  show *: "unat va div 2 ^ 20 < 4096" using unat_u32_bound [of va] by (simp add: less_mult_imp_div_less)
  then show "drop_bit 20 va = of_nat (unat va div 2 ^ 20)"
    by (simp add: word_unat_eq_iff unat_drop_bit unat_of_nat_small)
qed

lemma arm_scmap_put:
  "arm_scmap C va pa f st = fold (\<lambda>cpu st. wr (l1_entry C st cpu (of_nat (unat va div 2 ^ 20))) (pa OR section_prot C f) st)
     [0..<mc_num_cpu C] st"
  unfolding arm_scmap_def Let_def section_prot_def section_index(1) ..

lemma arm_scunmap_put:
  "arm_scunmap C va st = fold (\<lambda>cpu st. wr (l1_entry C st cpu (of_nat (unat va div 2 ^ 20))) 0 st) [0..<mc_num_cpu C] st"
  unfolding arm_scunmap_def section_index(1) ..

lemma arm_scmap_spec:
  assumes "cfg_ok C" and "mmu_inv C tab st" and "\<forall>c < mc_num_cpu C. tab c (unat va div 2 ^ 22) = None" and "pa AND mask 20 = 0"
  shows "mmu_inv C tab (arm_scmap C va pa f st)" "same_frame st (arm_scmap C va pa f st)"
    "\<And>c p. c < mc_num_cpu C \<Longrightarrow> p < 2 ^ 20 \<Longrightarrow> translate C (arm_scmap C va pa f st) c p =
      (if p div 256 = unat va div 2 ^ 20 then Section (pa OR section_prot C f) else translate C st c p)"
    "\<And>g. g \<noteq> unat va div 2 ^ 22 \<Longrightarrow> clean C tab st g \<Longrightarrow> clean C tab (arm_scmap C va pa f st) g"
proof -
  have d: "unat va div 2 ^ 20 div 4 = unat va div 2 ^ 22" by (simp add: div_mult2_eq [symmetric])
  note e = section_entry [OF assms(1,4), of f]
  have none: "\<forall>c < mc_num_cpu C. tab c (unat va div 2 ^ 20 div 4) = None" unfolding d by (rule assms(3))
  have v: "(pa OR section_prot C f) AND 3 \<noteq> 1" unfolding e(1) by simp
  note L = l1_put [OF assms(1,2) section_index(2) none v arm_scmap_put [of C va pa f st]]
  show "mmu_inv C tab (arm_scmap C va pa f st)" "same_frame st (arm_scmap C va pa f st)" by (rule L(1)) (rule L(2))
  show "translate C (arm_scmap C va pa f st) c p =
      (if p div 256 = unat va div 2 ^ 20 then Section (pa OR section_prot C f) else translate C st c p)"
    if "c < mc_num_cpu C" "p < 2 ^ 20" for c p
    using L(3) [OF that] unfolding e(1) by simp
  show "clean C tab (arm_scmap C va pa f st) g" if "g \<noteq> unat va div 2 ^ 22" "clean C tab st g" for g
    by (rule L(4)) (use that d in simp_all)
qed

end
