(* ===== verification/ArmBoot.thy ===== *)
theory ArmBoot
  imports ArmMmu
begin

section \<open>The callers of the ARM page tables\<close>

text \<open>
  \<open>startup/lib/arm/init_mmu.c\<close> makes the tables, \<open>elf_map.c\<close> maps the segments of the
  bootstrap executables, \<open>map_callout_io.c\<close>, \<open>map_callout_io_armv7_dev.c\<close> and
  \<open>map_callout_mem.c\<close> map what the callouts use. Physical addresses have 32 bits.
\<close>

subsection \<open>Sections one after the other\<close>

text \<open>
  The loops of \<open>map_1to1_ram\<close> and \<open>elf_map\<close> count the size down by \<open>ARM_SCSIZE\<close> and end at zero:
  one more round than the size is fuel enough where the size is a multiple of \<open>ARM_SCSIZE\<close>.
\<close>

primrec scmap_range :: "nat \<Rightarrow> mmu_cfg \<Rightarrow> u32 \<Rightarrow> u32 \<Rightarrow> u32 \<Rightarrow> u32 \<Rightarrow> mmu \<Rightarrow> mmu res" where
  "scmap_range 0 C va pa flags sz st = undef"
| "scmap_range (Suc fuel) C va pa flags sz st =
     (if sz = 0 then Inr st
      else let n = ARM_SCSIZE (mc_abi C)
           in scmap_range fuel C (va + n) (pa + n) flags (sz - n) (arm_scmap C va pa flags st))"

subsection \<open>init_mmu.c\<close>

text \<open>
  The largest RAM bank of the address space section; \<open>as_find\<close> goes on behind the entry it is
  given, so the search ends.
\<close>

lemma as_find_progress: "as_find off names s = Inr (Some i) \<Longrightarrow> (case off of None \<Rightarrow> 0 | Some p \<Rightarrow> Suc p) \<le> i \<and> i < length (sp_asinfo s)"
proof -
  have "as_find_from s path k = Inr (Some i) \<Longrightarrow> k \<le> i \<and> i < length (sp_asinfo s)" for path k
    by (induction s path k rule: as_find_from.induct)
      (subst (asm) as_find_from.simps, fastforce split: if_splits sum.splits)
  then show "as_find off names s = Inr (Some i) \<Longrightarrow> (case off of None \<Rightarrow> 0 | Some p \<Rightarrow> Suc p) \<le> i \<and> i < length (sp_asinfo s)"
    by (auto simp: as_find_def split: if_splits)
qed

function largest_ram :: "lsp \<Rightarrow> nat option \<Rightarrow> u32 \<Rightarrow> u32 \<Rightarrow> (u32 \<times> u32) res" where
  "largest_ram s off base size0 =
     (case as_find off [''ram''] s of
        Inl e \<Rightarrow> Inl e
      | Inr None \<Rightarrow> Inr (base, size0)
      | Inr (Some i) \<Rightarrow>
          let as = sp_asinfo s ! i; sz = ucast (as_end as - as_start as + 1) :: u32
          in if size0 < sz then largest_ram s (Some i) (ucast (as_start as)) sz
             else largest_ram s (Some i) base size0)"
  by pat_completeness auto
termination
  by (relation "measure (\<lambda>(s, off, b, z). length (sp_asinfo s) - (case off of None \<Rightarrow> 0 | Some p \<Rightarrow> Suc p))")
    (auto dest!: as_find_progress split: option.splits)

declare largest_ram.simps [simp del]

definition map_1to1_ram :: "mmu_cfg \<Rightarrow> mmu \<Rightarrow> mmu res" where
  "map_1to1_ram C st =
     (let K = mc_abi C
      in bind_res (largest_ram (rs_lsp (mm_ram st)) None 0 0) (\<lambda>(base, size0).
         if size0 = 0 then Inl ''no ram entry in asinfo?''
         else if base AND ARM_SCMASK K \<noteq> 0 then Inr st
         else
           let size1 = (if size0 > ARM_1TO1_SIZE K then ARM_1TO1_SIZE K else size0);
               size2 = (size1 + ARM_SCMASK K) AND NOT (ARM_SCMASK K)
           in bind_res (as_default (mc_as C) 32 (rs_lsp (mm_ram st))) (\<lambda>(owner, s1).
              bind_res (as_add (mc_as C) base (base + size2 - 1) (AS_ATTR_RAM (mc_as C)) ''1to1'' (Some owner) s1) (\<lambda>(_, s2).
              scmap_range (Suc (unat size2)) C (ARM_1TO1_BASE K) base (ARM_PTE_RW K OR ARM_PTE_CB K) size2
                (st\<lparr>mm_ram := (mm_ram st)\<lparr>rs_lsp := s2\<rparr>\<rparr>)))))"

text \<open>The one-to-one sections of the startup code itself.\<close>

primrec startup_sections :: "nat \<Rightarrow> mmu_cfg \<Rightarrow> u32 \<Rightarrow> u32 \<Rightarrow> mmu \<Rightarrow> mmu res" where
  "startup_sections 0 C base end st = undef"
| "startup_sections (Suc fuel) C base end st =
     (if base < end
      then startup_sections fuel C (base + ARM_SCSIZE (mc_abi C)) end (arm_scmap C base base (ARM_PTE_RO (mc_abi C)) st)
      else Inr st)"

text \<open>
  What \<open>init_mmu_32\<close> leaves in file-level variables: the descriptors in use and the startup area,
  with the address \<open>L1_vaddr\<close> the first-level tables are mapped at, and in the CPU's section.
\<close>

record mmu_vars =
  mv_cfg :: mmu_cfg
  mv_cpu :: arm_cpu
  L1_vaddr :: u32
  startup_base :: u32
  startup_size :: u32

definition init_mmu_32 ::
  "mmu_cfg \<Rightarrow> armv_pte option \<Rightarrow> armv_chip option \<Rightarrow> char option \<Rightarrow> startup_header \<Rightarrow> mmu \<Rightarrow> (mmu_vars \<times> mmu) res" where
  "init_mmu_32 C0 board_pte chip altpte shdr st =
     (let K = mc_abi C0; ncpu = of_nat (mc_num_cpu C0) :: u32;
          L1size = ncpu * ARM_L1_SIZE K; L2_size = ncpu * PAGESIZE K
      in bind_res (arm_pte_setup K board_pte chip altpte) (\<lambda>(pte, v6, cpu).
         case chip of None \<Rightarrow> undef
         | Some ch \<Rightarrow>
           let C = C0\<lparr>mc_pte := pte, mc_v6 := v6, mc_chip := ch\<rparr>
           in bind_res (calloc_ram (mc_as C) L1size (ARM_L1_SIZE K) (mm_ram st)) (\<lambda>(l1, ram1).
              bind_res (calloc_ram (mc_as C) L2_size (PAGESIZE K) ram1) (\<lambda>(l2, ram2).
              if l1 = NULL_PADDR \<or> l2 = NULL_PADDR then undef
              else
                let st1 = arm_pdmap C (ARM_PTP_BASE K) (st\<lparr>mm_ram := ram2, L1_paddr := l1, L2_paddr := l2\<rparr>)
                in bind_res (arm_map C (NOT 0) (L1_paddr st1) L1size
                     (ARM_MAP_NOEXEC OR ARM_PTE_RW K OR ucast (ch_pte_attr ch)) st1) (\<lambda>(l1v, st2).
                   let st3 = st2\<lparr>L1_paddr := L1_paddr st2 OR ucast (ch_ttb_attr ch)\<rparr>;
                       base = sh_ram_paddr shdr AND NOT (ARM_SCMASK K); size = sh_ram_size shdr
                   in bind_res (startup_sections (Suc (unat size)) C base (base + size) st3) (\<lambda>st4.
                      bind_res (map_1to1_ram C st4) (\<lambda>st5.
                      Inr (\<lparr>mv_cfg = C, mv_cpu = cpu, L1_vaddr = l1v, startup_base = base, startup_size = size\<rparr>, st5))))))))"

definition init_mmu ::
  "mmu_cfg \<Rightarrow> armv_pte option \<Rightarrow> armv_chip option \<Rightarrow> char option \<Rightarrow> startup_header \<Rightarrow> mmu \<Rightarrow> (mmu_vars \<times> mmu) res" where
  "init_mmu = init_mmu_32"

subsection \<open>elf_map.c\<close>

text \<open>
  The static variables of \<open>elf_map\<close>: how many load segments were mapped by sections (-1 once
  pages are used), and the segments.
\<close>

record elf_segment =
  es_va :: u32
  es_pa :: u32
  es_sz :: u32
  es_fl :: u32

record elf_maps =
  em_phdr :: int
  em_segs :: "elf_segment list"

definition MAX_PHDR :: int where "MAX_PHDR = 2"

primrec map_segments :: "mmu_cfg \<Rightarrow> elf_segment list \<Rightarrow> mmu \<Rightarrow> mmu res" where
  "map_segments C [] st = Inr st"
| "map_segments C (s # segs) st =
     bind_res (arm_map C (es_va s) (es_pa s) (es_sz s) (es_fl s) st) (\<lambda>(_, st1). map_segments C segs st1)"

definition elf_flags :: "arm_abi \<Rightarrow> u32 \<Rightarrow> u32 \<Rightarrow> u32" where
  "elf_flags K PF_W flags = (if flags AND PF_W \<noteq> 0 then ARM_PTE_RW K OR ARM_PTE_CB K else ARM_PTE_RO K OR ARM_PTE_CB K)"

definition elf_by_pages :: "arm_abi \<Rightarrow> u32 \<Rightarrow> u32 \<Rightarrow> elf_maps \<Rightarrow> bool" where
  "elf_by_pages K vaddr paddr em \<longleftrightarrow> vaddr AND ARM_SCMASK K \<noteq> paddr AND ARM_SCMASK K \<or>
     em_phdr em \<noteq> 0 \<and> (em_phdr em = -1 \<or>
       (let s = em_segs em ! nat (em_phdr em - 1) in es_pa s + es_sz s \<noteq> paddr))"

definition elf_map :: "u32 \<Rightarrow> mmu_cfg \<Rightarrow> u32 \<Rightarrow> u32 \<Rightarrow> u32 \<Rightarrow> u32 \<Rightarrow> elf_maps \<Rightarrow> mmu \<Rightarrow> (elf_maps \<times> mmu) res" where
  "elf_map PF_W C vaddr paddr sz flags em st =
     (let K = mc_abi C; SCM = ARM_SCMASK K; fl = elf_flags K PF_W flags
      in if elf_by_pages K vaddr paddr em
         then let segs = take (nat (em_phdr em)) (em_segs em)
              in bind_res (map_segments C (segs @ [\<lparr>es_va = vaddr, es_pa = paddr, es_sz = sz, es_fl = fl\<rparr>])
                    (fold (\<lambda>s. arm_scunmap C (es_va s)) segs st)) (\<lambda>st1.
                  Inr (em\<lparr>em_phdr := -1\<rparr>, st1))
         else if em_phdr em = MAX_PHDR then Inl ''bootstrap has too many load segments''
         else
           let em1 = \<lparr>em_phdr = em_phdr em + 1,
                      em_segs = (em_segs em)[nat (em_phdr em) := \<lparr>es_va = vaddr, es_pa = paddr, es_sz = sz, es_fl = fl\<rparr>]\<rparr>;
               size1 = (sz + (vaddr AND SCM) + SCM) AND NOT SCM
           in bind_res (scmap_range (Suc (unat size1)) C (vaddr AND NOT SCM) (paddr AND NOT SCM)
                  (ARM_PTE_RW K OR ARM_PTE_CB K) size1 st) (\<lambda>st1. Inr (em1, st1)))"

subsection \<open>Mappings for the callouts\<close>

text \<open>The bits of \<open><sys/mman.h>\<close> are parameters, as is \<open>ARM_PTE_B\<close>.\<close>

record mman_abi =
  PROT_WRITE :: u32
  PROT_USER :: u32
  PROT_NOCACHE :: u32
  PROT_EXEC :: u32

definition callout_io_map :: "mmu_cfg \<Rightarrow> u32 \<Rightarrow> u32 \<Rightarrow> mmu \<Rightarrow> (u32 \<times> mmu) res" where
  "callout_io_map C sz phys st = arm_map C (NOT 0) phys sz (ARM_PTE_RW (mc_abi C) OR ARM_MAP_NOEXEC) st"

definition callout_io_map_armv7_dev :: "u32 \<Rightarrow> mmu_cfg \<Rightarrow> u32 \<Rightarrow> u32 \<Rightarrow> mmu \<Rightarrow> (u32 \<times> mmu) res" where
  "callout_io_map_armv7_dev ARM_PTE_B C sz phys st =
     arm_map C (NOT 0) phys sz (ARM_PTE_RW (mc_abi C) OR ARM_MAP_NOEXEC OR ARM_PTE_B) st"

definition callout_memory_map :: "mman_abi \<Rightarrow> mmu_cfg \<Rightarrow> u32 \<Rightarrow> u32 \<Rightarrow> u32 \<Rightarrow> mmu \<Rightarrow> (u32 \<times> mmu) res" where
  "callout_memory_map P C sz phys prot_flags st =
     (let K = mc_abi C;
          pf0 = ARM_PTE_RO K OR ARM_PTE_CB K;
          pf1 = (if prot_flags AND PROT_WRITE P \<noteq> 0 then pf0 OR ARM_PTE_RW K else pf0);
          pf2 = (if prot_flags AND PROT_USER P \<noteq> 0 then pf1 OR ARM_PTE_U K else pf1);
          pf3 = (if prot_flags AND PROT_NOCACHE P \<noteq> 0 then pf2 AND NOT (ARM_PTE_CB K) else pf2);
          pf4 = (if prot_flags AND PROT_EXEC P = 0 then pf3 OR ARM_MAP_NOEXEC else pf3)
      in arm_map C (NOT 0) phys sz pf4 st)"

end
