(* ===== verification/ArmBootSpec.thy ===== *)
theory ArmBootSpec
  imports ArmMmuInit ArmBoot
begin

section \<open>The callers of the ARM page tables: what they set up\<close>

text \<open>
  The loops of \<open>init_mmu.c\<close> over sections, as one range of sections (\<open>sections_at\<close>).
\<close>

subsection \<open>Ranges of sections\<close>

definition no_tables :: "mmu_cfg \<Rightarrow> tables \<Rightarrow> nat \<Rightarrow> nat \<Rightarrow> bool" where
  "no_tables C tab j n \<longleftrightarrow> (\<forall>i. j \<le> i \<and> i < j + n \<longrightarrow> (\<forall>c < mc_num_cpu C. tab c (i div 4) = None))"

definition sections_at :: "mmu_cfg \<Rightarrow> mmu \<Rightarrow> mmu \<Rightarrow> nat \<Rightarrow> nat \<Rightarrow> u32 \<Rightarrow> u32 \<Rightarrow> bool" where
  "sections_at C st st' j n pa f \<longleftrightarrow> (\<forall>c < mc_num_cpu C. \<forall>p < 2 ^ 20. translate C st' c p =
     (if j \<le> p div 256 \<and> p div 256 < j + n then Section ((pa + of_nat (p div 256 - j) * 0x100000) OR section_prot C f)
      else translate C st c p))"

lemma sections_atD:
  "sections_at C st st' j n pa f \<Longrightarrow> c < mc_num_cpu C \<Longrightarrow> p < 2 ^ 20 \<Longrightarrow> translate C st' c p =
    (if j \<le> p div 256 \<and> p div 256 < j + n then Section ((pa + of_nat (p div 256 - j) * 0x100000) OR section_prot C f)
     else translate C st c p)"
  by (simp add: sections_at_def)

lemma sections_none: "sections_at C st st j 0 pa f"
  unfolding sections_at_def by auto

lemma sections_step:
  assumes 1: "\<And>c p. c < mc_num_cpu C \<Longrightarrow> p < 2 ^ 20 \<Longrightarrow> translate C st1 c p =
      (if p div 256 = j then Section (pa OR section_prot C f) else translate C st c p)"
    and 2: "sections_at C st1 st2 (Suc j) n (pa + 0x100000) f"
  shows "sections_at C st st2 j (Suc n) pa f"
  unfolding sections_at_def
proof (intro allI impI)
  fix c p assume cp: "c < mc_num_cpu C" "p < (2 :: nat) ^ 20"
  have s: "(pa + 0x100000) + of_nat (q - Suc j) * 0x100000 = pa + of_nat (q - j) * (0x100000 :: u32)" if "Suc j \<le> q" for q
  proof -
    have "q - j = Suc (q - Suc j)" using that by simp
    then have "(of_nat (q - j) :: u32) = 1 + of_nat (q - Suc j)" by (simp only: of_nat_Suc)
    then show ?thesis by (simp only: distrib_right mult_1 add.assoc)
  qed
  consider "p div 256 = j" | "Suc j \<le> p div 256" "p div 256 < Suc j + n" | "p div 256 < j \<or> Suc j + n \<le> p div 256" by linarith
  then show "translate C st2 c p = (if j \<le> p div 256 \<and> p div 256 < j + Suc n
      then Section ((pa + of_nat (p div 256 - j) * 0x100000) OR section_prot C f) else translate C st c p)"
  proof cases
    case 1
    then show ?thesis using sections_atD [OF 2 cp] assms(1) [OF cp] by simp
  next
    case 2
    then show ?thesis using sections_atD [OF assms(2) cp] s [OF 2(1)] by simp
  next
    case 3
    then show ?thesis using sections_atD [OF 2 cp] assms(1) [OF cp] by auto
  qed
qed

lemma section_next:
  fixes pa :: u32
  assumes "pa AND mask 20 = 0"
  shows "(pa + 0x100000) AND mask 20 = 0"
proof -
  have "2 ^ 20 dvd unat pa" using assms by (simp only: and_mask_dvd)
  then have "2 ^ 20 dvd unat (pa + 0x100000)" by (auto simp: unat_word_ariths dvd_mod_iff)
  then show ?thesis by (simp only: and_mask_dvd)
qed

lemma scmap_range_spec:
  assumes cfg: "cfg_ok C"
  shows "n < fuel \<Longrightarrow> mmu_inv C tab st \<Longrightarrow> unat sz = n * 0x100000 \<Longrightarrow> 0 < n \<longrightarrow> unat va div 0x100000 = j \<Longrightarrow>
    j + n \<le> 4096 \<Longrightarrow> no_tables C tab j n \<Longrightarrow> pa AND mask 20 = 0 \<Longrightarrow>
    \<exists>st'. scmap_range fuel C va pa f sz st = Inr st' \<and> mmu_inv C tab st' \<and> same_frame st st' \<and> sections_at C st st' j n pa f \<and>
      (\<forall>g. (\<forall>i. j \<le> i \<and> i < j + n \<longrightarrow> i div 4 \<noteq> g) \<longrightarrow> clean C tab st g \<longrightarrow> clean C tab st' g)"
proof (induction fuel arbitrary: n st va pa sz j)
  case (Suc fuel)
  note prems = Suc.prems
  show ?case
  proof (cases n)
    case 0
    then have "sz = 0" using prems(3) by (simp add: unat_eq_0)
    then show ?thesis using 0 prems(2) by (simp add: sections_none)
  next
    case (Suc k)
    have sz0: "sz \<noteq> 0" using prems(3) Suc by auto
    have j: "unat va div 2 ^ 20 = j" using prems(4) Suc by simp
    have g: "unat va div 2 ^ 22 = j div 4" using j by (simp add: div_mult2_eq [symmetric] flip: j)
    let ?st1 = "arm_scmap C va pa f st"
    have "\<forall>c < mc_num_cpu C. tab c (unat va div 2 ^ 22) = None" unfolding g using prems(6) Suc by (simp add: no_tables_def)
    note S = arm_scmap_spec [OF cfg prems(2) this prems(7), where f = f, unfolded j g]
    have run: "scmap_range (Suc fuel) C va pa f sz st = scmap_range fuel C (va + 0x100000) (pa + 0x100000) f (sz - 0x100000) ?st1"
      using sz0 by (simp add: abi_okD [OF cfg])
    have "\<exists>st'. scmap_range fuel C (va + 0x100000) (pa + 0x100000) f (sz - 0x100000) ?st1 = Inr st' \<and> mmu_inv C tab st' \<and>
        same_frame ?st1 st' \<and> sections_at C ?st1 st' (Suc j) k (pa + 0x100000) f \<and>
        (\<forall>g. (\<forall>i. Suc j \<le> i \<and> i < Suc j + k \<longrightarrow> i div 4 \<noteq> g) \<longrightarrow> clean C tab ?st1 g \<longrightarrow> clean C tab st' g)"
    proof (rule Suc.IH [OF _ S(1)])
      show "k < fuel" using prems(1) Suc by simp
      have "0x100000 \<le> sz" using prems(3) Suc by (simp add: word_le_nat_alt)
      then show "unat (sz - 0x100000) = k * 0x100000" using prems(3) Suc by (simp add: unat_sub)
      show "0 < k \<longrightarrow> unat (va + 0x100000) div 0x100000 = Suc j"
      proof
        assume k: "0 < k"
        have "unat va < (j + 1) * 0x100000" using j by (simp add: dividend_less_div_times)
        then have "unat va + 0x100000 < 2 ^ 32" using prems(5) Suc k by simp
        then have "unat (va + 0x100000) = unat va + 0x100000" by (simp add: unat_word_ariths)
        then show "unat (va + 0x100000) div 0x100000 = Suc j" using j by simp
      qed
      show "Suc j + k \<le> 4096" using prems(5) Suc by simp
      show "no_tables C tab (Suc j) k" using prems(6) Suc by (simp add: no_tables_def)
      show "(pa + 0x100000) AND mask 20 = 0" by (rule section_next [OF prems(7)])
    qed
    then obtain st' where I: "scmap_range fuel C (va + 0x100000) (pa + 0x100000) f (sz - 0x100000) ?st1 = Inr st'" "mmu_inv C tab st'"
      "same_frame ?st1 st'" "sections_at C ?st1 st' (Suc j) k (pa + 0x100000) f"
      "\<And>g. \<forall>i. Suc j \<le> i \<and> i < Suc j + k \<longrightarrow> i div 4 \<noteq> g \<Longrightarrow> clean C tab ?st1 g \<Longrightarrow> clean C tab st' g" by blast
    have "clean C tab st' g" if o: "\<forall>i. j \<le> i \<and> i < j + Suc k \<longrightarrow> i div 4 \<noteq> g" and cl: "clean C tab st g" for g
    proof (rule I(5))
      show "\<forall>i. Suc j \<le> i \<and> i < Suc j + k \<longrightarrow> i div 4 \<noteq> g" using o by auto
      have "g \<noteq> j div 4" using o by auto
      then show "clean C tab ?st1 g" by (rule S(4) [OF _ cl])
    qed
    then show ?thesis
      unfolding run Suc using I(1,2) same_frame_trans [OF S(2) I(3)] sections_step [OF S(3) I(4)] by blast
  qed
qed simp

text \<open>The startup sections are such a range.\<close>

definition round_up :: "nat \<Rightarrow> nat" where
  "round_up n = (n + 0xFFFFF) div 0x100000"

lemma round_up_step: "0 < d \<Longrightarrow> round_up d = Suc (round_up (d - 0x100000))"
proof -
  assume d: "0 < d"
  show ?thesis
  proof (cases "0x100000 \<le> d")
    case True
    then obtain e where "d = e + 0x100000" by (metis add.commute le_Suc_ex)
    then show ?thesis by (simp add: round_up_def)
  next
    case False
    then have "(d + 0xFFFFF) div 0x100000 = 1" using d by (simp add: div_nat_eqI)
    then show ?thesis using False by (simp add: round_up_def)
  qed
qed

lemma startup_sections_range:
  assumes "cfg_ok C"
  shows "n < fuel \<Longrightarrow> unat end \<le> 0xFFF00000 \<Longrightarrow> unat sz = n * 0x100000 \<Longrightarrow> n = round_up (unat end - unat base) \<Longrightarrow>
    startup_sections fuel C base end st = scmap_range fuel C base base (ARM_PTE_RO (mc_abi C)) sz st"
proof (induction fuel arbitrary: n base sz st)
  case (Suc fuel)
  show ?case
  proof (cases "base < end")
    case False
    then have "n = 0" using Suc.prems(4) by (simp add: round_up_def word_less_nat_alt)
    then have "sz = 0" using Suc.prems(3) by (simp add: unat_eq_0)
    then show ?thesis using False by simp
  next
    case True
    then have lt: "unat base < unat end" by (simp add: word_less_nat_alt)
    then have "n \<noteq> 0" using Suc.prems(4) by (simp add: round_up_def)
    then obtain k where k: "n = Suc k" by (cases n) auto
    have b: "unat (base + 0x100000) = unat base + 0x100000" using lt Suc.prems(2) by (simp add: unat_word_ariths)
    have s: "0x100000 \<le> sz" "sz \<noteq> 0" using Suc.prems(3) k by (auto simp: word_le_nat_alt)
    have "startup_sections fuel C (base + 0x100000) end (arm_scmap C base base (ARM_PTE_RO (mc_abi C)) st) =
        scmap_range fuel C (base + 0x100000) (base + 0x100000) (ARM_PTE_RO (mc_abi C)) (sz - 0x100000)
          (arm_scmap C base base (ARM_PTE_RO (mc_abi C)) st)"
    proof (rule Suc.IH [OF _ Suc.prems(2)])
      show "k < fuel" using Suc.prems(1) k by simp
      show "unat (sz - 0x100000) = k * 0x100000" using Suc.prems(3) k s(1) by (simp add: unat_sub)
      have "Suc k = Suc (round_up (unat end - unat base - 0x100000))"
        unfolding k [symmetric] Suc.prems(4) by (rule round_up_step) (use lt in simp)
      then show "k = round_up (unat end - unat (base + 0x100000))" unfolding b by (simp add: diff_diff_left)
    qed
    then show ?thesis using True s(2) by (simp add: abi_okD [OF assms])
  qed
qed simp

end
