(* ===== verification/ArmStart.thy ===== *)
theory ArmStart
  imports ArmBootSpec
begin

section \<open>The ARM page tables: init_mmu_32\<close>

text \<open>
  The steps of \<open>init_mmu_32\<close>, one lemma for each: allocating the first-level tables, the page
  directory, the one-to-one area, and what other calls leave alone.
\<close>

subsection \<open>Changes the tables do not see\<close>

lemma lsp_view:
  "mmu_inv C tab (st\<lparr>mm_ram := (mm_ram st)\<lparr>rs_lsp := s\<rparr>\<rparr>) = mmu_inv C tab st"
  "clean C tab (st\<lparr>mm_ram := (mm_ram st)\<lparr>rs_lsp := s\<rparr>\<rparr>) g = clean C tab st g"
  "translate C (st\<lparr>mm_ram := (mm_ram st)\<lparr>rs_lsp := s\<rparr>\<rparr>) = translate C st"
  by (rule same_view; simp add: CPU_L1_TABLE_def fun_eq_iff)+

text \<open>Before \<open>add_sysram\<close> the allocator does not look at the system page.\<close>

lemma alloc_ram_lsp: "\<not> sysram_added rs \<Longrightarrow> alloc_ram A a sz al (rs\<lparr>rs_lsp := s\<rparr>) =
    bind_res (alloc_ram A a sz al rs) (\<lambda>(x, rs1). Inr (x, rs1\<lparr>rs_lsp := s\<rparr>))"
  by (auto simp: alloc_ram_def avoids_def Let_def bind_res_def split: sum.splits)

lemma alloc_ram_sysram: "\<not> sysram_added rs \<Longrightarrow> alloc_ram A a sz al rs = Inr (x, rs1) \<Longrightarrow> \<not> sysram_added rs1"
  by (auto simp: alloc_ram_def Let_def bind_res_def split: sum.splits if_splits)

lemma page_supply_lsp: "\<not> sysram_added rs \<Longrightarrow> page_supply k A (rs\<lparr>rs_lsp := s\<rparr>) = page_supply k A rs"
proof (induction k arbitrary: rs)
  case (Suc k)
  show ?case
  proof (cases "alloc_ram A NULL_PADDR 4096 4096 rs")
    case (Inr r)
    obtain a rs1 where r: "r = (a, rs1)" by (cases r)
    have ns: "\<not> sysram_added (rs1\<lparr>rs_mem := m\<rparr>)" for m using alloc_ram_sysram [OF Suc.prems] Inr r by simp
    have e: "rs1\<lparr>rs_lsp := s, rs_mem := m\<rparr> = rs1\<lparr>rs_mem := m\<rparr>\<lparr>rs_lsp := s\<rparr>" for m by simp
    have m: "rs_mem (rs1\<lparr>rs_lsp := s\<rparr>) = rs_mem rs1" by simp
    have IH: "page_supply k A (rs1\<lparr>rs_lsp := s, rs_mem := m\<rparr>) = page_supply k A (rs1\<lparr>rs_mem := m\<rparr>)" for m
      unfolding e by (rule Suc.IH [OF ns])
    show ?thesis
      unfolding page_supply.simps calloc_ram_def alloc_ram_lsp [OF Suc.prems] Inr r bind_res_def sum.case prod.case m
      by (cases "a = NULL_PADDR") (simp_all del: page_supply.simps add: IH)
  qed (simp add: calloc_ram_def alloc_ram_lsp [OF Suc.prems])
qed simp

lemma ram_good_lsp: "ram_good k A (rs\<lparr>rs_lsp := s\<rparr>) = ram_good k A rs"
  using page_supply_lsp by (auto simp: ram_good_def)

text \<open>The attributes in the low bits of the table address are masked out.\<close>

lemma ttb_view:
  assumes l1: "L1_paddr st AND mask 14 = 0" and size1: "ARM_L1_SIZE (mc_abi C) = 16384"
    and m: "ARM_TTBR_ATTR_MASK (mc_abi C) AND NOT (mask 14) = 0" and attr: "attr AND NOT (ARM_TTBR_ATTR_MASK (mc_abi C)) = 0"
  shows "CPU_L1_TABLE C (st\<lparr>L1_paddr := L1_paddr st OR attr\<rparr>) = CPU_L1_TABLE C st"
    "CPU_L1_TABLE C st c = L1_paddr st + of_nat c * 16384"
proof -
  let ?M = "ARM_TTBR_ATTR_MASK (mc_abi C)"
  have a14: "attr AND NOT (mask 14) = 0"
  proof -
    have "attr AND NOT (mask 14) = (attr AND NOT ?M) AND NOT (mask 14) OR attr AND (?M AND NOT (mask 14))"
      by (rule bit_word_eqI) (auto simp: bit_simps)
    then show ?thesis by (simp add: attr m)
  qed
  have al: "(L1_paddr st + of_nat c * 16384) AND mask 14 = 0" for c
  proof -
    have "2 ^ 14 dvd unat (L1_paddr st)" using l1 by (simp only: and_mask_dvd)
    then have "2 ^ 14 dvd unat (L1_paddr st + of_nat c * 16384)" by (auto simp: unat_word_ariths dvd_mod_iff)
    then show ?thesis by (simp only: and_mask_dvd)
  qed
  have hi: "x AND NOT ?M = x" if "x AND mask 14 = 0" for x
  proof -
    have "x AND ?M = (x AND mask 14) AND ?M OR x AND (?M AND NOT (mask 14))" by (rule bit_word_eqI) (auto simp: bit_simps)
    then have z: "x AND ?M = 0" by (simp add: that m)
    have "x = (x AND ?M) OR (x AND NOT ?M)" by (rule bit_word_eqI) (auto simp: bit_simps)
    then show ?thesis unfolding z by simp
  qed
  show t: "CPU_L1_TABLE C st c = L1_paddr st + of_nat c * 16384" for c
    unfolding CPU_L1_TABLE_def size1 by (rule hi [OF al])
  show "CPU_L1_TABLE C (st\<lparr>L1_paddr := L1_paddr st OR attr\<rparr>) = CPU_L1_TABLE C st"
  proof
    fix c
    have "(L1_paddr st OR attr) + of_nat c * 16384 = (L1_paddr st + of_nat c * 16384) OR attr"
      unfolding or_as_add [OF l1 a14] or_as_add [OF al a14] by simp
    then have "CPU_L1_TABLE C (st\<lparr>L1_paddr := L1_paddr st OR attr\<rparr>) c = ((L1_paddr st + of_nat c * 16384) OR attr) AND NOT ?M"
      by (simp add: CPU_L1_TABLE_def size1)
    also have "\<dots> = ((L1_paddr st + of_nat c * 16384) AND NOT ?M) OR (attr AND NOT ?M)" by (rule bit.conj_disj_distrib2)
    also have "\<dots> = L1_paddr st + of_nat c * 16384" unfolding hi [OF al] attr by simp
    finally show "CPU_L1_TABLE C (st\<lparr>L1_paddr := L1_paddr st OR attr\<rparr>) c = CPU_L1_TABLE C st c" unfolding t .
  qed
qed

subsection \<open>The tables themselves\<close>

text \<open>
  What \<open>init_mmu_32\<close> needs of the RAM: room for the tables of all CPUs, where \<open>l1\<close> and \<open>l2\<close> are
  what the allocator returns.
\<close>

definition tables_alloc :: "mmu_cfg \<Rightarrow> ram_state \<Rightarrow> u32 \<Rightarrow> u32 \<Rightarrow> ram_state \<Rightarrow> bool" where
  "tables_alloc C rs l1 l2 rs' \<longleftrightarrow> mc_num_cpu C < 2 ^ 16 \<and> ram_ok (ram_list rs) \<and> ram_room 2 (ram_list rs) \<and> \<not> sysram_added rs \<and>
     (\<forall>r \<in> set (ram_list rs). r_hi r + 16384 \<le> 2 ^ 32) \<and> l1 \<noteq> NULL_PADDR \<and> l2 \<noteq> NULL_PADDR \<and>
     bind_res (calloc_ram (mc_as C) (of_nat (mc_num_cpu C) * 16384) 16384 rs) (\<lambda>(a, rs1).
       bind_res (calloc_ram (mc_as C) (of_nat (mc_num_cpu C) * 4096) 4096 rs1) (\<lambda>(b, rs2). Inr (a, b, rs2))) = Inr (l1, l2, rs')"

lemma tables_alloc_geom:
  assumes cfg: "cfg_ok C" and m: "ARM_TTBR_ATTR_MASK (mc_abi C) AND NOT (mask 14) = 0"
    and al: "tables_alloc C (mm_ram st) l1 l2 rs2"
  defines "st1 \<equiv> st\<lparr>mm_ram := rs2, L1_paddr := l1, L2_paddr := l2\<rparr>"
  shows "geom C st1" "l1 AND mask 14 = 0"
    "\<forall>a \<in> table_area C st1. 4 dvd a \<longrightarrow> a < 2 ^ 32 \<longrightarrow> mw st1 a = 0"
    "covered (ram_list (mm_ram st1)) \<inter> table_area C st1 = {}" "rs_lsp rs2 = rs_lsp (mm_ram st)"
    "l1base C st1 = unat l1"
proof -
  let ?n = "mc_num_cpu C"
  have n: "0 < ?n" "?n < 2 ^ 16" using cfg al by (simp_all add: cfg_ok_def tables_alloc_def)
  obtain rs1 where c: "calloc_ram (mc_as C) (of_nat ?n * 16384) 16384 (mm_ram st) = Inr (l1, rs1)"
    "calloc_ram (mc_as C) (of_nat ?n * 4096) 4096 rs1 = Inr (l2, rs2)"
    using al by (auto simp: tables_alloc_def bind_res_Inr_iff)
  have A: "ram_ok (ram_list (mm_ram st))" "ram_room 1 (ram_list (mm_ram st))" "\<not> sysram_added (mm_ram st)"
    "\<forall>r \<in> set (ram_list (mm_ram st)). r_hi r + 2 ^ 14 \<le> 2 ^ 32" "length (ram_list (mm_ram st)) + 2 \<le> 191"
    using al by (simp_all add: tables_alloc_def ram_room_eq)
  have s1: "unat (of_nat ?n * 16384 :: u32) = ?n * 16384" and s2: "unat (of_nat ?n * 4096 :: u32) = ?n * 4096"
    using unat_of_nat_small [of "?n * 16384", where 'a = 32] unat_of_nat_small [of "?n * 4096", where 'a = 32] n(2) by simp_all
  have z: "0 < (of_nat ?n * 16384 :: u32)" "0 < (of_nat ?n * 4096 :: u32)" using s1 s2 n(1) by (simp_all add: word_less_nat_alt)
  have pow: "(16384 :: u32) = 2 ^ 14" "(4096 :: u32) = 2 ^ 12" by simp_all
  have nn: "l1 \<noteq> NULL_PADDR" "l2 \<noteq> NULL_PADDR" using al by (simp_all add: tables_alloc_def)
  have c1: "calloc_ram (mc_as C) (of_nat ?n * 16384) (2 ^ 14) (mm_ram st) = Inr (l1, rs1)" using c(1) by simp
  note B1 = calloc_block [OF A(1-4) _ z(1) c1 nn(1)]
  have A2: "ram_room 1 (ram_list rs1)" "\<forall>r \<in> set (ram_list rs1). r_hi r + 2 ^ 12 \<le> 2 ^ 32"
    using B1(6,9) A(5) by (force simp: ram_room_eq)+
  have c2: "calloc_ram (mc_as C) (of_nat ?n * 4096) (2 ^ 12) rs1 = Inr (l2, rs2)" using c(2) by simp
  note B2 = calloc_block [OF B1(5) A2(1) B1(7) A2(2) _ z(2) c2 nn(2)]
  show l1: "l1 AND mask 14 = 0" using B1(1) by (simp only: and_mask_dvd)
  have t1: "CPU_L1_TABLE C st1 c = l1 + of_nat c * 16384" for c
    using ttb_view(2) [of st1 C 0 c] l1 m abi_okD(3) [OF cfg] by (simp add: st1_def)
  have t2: "CPU_L2_TABLE C st1 c = l2 + of_nat c * 4096" for c
    by (simp add: CPU_L2_TABLE_def st1_def abi_okD [OF cfg])
  show b1: "l1base C st1 = unat l1" by (simp add: l1base_def t1)
  have b2: "l2base C st1 = unat l2" by (simp add: l2base_def t2)
  have e1: "unat l1 + ?n * 16384 \<le> 2 ^ 32" and e2: "unat l2 + ?n * 4096 \<le> 2 ^ 32" using B1(3) B2(3) s1 s2 by simp_all
  have r1: "ram_block l1 (of_nat ?n * 16384) = {unat l1 ..< unat l1 + ?n * 16384}"
    and r2: "ram_block l2 (of_nat ?n * 4096) = {unat l2 ..< unat l2 + ?n * 4096}" by (simp_all add: ram_block_def s1 s2)
  have area: "table_area C st1 = ram_block l1 (of_nat ?n * 16384) \<union> ram_block l2 (of_nat ?n * 4096)"
    unfolding table_area_def b1 b2 r1 r2 ..
  have dis: "ram_block l2 (of_nat ?n * 4096) \<inter> ram_block l1 (of_nat ?n * 16384) = {}" using B2(2) B1(4) by auto
  show "covered (ram_list (mm_ram st1)) \<inter> table_area C st1 = {}" unfolding area using B1(4) B2(4) by (auto simp: st1_def)
  show "rs_lsp rs2 = rs_lsp (mm_ram st)" using B1(8) B2(8) by simp
  have u1: "unat (l1 + of_nat c * 16384) = unat l1 + c * 16384" if "c < ?n" for c
  proof -
    have "unat (of_nat c * 16384 :: u32) = c * 16384" using unat_of_nat_small [of "c * 16384", where 'a = 32] n(2) that by simp
    moreover have "c * 16384 < ?n * 16384" using that by simp
    ultimately show ?thesis using e1 by (simp add: unat_word_ariths)
  qed
  have u2: "unat (l2 + of_nat c * 4096) = unat l2 + c * 4096" if "c < ?n" for c
  proof -
    have "unat (of_nat c * 4096 :: u32) = c * 4096" using unat_of_nat_small [of "c * 4096", where 'a = 32] n(2) that by simp
    moreover have "c * 4096 < ?n * 4096" using that by simp
    ultimately show ?thesis using e2 by (simp add: unat_word_ariths)
  qed
  have d: "4096 dvd unat l1" "4096 dvd unat l2" "4 dvd unat l1" "4 dvd unat l2"
    using B1(1) B2(1) by (auto elim!: dvdE)
  have sep: "unat l1 + ?n * 16384 \<le> unat l2 \<or> unat l2 + ?n * 4096 \<le> unat l1"
  proof (rule ccontr)
    assume "\<not> (unat l1 + ?n * 16384 \<le> unat l2 \<or> unat l2 + ?n * 4096 \<le> unat l1)"
    then have "max (unat l1) (unat l2) \<in> ram_block l2 (of_nat ?n * 4096) \<inter> ram_block l1 (of_nat ?n * 16384)"
      unfolding r1 r2 using n(1) by auto
    then show False using dis by blast
  qed
  show "geom C st1" unfolding geom_def b1 b2 t1 t2 using e1 e2 d u1 u2 sep by simp
  have zero: "mw st1 a = 0" if a: "a \<in> table_area C st1" "4 dvd a" "a < 2 ^ 32" for a
  proof -
    have q: "4 dvd unat (of_nat ?n * 16384 :: u32)" "4 dvd unat (of_nat ?n * 4096 :: u32)" by (simp_all add: s1 s2)
    have m1: "mw st1 a = word_at (rs_mem rs2) (of_nat a)" by (simp add: mw_def rd_def st1_def)
    show "mw st1 a = 0"
    proof (cases "a \<in> ram_block l2 (of_nat ?n * 4096)")
      case True
      show ?thesis unfolding m1 by (rule zero_block [OF B2(10) d(4) q(2) B2(3) a(2,3) True]) simp_all
    next
      case False
      have "word_at (rs_mem rs2) (of_nat a) = word_at (rs_mem rs1) (of_nat a)"
        by (rule same_block [OF B2(11) d(4) q(2) B2(3) a(2,3) False]) simp_all
      moreover have "word_at (rs_mem rs1) (of_nat a) = 0"
        by (rule zero_block [OF B1(10) d(3) q(1) B1(3) a(2,3)]) (use a(1) False area in auto)
      ultimately show ?thesis unfolding m1 by simp
    qed
  qed
  then show "\<forall>a \<in> table_area C st1. 4 dvd a \<longrightarrow> a < 2 ^ 32 \<longrightarrow> mw st1 a = 0" by blast
qed

subsection \<open>The one-to-one area\<close>

definition ram_sections :: "arm_abi \<Rightarrow> u32 \<Rightarrow> u32 \<Rightarrow> nat" where
  "ram_sections K base sz = (if base AND mask 20 = 0 then round_up (min (unat sz) (unat (ARM_1TO1_SIZE K))) else 0)"

text \<open>The largest RAM bank is known, and its new entry fits into the system page.\<close>

definition ram_entry_fits :: "mmu_cfg \<Rightarrow> lsp \<Rightarrow> u32 \<Rightarrow> u32 \<Rightarrow> bool" where
  "ram_entry_fits C s base sz \<longleftrightarrow> largest_ram s None 0 0 = Inr (base, sz) \<and> sz \<noteq> 0 \<and>
     unat (ARM_1TO1_SIZE (mc_abi C)) \<le> 0xFFF00000 \<and>
     (case bind_res (as_default (mc_as C) 32 s) (\<lambda>(owner, s1).
        as_add (mc_as C) base (base + of_nat (ram_sections (mc_abi C) base sz * 0x100000) - 1) (AS_ATTR_RAM (mc_as C)) ''1to1'' (Some owner) s1)
      of Inl e \<Rightarrow> False | Inr x \<Rightarrow> True)"

lemma round_up_word:
  fixes sz :: u32
  assumes "unat sz \<le> 0xFFF00000"
  shows "unat ((sz + 0xFFFFF) AND NOT 0xFFFFF) = round_up (unat sz) * 0x100000"
proof -
  have "unat (sz + 0xFFFFF) = unat sz + 0xFFFFF" using assms by (simp add: unat_word_ariths)
  then show ?thesis unfolding masks(4) unat_and_not_mask by (simp add: round_up_def)
qed

lemma map_1to1_ram_spec:
  assumes cfg: "cfg_ok C" and inv: "mmu_inv C tab st" and fits: "ram_entry_fits C (rs_lsp (mm_ram st)) base sz"
    and n: "n = ram_sections (mc_abi C) base sz" and j: "j = unat (ARM_1TO1_BASE (mc_abi C)) div 0x100000"
    and jn: "j + n \<le> 4096" and no: "no_tables C tab j n"
  shows "\<exists>st'. map_1to1_ram C st = Inr st' \<and> mmu_inv C tab st' \<and> (\<forall>k A. ram_good k A (mm_ram st') = ram_good k A (mm_ram st)) \<and>
    sections_at C st st' j n base (ARM_PTE_RW (mc_abi C) OR ARM_PTE_CB (mc_abi C))"
proof -
  let ?K = "mc_abi C" and ?s = "rs_lsp (mm_ram st)"
  note K = abi_okD [OF cfg]
  have F: "largest_ram ?s None 0 0 = Inr (base, sz)" "sz \<noteq> 0" "unat (ARM_1TO1_SIZE ?K) \<le> 0xFFF00000"
    using fits by (simp_all add: ram_entry_fits_def)
  show ?thesis
  proof (cases "base AND mask 20 = 0")
    case False
    then have "map_1to1_ram C st = Inr st" using F(1,2) by (simp add: map_1to1_ram_def Let_def bind_res_def K masks)
    moreover have "n = 0" using False by (simp add: n ram_sections_def)
    ultimately show ?thesis using inv sections_none by auto
  next
    case True
    define size1 where "size1 = (if sz > ARM_1TO1_SIZE ?K then ARM_1TO1_SIZE ?K else sz)"
    define size2 where "size2 = (size1 + 0xFFFFF) AND NOT 0xFFFFF"
    have s1: "unat size1 = min (unat sz) (unat (ARM_1TO1_SIZE ?K))" by (auto simp: size1_def word_less_nat_alt)
    have s2: "unat size2 = n * 0x100000"
      using round_up_word [of size1] F(3) s1 True by (simp add: size2_def n ram_sections_def)
    then have o: "size2 = of_nat (n * 0x100000)" by (metis unat_of_nat_self)
    obtain owner s1 off s2 where A: "as_default (mc_as C) 32 ?s = Inr (owner, s1)"
      "as_add (mc_as C) base (base + size2 - 1) (AS_ATTR_RAM (mc_as C)) ''1to1'' (Some owner) s1 = Inr (off, s2)"
      using fits unfolding ram_entry_fits_def n [symmetric] o [symmetric] by (auto simp: bind_res_def split: sum.splits)
    let ?st = "st\<lparr>mm_ram := (mm_ram st)\<lparr>rs_lsp := s2\<rparr>\<rparr>"
    have run: "map_1to1_ram C st =
        scmap_range (Suc (unat size2)) C (ARM_1TO1_BASE ?K) base (ARM_PTE_RW ?K OR ARM_PTE_CB ?K) size2 ?st"
      using F(1,2) True A by (simp add: map_1to1_ram_def Let_def bind_res_def K masks(4) flip: size1_def size2_def [unfolded masks(4)])
    have "\<exists>st'. scmap_range (Suc (unat size2)) C (ARM_1TO1_BASE ?K) base (ARM_PTE_RW ?K OR ARM_PTE_CB ?K) size2 ?st = Inr st' \<and>
        mmu_inv C tab st' \<and> same_frame ?st st' \<and> sections_at C ?st st' j n base (ARM_PTE_RW ?K OR ARM_PTE_CB ?K) \<and>
        (\<forall>g. (\<forall>i. j \<le> i \<and> i < j + n \<longrightarrow> i div 4 \<noteq> g) \<longrightarrow> clean C tab ?st g \<longrightarrow> clean C tab st' g)"
      by (rule scmap_range_spec [OF cfg _ _ s2 _ jn no True]) (use inv s2 in \<open>simp_all add: lsp_view j\<close>)
    then obtain st' where I: "scmap_range (Suc (unat size2)) C (ARM_1TO1_BASE ?K) base (ARM_PTE_RW ?K OR ARM_PTE_CB ?K) size2 ?st = Inr st'"
      "mmu_inv C tab st'" "same_frame ?st st'" "sections_at C ?st st' j n base (ARM_PTE_RW ?K OR ARM_PTE_CB ?K)" by blast
    have "ram_good k A (mm_ram st') = ram_good k A (mm_ram st)" for k A
    proof -
      have "ram_good k A (mm_ram st') = ram_good k A (mm_ram ?st)" using I(3) by (simp add: same_frame_def)
      then show ?thesis by (simp add: ram_good_lsp)
    qed
    moreover have "sections_at C st st' j n base (ARM_PTE_RW ?K OR ARM_PTE_CB ?K)"
      using I(4) unfolding sections_at_def lsp_view .
    ultimately show ?thesis unfolding run using I(1,2) by blast
  qed
qed

subsection \<open>All of it\<close>

definition far_from :: "mmu_cfg \<Rightarrow> nat set \<Rightarrow> nat \<Rightarrow> nat \<Rightarrow> bool" where
  "far_from C G j n \<longleftrightarrow> j + n \<le> 4096 \<and> (\<forall>i. j \<le> i \<and> i < j + n \<longrightarrow> i div 4 \<noteq> pd_group C \<and> i div 4 \<notin> G)"

text \<open>
  What \<open>init_mmu_32\<close> needs: RAM for the tables and for the page tables of the mapping of the
  first-level tables (with \<open>r\<close> pages to spare), and an address map in which that mapping, the startup
  code, the one-to-one area and the page directory use different 4 MB.
\<close>

definition map_group :: "mmu_cfg \<Rightarrow> mmu \<Rightarrow> nat set" where
  "map_group C st = groups (unat (next_addr st) div 4096) (4 * mc_num_cpu C)"

definition start_base :: "startup_header \<Rightarrow> u32" where
  "start_base shdr = sh_ram_paddr shdr AND NOT 0xFFFFF"

definition init_ready :: "mmu_cfg \<Rightarrow> startup_header \<Rightarrow> mmu \<Rightarrow> u32 \<Rightarrow> u32 \<Rightarrow> ram_state \<Rightarrow> nat \<Rightarrow> u32 \<Rightarrow> u32 \<Rightarrow> bool" where
  "init_ready C shdr st l1 l2 rs r rb rsz \<longleftrightarrow>
     cfg_ok C \<and> mc_virtual C \<and> ARM_TTBR_ATTR_MASK (mc_abi C) AND NOT (mask 14) = 0 \<and>
     ucast (ch_ttb_attr (mc_chip C)) AND NOT (ARM_TTBR_ATTR_MASK (mc_abi C)) = 0 \<and>
     tables_alloc C (mm_ram st) l1 l2 rs \<and> ram_good (card (map_group C st) + r) (mc_as C) rs \<and>
     unat (next_addr st) div 4096 + 4 * mc_num_cpu C \<le> 2 ^ 20 \<and> pd_group C \<notin> map_group C st \<and>
     unat (start_base shdr) + unat (sh_ram_size shdr) \<le> 0xFFF00000 \<and>
     far_from C (map_group C st) (unat (start_base shdr) div 0x100000) (round_up (unat (sh_ram_size shdr))) \<and>
     ram_entry_fits C (rs_lsp (mm_ram st)) rb rsz \<and>
     far_from C (map_group C st) (unat (ARM_1TO1_BASE (mc_abi C)) div 0x100000) (ram_sections (mc_abi C) rb rsz)"

text \<open>The address space it builds: the one-to-one area, the startup code, the first-level tables.\<close>

definition init_map :: "mmu_cfg \<Rightarrow> startup_header \<Rightarrow> mmu \<Rightarrow> u32 \<Rightarrow> u32 \<Rightarrow> u32 \<Rightarrow> nat \<Rightarrow> mapping" where
  "init_map C shdr st l1 rb rsz q =
     (let K = mc_abi C; i = q div 256;
          j2 = unat (ARM_1TO1_BASE K) div 0x100000; j1 = unat (start_base shdr) div 0x100000;
          p = unat (next_addr st) div 4096
      in if j2 \<le> i \<and> i < j2 + ram_sections K rb rsz
         then Section ((rb + of_nat (i - j2) * 0x100000) OR section_prot C (ARM_PTE_RW K OR ARM_PTE_CB K))
         else if j1 \<le> i \<and> i < j1 + round_up (unat (sh_ram_size shdr))
         then Section ((start_base shdr + of_nat (i - j1) * 0x100000) OR section_prot C (ARM_PTE_RO K))
         else if p \<le> q \<and> q < p + 4 * mc_num_cpu C
         then Page ((l1 + of_nat (q - p) * 4096) OR
                set_prot C 0 (ARM_MAP_NOEXEC OR ARM_PTE_RW K OR ucast (ch_pte_attr (mc_chip C))))
         else Fault)"

text \<open>The empty tables: anything outside the 4 MB of the page directory can be mapped.\<close>

lemma fresh_tables:
  assumes cfg: "cfg_ok C" and m: "ARM_TTBR_ATTR_MASK (mc_abi C) AND NOT (mask 14) = 0"
    and al: "tables_alloc C (mm_ram st) l1 l2 rs" and ram: "ram_good (card (groups p k) + r) (mc_as C) rs"
    and pk: "p + k \<le> 2 ^ 20" "pd_group C \<notin> groups p k"
  defines "st1 \<equiv> st\<lparr>mm_ram := rs, L1_paddr := l1, L2_paddr := l2\<rparr>"
  defines "st2 \<equiv> arm_pdmap C (ARM_PTP_BASE (mc_abi C)) st1"
  shows "mmu_inv C (pd_tables C st1) st2" "\<forall>g \<in> groups p k. clean C (pd_tables C st1) st2 g"
    "ram_good (missing (pd_tables C st1) (groups p k) + r) (mc_as C) (mm_ram st2)"
    "next_addr st2 = next_addr st" "L1_paddr st2 = l1" "rs_lsp (mm_ram st2) = rs_lsp (mm_ram st)" "l1 AND mask 14 = 0"
    "\<And>c q. c < mc_num_cpu C \<Longrightarrow> q < 2 ^ 20 \<Longrightarrow> q div 1024 \<noteq> pd_group C \<Longrightarrow> translate C st2 c q = Fault"
proof -
  let ?tab = "pd_tables C st1" and ?G = "groups p k"
  note T = tables_alloc_geom [OF cfg m al, folded st1_def]
  note D = arm_pdmap_inv [OF cfg T(1,3,4) st2_def [THEN meta_eq_to_obj_eq]]
  show "mmu_inv C ?tab st2" by (rule D)
  show "next_addr st2 = next_addr st" "L1_paddr st2 = l1" "rs_lsp (mm_ram st2) = rs_lsp (mm_ram st)"
    using D(2) T(5) by (simp_all add: same_frame_def st1_def)
  show "l1 AND mask 14 = 0" by (rule T)
  show "translate C st2 c q = Fault" if "c < mc_num_cpu C" "q < 2 ^ 20" "q div 1024 \<noteq> pd_group C" for c q
    by (rule D(4) [OF that])
  have g1024: "g < 1024" if "g \<in> ?G" for g
    using that pk(1) unfolding groups_def by (auto simp: less_mult_imp_div_less)
  have gp: "g \<noteq> pd_group C" if "g \<in> ?G" for g using that pk(2) by auto
  show "\<forall>g \<in> ?G. clean C ?tab st2 g" using D(3) g1024 gp by blast
  have "{g \<in> ?G. ?tab 0 g = None} = ?G" using gp by (auto simp: pd_tables_def)
  then have "missing ?tab ?G = card ?G" unfolding missing_def by (rule arg_cong)
  then show "ram_good (missing ?tab ?G + r) (mc_as C) (mm_ram st2)"
    using D(2) ram by (simp add: same_frame_def st1_def)
qed

text \<open>First the tables and their own mapping.\<close>

lemma init_tables:
  assumes ready: "init_ready C shdr st l1 l2 rs r rb rsz"
  defines "st1 \<equiv> st\<lparr>mm_ram := rs, L1_paddr := l1, L2_paddr := l2\<rparr>" and "p \<equiv> unat (next_addr st) div 4096"
    and "fl \<equiv> ARM_MAP_NOEXEC OR ARM_PTE_RW (mc_abi C) OR ucast (ch_pte_attr (mc_chip C))"
  obtains tab st3 where
    "arm_map C (NOT 0) (L1_paddr (arm_pdmap C (ARM_PTP_BASE (mc_abi C)) st1)) (of_nat (mc_num_cpu C) * 16384) fl
       (arm_pdmap C (ARM_PTP_BASE (mc_abi C)) st1) = Inr (next_addr st, st3)"
    "mmu_inv C tab st3" "ram_good r (mc_as C) (mm_ram st3)" "rs_lsp (mm_ram st3) = rs_lsp (mm_ram st)"
    "L1_paddr st3 = l1" "l1 AND mask 14 = 0"
    "\<And>g c. c < mc_num_cpu C \<Longrightarrow> g \<noteq> pd_group C \<Longrightarrow> g \<notin> map_group C st \<Longrightarrow> tab c g = None"
    "\<And>c q. c < mc_num_cpu C \<Longrightarrow> q < 2 ^ 20 \<Longrightarrow> q div 1024 \<noteq> pd_group C \<Longrightarrow> translate C st3 c q =
      (if p \<le> q \<and> q < p + 4 * mc_num_cpu C then Page ((l1 + of_nat (q - p) * 4096) OR set_prot C 0 fl) else Fault)"
proof -
  let ?n = "mc_num_cpu C" and ?G = "map_group C st"
  have R: "cfg_ok C" "mc_virtual C" "ARM_TTBR_ATTR_MASK (mc_abi C) AND NOT (mask 14) = 0" "tables_alloc C (mm_ram st) l1 l2 rs"
    "ram_good (card ?G + r) (mc_as C) rs" "p + 4 * ?n \<le> 2 ^ 20" "pd_group C \<notin> ?G"
    using ready by (simp_all add: init_ready_def p_def)
  note cfg = R(1)
  have n: "?n < 2 ^ 16" using R(4) by (simp add: tables_alloc_def)
  have G: "groups p (4 * ?n) = ?G" by (simp add: map_group_def p_def)
  define st2 where "st2 = arm_pdmap C (ARM_PTP_BASE (mc_abi C)) st1"
  let ?tab = "pd_tables C st1"
  note F = fresh_tables [OF cfg R(3,4) R(5) [folded G] R(6) R(7) [folded G], folded st1_def, folded st2_def, unfolded G]
  note f2 = F(4-6)
  have sz: "unat (of_nat ?n * 16384 :: u32) = ?n * 16384"
    using unat_of_nat_small [of "?n * 16384", where 'a = 32] n by simp
  have l1: "unat l1 mod 4096 = 0"
  proof -
    have "2 ^ 14 dvd unat l1" using F(7) by (simp only: and_mask_dvd)
    then obtain k where "unat l1 = 16384 * k" by auto
    then show ?thesis by simp
  qed
  have l1off: "l1 AND 4095 = 0" using l1 by (simp add: masks word_unat_eq_iff unat_and_mask)
  have l1pg: "l1 AND NOT 4095 = l1"
  proof -
    have "l1 = (l1 AND NOT 4095) OR (l1 AND 4095)" by (rule bit_word_eqI) (auto simp: bit_simps)
    then show ?thesis using l1off by simp
  qed
  have pg: "pages l1 (of_nat ?n * 16384) = 4 * ?n" by (simp add: pages_def sz l1)
  have mv: "map_va (NOT 0) st2 = next_addr st" by (simp add: map_va_def f2)
  have ready2: "map_ready C ?tab st2 (NOT 0) l1 (of_nat ?n * 16384) r"
    unfolding map_ready_def Let_def mv p_def [symmetric] pg G
    by (intro conjI F R) (use n in \<open>simp add: sz l1\<close>)
  obtain st3 tab where M:
    "arm_32_map C (NOT 0) l1 (of_nat ?n * 16384) fl st2 = Inr (map_va (NOT 0) st2 + (l1 AND 4095), st3)"
    "mmu_inv C tab st3" "ram_good r (mc_as C) (mm_ram st3)"
    "extends C ?tab tab (groups (unat (map_va (NOT 0) st2) div 4096) (pages l1 (of_nat ?n * 16384)))"
    "same_rest C (if NOT 0 = (NOT 0 :: u32) then st2\<lparr>next_addr := next_addr st2 + of_nat (4096 * pages l1 (of_nat ?n * 16384))\<rparr> else st2)
       st3 (groups (unat (map_va (NOT 0) st2) div 4096) (pages l1 (of_nat ?n * 16384)))"
    "map_done C st2 (NOT 0) l1 (of_nat ?n * 16384) fl st3"
    by (rule arm_32_map_range [OF cfg ready2, of fl]) blast
  note M45 = M(4,5) [unfolded mv p_def [symmetric] pg G]
  have f3: "rs_lsp (mm_ram st3) = rs_lsp (mm_ram st)" "L1_paddr st3 = l1"
    using M45(2) f2 by (simp_all add: same_rest_def)
  show ?thesis
  proof (rule that [OF _ M(2,3) f3 F(7)])
    show "arm_map C (NOT 0) (L1_paddr (arm_pdmap C (ARM_PTP_BASE (mc_abi C)) st1)) (of_nat ?n * 16384) fl
       (arm_pdmap C (ARM_PTP_BASE (mc_abi C)) st1) = Inr (next_addr st, st3)"
      unfolding st2_def [symmetric] f2 arm_map_def using M(1) unfolding mv l1off by simp
    show "tab c g = None" if "c < ?n" "g \<noteq> pd_group C" "g \<notin> ?G" for c g
      using M45(1) that by (simp add: extends_def pd_tables_def)
    fix c q assume q: "c < ?n" "q < (2 :: nat) ^ 20" "q div 1024 \<noteq> pd_group C"
    show "translate C st3 c q =
        (if p \<le> q \<and> q < p + 4 * ?n then Page ((l1 + of_nat (q - p) * 4096) OR set_prot C 0 fl) else Fault)"
      using M(6) [unfolded map_done_def Let_def mv p_def [symmetric] pg l1pg, rule_format, OF q] F(8) [OF q] by simp
  qed
qed

end
