(* ===== verification/ArmEx.thy ===== *)
theory ArmEx
  imports ArmStart
begin

subsection \<open>A concrete board\<close>

text \<open>
  Two CPUs, 256 MB of RAM at \<open>0x10000000\<close>, the startup code at \<open>0x10800000\<close>; the values of
  the parameter are those of a short-descriptor MMU.
\<close>

definition ex_arm :: arm_abi where
  "ex_arm = \<lparr>PAGESIZE = 0x1000, PGMASK = 0xfff, ARM_L1_SIZE = 0x4000, ARM_L2_SIZE = 0x400, ARM_SCSIZE = 0x100000,
     ARM_SCMASK = 0xfffff, ARM_PTP_BASE = 0xfcc00000, ARM_STARTUP_BASE = 0xfc400000, ARM_1TO1_BASE = 0x80000000,
     ARM_1TO1_SIZE = 0x10000000, ARM_TTBR_ATTR_MASK = 0x7f, ARM_MMU_CR_XP = 0x800000, ARM_PTP_VALID = 3, ARM_PTP_SC = 2,
     ARM_PTE_U = 0x2000, ARM_PTE_RW = 0x4000, ARM_PTE_RO = 0x8000, ARM_PTE_CB = 0xc, ARM_PTE_V6_AP0 = 0x10,
     ARM_PTE_V6_nG = 0x800, ARM_PTE_V6_S = 0x400, ARM_PTE_V6_SP_TEX_MASK = 0x1c0, ARM_PTE_V6_SP_XN = 1,
     ARM_PTE_V5_SP_TEX_MASK = 0x1c0\<rparr>"

definition ex_pte :: armv_pte where
  "ex_pte = \<lparr>upte_ro = 0xa3e, upte_rw = 0x83e, kpte_ro = 0x21e, kpte_rw = 0x1e, mask_nc = 0xc, l1_pgtable = 1,
     kscn_ro = 0x8402, kscn_rw = 0x402, kscn_cb = 0xc\<rparr>"

definition ex_chip :: armv_chip where
  "ex_chip = \<lparr>ch_mmu_cr_set = 0x800000, ch_pte = Some ex_pte, ch_pte_wa = None, ch_pte_wb = None, ch_pte_wt = None,
     ch_ttb_attr = 0x42, ch_pte_attr = 0x40c\<rparr>"

definition ex_cfg :: mmu_cfg where
  "ex_cfg = \<lparr>mc_abi = ex_arm, mc_as = ex_abi, mc_pte = ex_pte, mc_v6 = True, mc_chip = ex_chip, mc_virtual = True, mc_num_cpu = 2\<rparr>"

definition ex_mmu :: mmu where
  "ex_mmu = \<lparr>mm_ram = \<lparr>ram_list = [\<lparr>r_addr = 0x10000000, r_size = 0x10000000\<rparr>], avoid_list = Some [], ws_early_next = 0,
       temp_syspage = NULL_PADDR, sysram_added = False, watch_list = [], watch_calls = [], rs_mem = (\<lambda>_. 7),
       rs_lsp = ex_lsp\<lparr>sp_asinfo := [ex_entry 0 0xffffffff None 0, ex_entry 0x10000000 0x1fffffff (Some 0) 7]\<rparr>\<rparr>,
     L1_paddr = 0, L2_paddr = 0, next_addr = 0xfc400000\<rparr>"

definition ex_shdr :: startup_header where
  "ex_shdr = \<lparr>sh_ram_paddr = 0x10812000, sh_ram_size = 0x25000, sh_startup_size = 0x20000\<rparr>"

text \<open>The RAM after the tables were allocated.\<close>

definition ex_alloc :: "(u32 \<times> u32 \<times> ram_state) res" where
  "ex_alloc = bind_res (calloc_ram ex_abi 0x8000 16384 (mm_ram ex_mmu)) (\<lambda>(a, rs1).
     bind_res (calloc_ram ex_abi 0x2000 4096 rs1) (\<lambda>(b, rs2). Inr (a, b, rs2)))"

definition ex_rs :: ram_state where
  "ex_rs = (case ex_alloc of Inl e \<Rightarrow> mm_ram ex_mmu | Inr (a, b, rs) \<Rightarrow> rs)"

lemma ex_cfg_ok: "cfg_ok ex_cfg"
  by code_simp

lemma sum_result: "(case x of Inl e \<Rightarrow> False | Inr (a, b, y) \<Rightarrow> a = k \<and> b = l) \<Longrightarrow>
    x = Inr (k, l, case x of Inl e \<Rightarrow> d | Inr (a, b, y) \<Rightarrow> y)"
  by (cases x) auto

lemma ex_alloc_eq: "ex_alloc = Inr (0x10000000, 0x10008000, ex_rs)"
  unfolding ex_rs_def by (rule sum_result) code_simp

lemma ex_tables_alloc: "tables_alloc ex_cfg (mm_ram ex_mmu) 0x10000000 0x10008000 ex_rs"
proof -
  have "ram_list (mm_ram ex_mmu) = [\<lparr>r_addr = 0x10000000, r_size = 0x10000000\<rparr>]" "\<not> sysram_added (mm_ram ex_mmu)"
    "mc_num_cpu ex_cfg = 2" "mc_as ex_cfg = ex_abi" by (simp_all add: ex_mmu_def ex_cfg_def)
  moreover have "(0x10000000 :: u32) \<noteq> NULL_PADDR" "(0x10008000 :: u32) \<noteq> NULL_PADDR" by (simp_all add: NULL_PADDR_def)
  ultimately show ?thesis
    using ex_alloc_eq by (simp add: tables_alloc_def ex_alloc_def r_ok_def r_lo_def r_hi_def ram_room_eq)
qed

lemma ex_ram_good: "ram_good 3 ex_abi ex_rs" "ram_good 1 ex_abi ex_rs"
proof -
  have "case ex_alloc of Inl e \<Rightarrow> False | Inr (a, b, rs) \<Rightarrow>
      ram_list rs = [\<lparr>r_addr = 0x1000a000, r_size = 0xfff6000\<rparr>] \<and> \<not> sysram_added rs \<and> page_supply 3 ex_abi rs \<and> page_supply 1 ex_abi rs"
    by code_simp
  then have "ram_list ex_rs = [\<lparr>r_addr = 0x1000a000, r_size = 0xfff6000\<rparr>]" "\<not> sysram_added ex_rs"
    "page_supply 3 ex_abi ex_rs" "page_supply 1 ex_abi ex_rs"
    unfolding ex_alloc_eq by simp_all
  then show "ram_good 3 ex_abi ex_rs" "ram_good 1 ex_abi ex_rs"
    by (simp_all add: ram_good_def r_ok_def r_lo_def r_hi_def ram_room_eq)
qed

lemma ex_values:
  "mc_num_cpu ex_cfg = 2" "mc_abi ex_cfg = ex_arm" "mc_as ex_cfg = ex_abi" "mc_chip ex_cfg = ex_chip" "mc_virtual ex_cfg"
  "ARM_PTP_BASE ex_arm = 0xfcc00000" "ARM_1TO1_BASE ex_arm = 0x80000000" "ARM_TTBR_ATTR_MASK ex_arm AND NOT (mask 14) = 0"
  "next_addr ex_mmu = 0xfc400000" "start_base ex_shdr = 0x10800000" "sh_ram_size ex_shdr = 0x25000" "pd_group ex_cfg = 1011"
  by (simp_all add: ex_cfg_def ex_arm_def ex_mmu_def ex_shdr_def start_base_def pd_group_def mask_eq_exp_minus_1)

lemma ex_ram_sections: "ram_sections ex_arm 0x10000000 0x10000000 = 256"
  by (simp add: ram_sections_def ex_arm_def round_up_def masks(4) [symmetric])

lemma ex_ram_entry_fits: "ram_entry_fits ex_cfg (rs_lsp (mm_ram ex_mmu)) 0x10000000 0x10000000"
proof -
  have l: "largest_ram (rs_lsp (mm_ram ex_mmu)) None 0 0 = Inr (0x10000000, 0x10000000)" by code_simp
  have w: "0x10000000 + of_nat (256 * 0x100000) - 1 = (0x1fffffff :: u32)" by simp
  have u: "unat (ARM_1TO1_SIZE ex_arm) \<le> 0xFFF00000" by (simp add: ex_arm_def)
  have "case bind_res (as_default ex_abi 32 (rs_lsp (mm_ram ex_mmu))) (\<lambda>(owner, s1).
        as_add ex_abi 0x10000000 0x1fffffff (AS_ATTR_RAM ex_abi) ''1to1'' (Some owner) s1)
      of Inl e \<Rightarrow> False | Inr x \<Rightarrow> True" by code_simp
  then show ?thesis unfolding ram_entry_fits_def ex_values ex_ram_sections w using l u by simp
qed

lemma ex_init_map:
  "init_map ex_cfg ex_shdr ex_mmu 0x10000000 0x10000000 0x10000000 0x10811 = Section 0x10808402"
  "init_map ex_cfg ex_shdr ex_mmu 0x10000000 0x10000000 0x10000000 0x80300 = Section 0x1030040e"
  "init_map ex_cfg ex_shdr ex_mmu 0x10000000 0x10000000 0x10000000 0xfc402 = Page 0x1000241f"
  "init_map ex_cfg ex_shdr ex_mmu 0x10000000 0x10000000 0x10000000 0xfe000 = Fault"
proof -
  have r: "round_up 0x25000 = 1" by (simp add: round_up_def)
  have p: "section_prot ex_cfg (ARM_PTE_RO ex_arm) = 0x8402" "section_prot ex_cfg (ARM_PTE_RW ex_arm OR ARM_PTE_CB ex_arm) = 0x40e"
    "set_prot ex_cfg 0 (ARM_MAP_NOEXEC OR ARM_PTE_RW ex_arm OR ucast (ch_pte_attr ex_chip)) = 0x41f"
    by code_simp+
  show "init_map ex_cfg ex_shdr ex_mmu 0x10000000 0x10000000 0x10000000 0x10811 = Section 0x10808402"
    "init_map ex_cfg ex_shdr ex_mmu 0x10000000 0x10000000 0x10000000 0x80300 = Section 0x1030040e"
    "init_map ex_cfg ex_shdr ex_mmu 0x10000000 0x10000000 0x10000000 0xfc402 = Page 0x1000241f"
    "init_map ex_cfg ex_shdr ex_mmu 0x10000000 0x10000000 0x10000000 0xfe000 = Fault"
    by (simp_all add: init_map_def Let_def ex_values ex_ram_sections p r)
qed

text \<open>The empty tables of the board.\<close>

definition ex_tables :: mmu where
  "ex_tables = arm_pdmap ex_cfg 0xfcc00000 (ex_mmu\<lparr>mm_ram := ex_rs, L1_paddr := 0x10000000, L2_paddr := 0x10008000\<rparr>)"

lemma ex_groups: "groups 0xfe3ff 3 = {1016, 1017}" "groups 0xfe001 3 = {1016}" "map_group ex_cfg ex_mmu = {1009}"
proof -
  have "{0xfe3ff ..< 0xfe3ff + 3} = {0xfe3ff, 0xfe400, 0xfe401 :: nat}" by auto
  then show "groups 0xfe3ff 3 = {1016, 1017}" by (simp add: groups_def)
  show "groups 0xfe001 3 = {1016}" by (rule groups_one) simp_all
  show "map_group ex_cfg ex_mmu = {1009}" unfolding map_group_def ex_values by (rule groups_one) simp_all
qed

lemma ex_tables_ready:
  assumes "p + k \<le> 2 ^ 20" and "pd_group ex_cfg \<notin> groups p k" and "ram_good (card (groups p k) + r) ex_abi ex_rs"
    and "unat (map_va vaddr ex_tables) div 4096 = p" and "pages paddr sz = k" and "unat sz + unat paddr mod 4096 + 4095 < 2 ^ 32"
  shows "\<exists>tab. map_ready ex_cfg tab ex_tables vaddr paddr sz r"
proof -
  note F = fresh_tables [OF ex_cfg_ok ex_values(8) [folded ex_values(2)] ex_tables_alloc _ assms(1,2),
      unfolded ex_values, OF assms(3), folded ex_tables_def]
  show ?thesis
    unfolding map_ready_def Let_def assms(4,5) ex_values
    by (intro exI conjI) (use F(1-3) assms ex_values(5) in \<open>simp_all only: simp_thms\<close>)
qed

end
