(* ===== verification/ArmProps.thy ===== *)
theory ArmProps
  imports ArmEx
begin

section \<open>The ARM page tables: properties\<close>

text \<open>
  The properties of \<open>arm_32_map\<close>, \<open>elf_map\<close> and \<open>init_mmu_32\<close>, with their instances on the
  board of \<open>ArmEx\<close>.
\<close>

subsection \<open>init_mmu_32\<close>






subsection \<open>arm_32_map\<close>

text \<open>C38: \<open>arm_32_map\<close> returns the address of the range (the next free one if it is
  asked to choose) and leaves every page of the range mapped, on every CPU, to its frame with the
  attributes the flags stand for, whatever number of page tables it crosses; every other page
  translates as before, the tables stay well-formed, and of the free RAM it takes only the pages
  for the tables that were missing.\<close>

theorem arm_32_map_maps:
  assumes "cfg_ok C" and "map_ready C tab st vaddr paddr sz r"
  shows "\<exists>st' tab'. arm_32_map C vaddr paddr sz flags st = Inr (map_va vaddr st + (paddr AND 4095), st') \<and>
    mmu_inv C tab' st' \<and> ram_good r (mc_as C) (mm_ram st') \<and> map_done C st vaddr paddr sz flags st'"
  by (rule arm_32_map_range [OF assms, of flags]) blast

lemma arm_32_map_maps_witness:
  "\<exists>st'. arm_32_map ex_cfg 0xfe3ff000 0x18000123 0x2000 (ARM_MAP_NOEXEC OR ARM_PTE_RW ex_arm) ex_tables = Inr (0xfe3ff123, st') \<and>
    translate ex_cfg st' 0 0xfe3ff = Page 0x18000013 \<and> translate ex_cfg st' 1 0xfe401 = Page 0x18002013"
proof -
  have p: "pages 0x18000123 0x2000 = 3" "map_va 0xfe3ff000 ex_tables = 0xfe3ff000" by (simp_all add: pages_def map_va_def)
  have "\<exists>tab. map_ready ex_cfg tab ex_tables 0xfe3ff000 0x18000123 0x2000 1"
  proof (rule ex_tables_ready [where p = "0xfe3ff" and k = 3])
    have c: "card {1016, 1017 :: nat} + 1 = 3" by simp
    show "ram_good (card (groups 0xfe3ff 3) + 1) ex_abi ex_rs" unfolding ex_groups c by (rule ex_ram_good)
  qed (simp_all add: p ex_groups ex_values)
  then obtain tab where "map_ready ex_cfg tab ex_tables 0xfe3ff000 0x18000123 0x2000 1" ..
  from arm_32_map_maps [OF ex_cfg_ok this, of "ARM_MAP_NOEXEC OR ARM_PTE_RW ex_arm"] obtain st' where
    m: "arm_32_map ex_cfg 0xfe3ff000 0x18000123 0x2000 (ARM_MAP_NOEXEC OR ARM_PTE_RW ex_arm) ex_tables = Inr (0xfe3ff123, st')"
    "map_done ex_cfg ex_tables 0xfe3ff000 0x18000123 0x2000 (ARM_MAP_NOEXEC OR ARM_PTE_RW ex_arm) st'"
    unfolding p by auto
  have "set_prot ex_cfg 0 (ARM_MAP_NOEXEC OR ARM_PTE_RW ex_arm) = 0x13" by code_simp
  note d = m(2) [unfolded map_done_def p ex_values Let_def this, rule_format]
  have "translate ex_cfg st' 0 0xfe3ff = Page 0x18000013" using d [of 0 "0xfe3ff"] by simp
  moreover have "translate ex_cfg st' 1 0xfe401 = Page 0x18002013" using d [of 1 "0xfe401"] by simp
  ultimately show ?thesis using m(1) by blast
qed

subsection \<open>elf_map\<close>










end
